(* ===== verification/Rust_Prelude.thy ===== *)
theory Rust_Prelude
  imports Main "HOL-Library.AList" "HOL-Library.Word"
begin

text \<open>
  Shared vocabulary of the development: the parts of Rust's standard library that the
  components use on strings, and the lemmas about them.

  A Rust \<open>&str\<close> or \<open>String\<close> is a \<^typ>\<open>string\<close> holding its UTF-8 bytes, so that
  \<^const>\<open>length\<close> is Rust's \<open>len()\<close> and an index is a byte offset.  A \<open>char\<close> of the source is
  one UTF-8 sequence, a lead byte followed by its continuation bytes; \<open>uchars\<close> splits a
  string into them.  A \<open>usize\<close> that is an offset or a length is a \<^typ>\<open>nat\<close>; integers whose
  width matters are words.  Indexing and slicing that would panic are \<^const>\<open>None\<close>.
\<close>

named_theorems str_simps
named_theorems utf8_simps

type_synonym u16 = "16 word"
type_synonym u32 = "32 word"
type_synonym u64 = "64 word"

text \<open>The outcome of code that may panic or loop for ever; an \<open>Option\<close> it returns is a value
  inside.  A loop without a syntactic bound is a \<open>partial_function (option)\<close>, read by \<open>of_loop\<close>.\<close>

datatype 'a outcome = Panic | Diverges | Returns 'a

fun obind :: "'a outcome \<Rightarrow> ('a \<Rightarrow> 'b outcome) \<Rightarrow> 'b outcome" where
  "obind Panic f = Panic"
| "obind Diverges f = Diverges"
| "obind (Returns x) f = f x"

fun or_panic :: "'a option \<Rightarrow> 'a outcome" where
  "or_panic None = Panic"
| "or_panic (Some x) = Returns x"

fun of_loop :: "'a option \<Rightarrow> 'a outcome" where
  "of_loop None = Diverges"
| "of_loop (Some x) = Returns x"

fun traverse :: "('a \<Rightarrow> 'b outcome) \<Rightarrow> 'a list \<Rightarrow> 'b list outcome" where
  "traverse f [] = Returns []"
| "traverse f (x # xs) = obind (f x) (\<lambda>y. obind (traverse f xs) (\<lambda>ys. Returns (y # ys)))"

definition returning :: "'a outcome \<Rightarrow> bool" where
  "returning x \<longleftrightarrow> (\<exists>v. x = Returns v)"

text \<open>A half-open range \<open>start..end\<close> of byte offsets.\<close>

record byte_range =
  br_start :: nat
  br_end :: nat

subsection \<open>Bytes and characters\<close>

abbreviation newline :: char where
  "newline \<equiv> CHR 0x0A"

abbreviation carriage_return :: char where
  "carriage_return \<equiv> CHR 0x0D"

text \<open>Continuation bytes are \<open>10xxxxxx\<close>; the lead byte of a four-byte sequence is \<open>11110xxx\<close>.\<close>

definition is_cont :: "char \<Rightarrow> bool" where
  "is_cont c \<longleftrightarrow> digit7 c \<and> \<not> digit6 c"

definition is_lead4 :: "char \<Rightarrow> bool" where
  "is_lead4 c \<longleftrightarrow> digit7 c \<and> digit6 c \<and> digit5 c \<and> digit4 c"

definition is_ascii :: "char \<Rightarrow> bool" where
  "is_ascii c \<longleftrightarrow> \<not> digit7 c"

function (sequential) uchars :: "string \<Rightarrow> string list" where
  "uchars [] = []"
| "uchars (b # bs) = (b # takeWhile is_cont bs) # uchars (dropWhile is_cont bs)"
  by pat_completeness auto
termination
  by (relation "measure length") (auto simp: length_dropWhile_le le_imp_less_Suc)

text \<open>What the components use of the validity of a \<open>str\<close>: it does not start inside a
  character, and a continuation byte never follows an ASCII byte.\<close>

definition utf8_start :: "string \<Rightarrow> bool" where
  "utf8_start s \<longleftrightarrow> (case s of [] \<Rightarrow> True | b # _ \<Rightarrow> \<not> is_cont b)"

definition utf8_wf :: "string \<Rightarrow> bool" where
  "utf8_wf s \<longleftrightarrow> utf8_start s \<and> successively (\<lambda>a b. is_cont b \<longrightarrow> \<not> is_ascii a) s"

definition is_char_boundary :: "string \<Rightarrow> nat \<Rightarrow> bool" where
  "is_char_boundary s i \<longleftrightarrow>
     i = 0 \<or> i = length s \<or> (i < length s \<and> \<not> is_cont (s ! i))"

text \<open>\<open>s.get(a..b)\<close>; \<open>&s[a..b]\<close> panics where this is \<open>None\<close>, that is unless \<open>a <= b <= len\<close> and both ends are character boundaries.\<close>

definition slice :: "string \<Rightarrow> nat \<Rightarrow> nat \<Rightarrow> string option" where
  "slice s a b =
     (if a \<le> b \<and> b \<le> length s \<and> is_char_boundary s a \<and> is_char_boundary s b
      then Some (take (b - a) (drop a s)) else None)"

text \<open>\<open>char::len_utf16\<close> and \<open>str::encode_utf16().count()\<close>.\<close>

definition len_utf16 :: "string \<Rightarrow> nat" where
  "len_utf16 ch = (case ch of [] \<Rightarrow> 0 | b # _ \<Rightarrow> if is_lead4 b then 2 else 1)"

definition utf16_count :: "string \<Rightarrow> nat" where
  "utf16_count s = sum_list (map len_utf16 (uchars s))"

fun char_indices_from :: "nat \<Rightarrow> string list \<Rightarrow> (nat \<times> string) list" where
  "char_indices_from off [] = []"
| "char_indices_from off (ch # chs) = (off, ch) # char_indices_from (off + length ch) chs"

definition char_indices :: "string \<Rightarrow> (nat \<times> string) list" where
  "char_indices s = char_indices_from 0 (uchars s)"

subsection \<open>Trimming\<close>

text \<open>The UTF-8 sequences of the characters with Unicode property \<open>White_Space\<close>.\<close>

definition white_space :: "string list" where
  "white_space =
     [[CHR 0x09], [CHR 0x0A], [CHR 0x0B], [CHR 0x0C], [CHR 0x0D], [CHR 0x20],
      [CHR 0xC2, CHR 0x85], [CHR 0xC2, CHR 0xA0], [CHR 0xE1, CHR 0x9A, CHR 0x80],
      [CHR 0xE2, CHR 0x80, CHR 0x80], [CHR 0xE2, CHR 0x80, CHR 0x81],
      [CHR 0xE2, CHR 0x80, CHR 0x82], [CHR 0xE2, CHR 0x80, CHR 0x83],
      [CHR 0xE2, CHR 0x80, CHR 0x84], [CHR 0xE2, CHR 0x80, CHR 0x85],
      [CHR 0xE2, CHR 0x80, CHR 0x86], [CHR 0xE2, CHR 0x80, CHR 0x87],
      [CHR 0xE2, CHR 0x80, CHR 0x88], [CHR 0xE2, CHR 0x80, CHR 0x89],
      [CHR 0xE2, CHR 0x80, CHR 0x8A], [CHR 0xE2, CHR 0x80, CHR 0xA8],
      [CHR 0xE2, CHR 0x80, CHR 0xA9], [CHR 0xE2, CHR 0x80, CHR 0xAF],
      [CHR 0xE2, CHR 0x81, CHR 0x9F], [CHR 0xE3, CHR 0x80, CHR 0x80]]"

definition is_whitespace :: "string \<Rightarrow> bool" where
  "is_whitespace ch \<longleftrightarrow> ch \<in> set white_space"

definition trim_list :: "('a \<Rightarrow> bool) \<Rightarrow> 'a list \<Rightarrow> 'a list" where
  "trim_list P xs = rev (dropWhile P (rev (dropWhile P xs)))"

definition trim :: "string \<Rightarrow> string" where
  "trim s = concat (trim_list is_whitespace (uchars s))"

subsection \<open>Searching and splitting\<close>

definition starts_with :: "string \<Rightarrow> string \<Rightarrow> bool" where
  "starts_with p s \<longleftrightarrow> take (length p) s = p"

definition ends_with :: "string \<Rightarrow> string \<Rightarrow> bool" where
  "ends_with p s \<longleftrightarrow> length p \<le> length s \<and> drop (length s - length p) s = p"

definition strip_prefix :: "string \<Rightarrow> string \<Rightarrow> string option" where
  "strip_prefix p s = (if starts_with p s then Some (drop (length p) s) else None)"

text \<open>\<open>str::find\<close> on a string pattern: the least offset where the pattern occurs.\<close>

fun find_str :: "string \<Rightarrow> string \<Rightarrow> nat option" where
  "find_str p [] = (if p = [] then Some 0 else None)"
| "find_str p (c # cs) =
     (if starts_with p (c # cs) then Some 0 else map_option Suc (find_str p cs))"

fun find_char :: "char \<Rightarrow> string \<Rightarrow> nat option" where
  "find_char x [] = None"
| "find_char x (c # cs) = (if c = x then Some 0 else map_option Suc (find_char x cs))"

definition rfind_char :: "char \<Rightarrow> string \<Rightarrow> nat option" where
  "rfind_char x s = map_option (\<lambda>i. length s - Suc i) (find_char x (rev s))"

definition split_once :: "char \<Rightarrow> string \<Rightarrow> (string \<times> string) option" where
  "split_once x s = map_option (\<lambda>i. (take i s, drop (Suc i) s)) (find_char x s)"

text \<open>\<open>str::lines\<close>: split at newlines, dropping one carriage return before each; a last
  line without a newline is kept as it is, and no empty line follows a final newline.\<close>

definition strip_cr :: "string \<Rightarrow> string" where
  "strip_cr s = (if s \<noteq> [] \<and> last s = carriage_return then butlast s else s)"

fun lines_from :: "string \<Rightarrow> string \<Rightarrow> string list" where
  "lines_from acc [] = (if acc = [] then [] else [rev acc])"
| "lines_from acc (c # cs) =
     (if c = newline then strip_cr (rev acc) # lines_from [] cs else lines_from (c # acc) cs)"

definition lines :: "string \<Rightarrow> string list" where
  "lines s = lines_from [] s"

subsection \<open>ASCII classes and case\<close>

definition is_ascii_uppercase :: "char \<Rightarrow> bool" where
  "is_ascii_uppercase c \<longleftrightarrow> 65 \<le> (of_char c :: nat) \<and> (of_char c :: nat) \<le> 90"

definition is_ascii_lowercase :: "char \<Rightarrow> bool" where
  "is_ascii_lowercase c \<longleftrightarrow> 97 \<le> (of_char c :: nat) \<and> (of_char c :: nat) \<le> 122"

definition is_ascii_digit :: "char \<Rightarrow> bool" where
  "is_ascii_digit c \<longleftrightarrow> 48 \<le> (of_char c :: nat) \<and> (of_char c :: nat) \<le> 57"

definition to_ascii_lowercase :: "char \<Rightarrow> char" where
  "to_ascii_lowercase c =
     (if is_ascii_uppercase c then char_of (of_char c + 32 :: nat) else c)"

definition to_ascii_uppercase :: "char \<Rightarrow> char" where
  "to_ascii_uppercase c =
     (if is_ascii_lowercase c then char_of (of_char c - 32 :: nat) else c)"

definition eq_ignore_ascii_case :: "string \<Rightarrow> string \<Rightarrow> bool" where
  "eq_ignore_ascii_case s t \<longleftrightarrow> map to_ascii_lowercase s = map to_ascii_lowercase t"

subsection \<open>Saturating conversions, searches in sequences\<close>

text \<open>\<open>n.try_into().unwrap_or(u32::MAX)\<close>.\<close>

definition u32_saturating :: "nat \<Rightarrow> u32" where
  "u32_saturating n = (if n < 2 ^ 32 then of_nat n else 0xFFFFFFFF)"

text \<open>\<open>slice::partition_point\<close> on a slice partitioned by the predicate.\<close>

definition partition_point :: "('a \<Rightarrow> bool) \<Rightarrow> 'a list \<Rightarrow> nat" where
  "partition_point P xs = length (takeWhile P xs)"

text \<open>\<open>Vec::get\<close>, \<open>slice::last\<close>, \<open>slice::first\<close> and \<open>Option::or_else\<close>.\<close>

definition vget :: "'a list \<Rightarrow> nat \<Rightarrow> 'a option" where
  "vget xs i = (if i < length xs then Some (xs ! i) else None)"

definition vlast :: "'a list \<Rightarrow> 'a option" where
  "vlast xs = (if xs = [] then None else Some (last xs))"

definition vfirst :: "'a list \<Rightarrow> 'a option" where
  "vfirst xs = (case xs of [] \<Rightarrow> None | x # _ \<Rightarrow> Some x)"

definition or_else :: "'a option \<Rightarrow> 'a option \<Rightarrow> 'a option" where
  "or_else a b = (case a of None \<Rightarrow> b | Some x \<Rightarrow> Some x)"

definition filter_option :: "('a \<Rightarrow> bool) \<Rightarrow> 'a option \<Rightarrow> 'a option" where
  "filter_option P a = (case a of None \<Rightarrow> None | Some x \<Rightarrow> if P x then Some x else None)"

subsection \<open>Lemmas: sequences and options\<close>

lemma vget_Some_iff [simp]: "vget xs i = Some x \<longleftrightarrow> i < length xs \<and> xs ! i = x"
  by (auto simp: vget_def)

lemma vget_None_iff [simp]: "vget xs i = None \<longleftrightarrow> length xs \<le> i"
  by (auto simp: vget_def)

lemma vlast_append [simp]: "vlast (xs @ ys) = (if ys = [] then vlast xs else Some (last ys))"
  by (simp add: vlast_def)

lemma vlast_in_set: "vlast xs = Some x \<Longrightarrow> x \<in> set xs"
  by (auto simp: vlast_def split: if_splits)

lemma vlast_None_iff [simp]: "vlast xs = None \<longleftrightarrow> xs = []"
  by (simp add: vlast_def)

lemma vfirst_in_set: "vfirst xs = Some x \<Longrightarrow> x \<in> set xs"
  by (auto simp: vfirst_def split: list.splits)

lemma vfirst_None_iff [simp]: "vfirst xs = None \<longleftrightarrow> xs = []"
  by (simp add: vfirst_def split: list.splits)

lemma or_else_simps [simp]:
  "or_else None b = b" "or_else (Some x) b = Some x" "or_else a None = a"
  by (auto simp: or_else_def split: option.splits)

lemma or_else_assoc: "or_else (or_else a b) c = or_else a (or_else b c)"
  by (cases a) simp_all

lemma or_else_Some_iff: "or_else a b = Some x \<longleftrightarrow> a = Some x \<or> (a = None \<and> b = Some x)"
  by (cases a) auto

lemma or_else_None_iff [simp]: "or_else a b = None \<longleftrightarrow> a = None \<and> b = None"
  by (cases a) auto

lemma filter_option_Some_iff [simp]: "filter_option P a = Some x \<longleftrightarrow> a = Some x \<and> P x"
  by (auto simp: filter_option_def split: option.splits)

lemma filter_option_simps [simp]:
  "filter_option P None = None" "filter_option P (Some x) = (if P x then Some x else None)"
  by (simp_all add: filter_option_def)

lemma traverse_Returns: "(\<And>x. x \<in> set xs \<Longrightarrow> f x = Returns (g x)) \<Longrightarrow> traverse f xs = Returns (map g xs)"
  by (induction xs) simp_all

lemma find_Some_in_set: "find P xs = Some x \<Longrightarrow> x \<in> set xs \<and> P x"
  by (auto simp: find_Some_iff)

lemma partition_point_le: "partition_point P xs \<le> length xs"
  by (simp add: partition_point_def length_takeWhile_le)

lemma partition_point_prefix: "i < partition_point P xs \<Longrightarrow> P (xs ! i)"
  unfolding partition_point_def
  by (metis nth_mem set_takeWhileD takeWhile_nth)

lemma partition_point_stop:
  "partition_point P xs < length xs \<Longrightarrow> \<not> P (xs ! partition_point P xs)"
  unfolding partition_point_def by (rule nth_length_takeWhile)

lemma returning_Returns [simp]: "returning (Returns v)"
  by (simp add: returning_def)

lemma returning_obind: "returning x \<Longrightarrow> (\<And>v. x = Returns v \<Longrightarrow> returning (f v)) \<Longrightarrow> returning (obind x f)"
  by (auto simp: returning_def)

lemma u32_saturating_exact: "n < 2 ^ 32 \<Longrightarrow> unat (u32_saturating n) = n"
  by (simp add: u32_saturating_def unat_of_nat)

lemma u32_saturating_bound: "unat (u32_saturating n) = min n (2 ^ 32 - 1)"
proof (cases "n < 2 ^ 32")
  case True
  then show ?thesis by (simp add: u32_saturating_exact)
next
  case False
  moreover have "unat (0xFFFFFFFF :: u32) = 2 ^ 32 - 1" by simp
  ultimately show ?thesis by (simp add: u32_saturating_def)
qed

lemma u32_saturating_unat: "u32_saturating (unat x) = x"
proof -
  have "unat x < 2 ^ LENGTH(32)" by (rule unsigned_less)
  then show ?thesis by (simp add: u32_saturating_def)
qed

subsection \<open>Lemmas: UTF-8\<close>

lemma concat_uchars [simp]: "concat (uchars s) = s"
  by (induction s rule: uchars.induct) simp_all

lemma uchars_Nil_iff [simp]: "uchars s = [] \<longleftrightarrow> s = []"
  by (cases s) simp_all

lemma uchars_nonempty: "ch \<in> set (uchars s) \<Longrightarrow> ch \<noteq> []"
  by (induction s rule: uchars.induct) auto

lemma is_ascii_not_cont: "is_ascii c \<Longrightarrow> \<not> is_cont c"
  by (simp add: is_ascii_def is_cont_def)

lemma uchars_ascii: "\<forall>c \<in> set s. is_ascii c \<Longrightarrow> uchars s = map (\<lambda>c. [c]) s"
proof (induction s rule: uchars.induct)
  case (2 b bs)
  then have "dropWhile is_cont bs = bs" and "takeWhile is_cont bs = []"
    by (cases bs; simp add: is_ascii_not_cont)+
  with 2 show ?case by simp
qed simp

lemma uchars_append: "utf8_start t \<Longrightarrow> uchars (s @ t) = uchars s @ uchars t"
proof (induction s rule: uchars.induct)
  case (2 b bs)
  show ?case
  proof (cases "\<forall>c \<in> set bs. is_cont c")
    case True
    then have "takeWhile is_cont (bs @ t) = bs" "dropWhile is_cont (bs @ t) = t"
      using 2(2) by (cases t; auto simp: utf8_start_def takeWhile_append2)+
    moreover have "takeWhile is_cont bs = bs"
      using True by (simp add: takeWhile_eq_all_conv)
    moreover have "dropWhile is_cont bs = []"
      using True by simp
    ultimately show ?thesis by (simp del: takeWhile_eq_all_conv)
  next
    case False
    then have "takeWhile is_cont (bs @ t) = takeWhile is_cont bs"
      "dropWhile is_cont (bs @ t) = dropWhile is_cont bs @ t"
      by (auto simp: takeWhile_append1)
    with 2 show ?thesis by simp
  qed
qed simp

lemma utf8_start_Nil [simp]: "utf8_start []"
  by (simp add: utf8_start_def)

lemma utf8_start_Cons [simp]: "utf8_start (b # bs) \<longleftrightarrow> \<not> is_cont b"
  by (simp add: utf8_start_def)

lemma boundary_drop_start:
  assumes "is_char_boundary s i" "utf8_start s"
  shows "utf8_start (drop i s)"
proof (cases "i < length s")
  case True
  then have "drop i s = s ! i # drop (Suc i) s" by (simp add: Cons_nth_drop_Suc)
  with assms True show ?thesis
    by (cases s) (auto simp: is_char_boundary_def)
qed simp

lemma boundary_le: "is_char_boundary s i \<Longrightarrow> i \<le> length s"
  by (auto simp: is_char_boundary_def)

lemma boundary_0 [simp]: "is_char_boundary s 0"
  by (simp add: is_char_boundary_def)

lemma boundary_length [simp]: "is_char_boundary s (length s)"
  by (simp add: is_char_boundary_def)

lemma slice_Some_iff:
  "slice s a b = Some t \<longleftrightarrow>
     a \<le> b \<and> b \<le> length s \<and> is_char_boundary s a \<and> is_char_boundary s b \<and>
     t = take (b - a) (drop a s)"
  by (auto simp: slice_def)

text \<open>Counting UTF-16 units byte by byte: continuation bytes count nothing.\<close>

definition unit_weight :: "char \<Rightarrow> nat" where
  "unit_weight c = (if is_cont c then 0 else if is_lead4 c then 2 else 1)"

lemma weight_takeWhile_cont: "sum_list (map unit_weight (takeWhile is_cont s)) = 0"
  by (induction s) (auto simp: unit_weight_def)

lemma weight_split_cont:
  "sum_list (map unit_weight (takeWhile is_cont s)) + sum_list (map unit_weight (dropWhile is_cont s))
   = sum_list (map unit_weight s)"
  by (metis map_append sum_list.append takeWhile_dropWhile_id)

lemma utf8_start_dropWhile [simp]: "utf8_start (dropWhile is_cont s)"
  by (induction s) simp_all

lemma utf16_count_weight:
  "utf8_start s \<Longrightarrow> utf16_count s = sum_list (map unit_weight s)"
proof (induction s rule: uchars.induct)
  case (2 b bs)
  have "utf16_count (b # bs) = (if is_lead4 b then 2 else 1) + utf16_count (dropWhile is_cont bs)"
    by (simp add: utf16_count_def len_utf16_def)
  also have "utf16_count (dropWhile is_cont bs) = sum_list (map unit_weight (dropWhile is_cont bs))"
    by (rule 2) simp
  also have "\<dots> = sum_list (map unit_weight bs)"
    using weight_split_cont [of bs] weight_takeWhile_cont [of bs] by simp
  finally show ?case using 2(2) by (simp add: unit_weight_def [of b])
qed (simp add: utf16_count_def)

lemma utf16_count_le: "utf16_count s \<le> 2 * length s"
proof (induction s rule: uchars.induct)
  case (2 b bs)
  have "length (dropWhile is_cont bs) \<le> length bs"
    by (rule length_dropWhile_le)
  with 2 show ?case
    by (simp add: utf16_count_def len_utf16_def)
qed (simp add: utf16_count_def)

text \<open>A split of the characters is a split of the bytes at a boundary.\<close>

lemma utf8_start_append: "utf8_start (s @ t) \<longleftrightarrow> utf8_start s \<and> (s = [] \<longrightarrow> utf8_start t)"
  by (cases s) simp_all

lemma uchars_split_point:
  assumes "uchars s = us @ vs" "utf8_start s"
  shows "utf8_start (concat vs) \<and> uchars (concat us) = us"
  using assms
proof (induction us arbitrary: s)
  case Nil
  then show ?case by (metis append_Nil concat.simps(1) concat_uchars uchars.simps(1))
next
  case (Cons u us)
  then obtain b bs where s: "s = b # bs" by (cases s) auto
  let ?r = "dropWhile is_cont bs"
  have u: "u = b # takeWhile is_cont bs" and rest: "uchars ?r = us @ vs"
    using Cons.prems s by auto
  have IH: "utf8_start (concat vs) \<and> uchars (concat us) = us"
    by (rule Cons.IH [OF rest]) simp
  have "?r = concat us @ concat vs"
    using rest by (metis concat_append concat_uchars)
  then have "utf8_start (concat us)"
    using utf8_start_dropWhile [of bs] by (simp add: utf8_start_append)
  then have "uchars (u @ concat us) = uchars u @ us"
    using IH by (simp add: uchars_append)
  moreover have "uchars u = [u]"
    unfolding u by (simp add: dropWhile_eq_Nil_conv) (meson set_takeWhileD)
  ultimately show ?case using IH by simp
qed

lemma boundary_of_start:
  assumes "b \<le> length s" "utf8_start (drop b s)"
  shows "is_char_boundary s b"
proof (cases "b < length s")
  case True
  then have "drop b s = s ! b # drop (Suc b) s" by (simp add: Cons_nth_drop_Suc)
  with assms True show ?thesis by (simp add: is_char_boundary_def)
qed (use assms in \<open>simp add: is_char_boundary_def\<close>)

subsection \<open>Lemmas: ASCII\<close>

definition ident_char :: "char \<Rightarrow> bool" where
  "ident_char c \<longleftrightarrow>
     is_ascii_uppercase c \<or> is_ascii_lowercase c \<or> is_ascii_digit c \<or> c = CHR ''_''"

definition is_ident :: "string \<Rightarrow> bool" where
  "is_ident n \<longleftrightarrow> n \<noteq> [] \<and> list_all ident_char n"

lemma ascii_of_code: "(of_char c :: nat) < 128 \<Longrightarrow> is_ascii c"
proof -
  assume "(of_char c :: nat) < 128"
  then have "\<not> bit (of_char c :: nat) 7" by (simp add: bit_iff_odd)
  moreover have "digit7 (char_of (of_char c :: nat)) = bit (of_char c :: nat) 7"
    by (simp only: char_of_def char.sel)
  ultimately show "is_ascii c" by (simp add: is_ascii_def)
qed

lemma ident_char_ascii: "ident_char c \<Longrightarrow> is_ascii c"
  by (rule ascii_of_code)
    (auto simp: ident_char_def is_ascii_uppercase_def is_ascii_lowercase_def is_ascii_digit_def)

lemma ident_char_not_space: "ident_char c \<Longrightarrow> \<not> is_whitespace [c]"
  by (auto simp: is_whitespace_def white_space_def ident_char_def is_ascii_uppercase_def
      is_ascii_lowercase_def is_ascii_digit_def)

lemma ident_char_not_bracket:
  "ident_char c \<Longrightarrow> c \<noteq> CHR ''<'' \<and> c \<noteq> CHR ''>'' \<and> c \<noteq> CHR '',''"
  by (auto simp: ident_char_def is_ascii_uppercase_def is_ascii_lowercase_def is_ascii_digit_def)

lemma trim_list_id:
  "xs \<noteq> [] \<Longrightarrow> \<not> P (hd xs) \<Longrightarrow> \<not> P (last xs) \<Longrightarrow> trim_list P xs = xs"
proof -
  assume a: "xs \<noteq> []" "\<not> P (hd xs)" "\<not> P (last xs)"
  have "dropWhile P ys = ys" if "ys \<noteq> []" "\<not> P (hd ys)" for ys
    using that by (cases ys) simp_all
  with a show "trim_list P xs = xs" by (simp add: trim_list_def hd_rev)
qed

lemma concat_singletons [simp]: "concat (map (\<lambda>c. [c]) s) = s"
  by (induction s) simp_all

lemma trim_ascii_ends:
  assumes "\<forall>c \<in> set s. is_ascii c" "s \<noteq> []" "\<not> is_whitespace [hd s]" "\<not> is_whitespace [last s]"
  shows "trim s = s"
  using assms by (simp add: trim_def uchars_ascii trim_list_id hd_map last_map)

lemma trim_Nil [simp]: "trim [] = []"
  by (simp add: trim_def trim_list_def)

lemma trim_leading_space: "utf8_start s \<Longrightarrow> trim (CHR '' '' # s) = trim s"
proof -
  assume "utf8_start s"
  then have "uchars ([CHR '' ''] @ s) = uchars [CHR '' ''] @ uchars s"
    by (rule uchars_append)
  then show ?thesis
    by (simp add: trim_def trim_list_def is_whitespace_def white_space_def)
qed

end
