(* ===== verification/Hash_Buckets.thy ===== *)
theory Hash_Buckets
  imports Rust_Prelude
begin

text \<open>
  Hash maps and multi-maps.  A \<open>HashMap\<close> is an association list whose order stands for the
  (unspecified) iteration order of the map; every theorem of the development about an
  iteration speaks of the elements, not of their order.  The indexes of the program are
  multi-maps \<open>HashMap<K, Vec<V>>\<close> and \<open>HashMap<K1, HashMap<K2, Vec<V>>>\<close>, written by
  \<open>entry(k).or_default().push(v)\<close> and by the pruning removal of
  \<^verbatim>\<open>resolve/workspace_index/indices.rs\<close>.  The locale \<open>bucket_store\<close> states what the
  indexes rely on; it is interpreted on the flat and on the nested multi-map.
\<close>

type_synonym ('k, 'v) hmap = "('k \<times> 'v) list"
type_synonym ('k, 'v) buckets = "('k, 'v list) hmap"
type_synonym ('a, 'b, 'v) nested_buckets = "('a, ('b, 'v) buckets) hmap"

named_theorems bucket_simps

subsection \<open>Operations\<close>

abbreviation hget :: "('k, 'v) hmap \<Rightarrow> 'k \<Rightarrow> 'v option" where
  "hget m k \<equiv> map_of m k"

abbreviation hput :: "'k \<Rightarrow> 'v \<Rightarrow> ('k, 'v) hmap \<Rightarrow> ('k, 'v) hmap" where
  "hput k v m \<equiv> AList.update k v m"

abbreviation hdel :: "'k \<Rightarrow> ('k, 'v) hmap \<Rightarrow> ('k, 'v) hmap" where
  "hdel k m \<equiv> AList.delete k m"

abbreviation hkeys :: "('k, 'v) hmap \<Rightarrow> 'k list" where
  "hkeys m \<equiv> map fst m"

abbreviation hvalues :: "('k, 'v) hmap \<Rightarrow> 'v list" where
  "hvalues m \<equiv> map snd m"

text \<open>\<open>map.get(k)\<close> of a multi-map, an absent bucket read as the empty one.\<close>

definition bucket :: "('k, 'v) buckets \<Rightarrow> 'k \<Rightarrow> 'v list" where
  "bucket m k = (case hget m k of None \<Rightarrow> [] | Some vs \<Rightarrow> vs)"

definition nested_bucket :: "('a, 'b, 'v) nested_buckets \<Rightarrow> 'a \<times> 'b \<Rightarrow> 'v list" where
  "nested_bucket m k = (case hget m (fst k) of None \<Rightarrow> [] | Some inner \<Rightarrow> bucket inner (snd k))"

text \<open>\<open>map.entry(k).or_default().push(v)\<close>, flat and nested.\<close>

definition entry_push :: "'k \<Rightarrow> 'v \<Rightarrow> ('k, 'v) buckets \<Rightarrow> ('k, 'v) buckets" where
  "entry_push k v m = hput k (bucket m k @ [v]) m"

definition nested_push :: "'a \<times> 'b \<Rightarrow> 'v \<Rightarrow> ('a, 'b, 'v) nested_buckets \<Rightarrow> ('a, 'b, 'v) nested_buckets" where
  "nested_push k v m =
     hput (fst k)
       (entry_push (snd k) v (case hget m (fst k) of None \<Rightarrow> [] | Some inner \<Rightarrow> inner)) m"

definition retain_and_prune :: "('v \<Rightarrow> bool) \<Rightarrow> 'k \<Rightarrow> ('k, 'v) buckets \<Rightarrow> ('k, 'v) buckets" where
  "retain_and_prune keep k m =
     (case hget m k of
        None \<Rightarrow> m
      | Some entries \<Rightarrow>
          (let entries' = filter keep entries
           in if entries' = [] then hdel k m else hput k entries' m))"

definition retain_and_prune_nested ::
  "('v \<Rightarrow> bool) \<Rightarrow> 'a \<times> 'b \<Rightarrow> ('a, 'b, 'v) nested_buckets \<Rightarrow> ('a, 'b, 'v) nested_buckets" where
  "retain_and_prune_nested keep k m =
     (case hget m (fst k) of
        None \<Rightarrow> m
      | Some inner \<Rightarrow>
          (let inner' = retain_and_prune keep (snd k) inner
           in if inner' = [] then hdel (fst k) m else hput (fst k) inner' m))"

text \<open>Representation invariants: one entry per key and no empty bucket left behind.\<close>

definition buckets_ok :: "('k, 'v) buckets \<Rightarrow> bool" where
  "buckets_ok m \<longleftrightarrow> distinct (hkeys m) \<and> (\<forall>vs \<in> set (hvalues m). vs \<noteq> [])"

definition nested_ok :: "('a, 'b, 'v) nested_buckets \<Rightarrow> bool" where
  "nested_ok m \<longleftrightarrow>
     distinct (hkeys m) \<and> (\<forall>inner \<in> set (hvalues m). inner \<noteq> [] \<and> buckets_ok inner)"

text \<open>What a list of keyed contributions holds for one key, in order.\<close>

definition contrib :: "('k \<times> 'v) list \<Rightarrow> 'k \<Rightarrow> 'v list" where
  "contrib cs k = map snd (filter (\<lambda>c. fst c = k) cs)"

subsection \<open>Loops seen through one component of the state\<close>

lemma fold_project:
  assumes "\<And>x m. f (step x m) = fold g (con x) (f m)"
  shows "f (fold step xs m) = fold g (concat (map con xs)) (f m)"
  by (induction xs arbitrary: m) (simp_all add: assms)

lemma fold_frame:
  assumes "\<And>x m. f (step x m) = f m"
  shows "f (fold step xs m) = f m"
  by (induction xs arbitrary: m) (simp_all add: assms)

lemma contrib_append [simp]: "contrib (cs @ ds) k = contrib cs k @ contrib ds k"
  by (simp add: contrib_def)

lemma contrib_Nil [simp]: "contrib [] k = []"
  by (simp add: contrib_def)

lemma contrib_singleton_map:
  "contrib (concat (map (\<lambda>x. if P x then [(key x, val x)] else []) xs)) k =
     map val (filter (\<lambda>x. P x \<and> key x = k) xs)"
  by (induction xs) (auto simp: contrib_def)

subsection \<open>Hash map laws\<close>

lemma hget_hput [simp]: "hget (hput k v m) k' = (if k' = k then Some v else hget m k')"
  by (simp add: update_conv')

lemma hget_hdel [simp]: "hget (hdel k m) k' = (if k' = k then None else hget m k')"
  by (simp add: delete_conv')

lemma set_hvalues_hput: "set (hvalues (hput k v m)) \<subseteq> insert v (set (hvalues m))"
  by (induction m) auto

lemma set_hvalues_hdel: "set (hvalues (hdel k m)) \<subseteq> set (hvalues m)"
  using delete_notin_dom by (induction m) auto

lemma hput_nonempty [simp]: "hput k v m \<noteq> []"
  by (cases m) auto

lemma hget_in_values: "hget m k = Some v \<Longrightarrow> v \<in> set (hvalues m)"
  by (induction m) (auto split: if_splits)

lemma hvalues_iff_hget:
  "distinct (hkeys m) \<Longrightarrow> v \<in> set (hvalues m) \<longleftrightarrow> (\<exists>k. hget m k = Some v)"
  by (force simp: map_of_eq_Some_iff)

lemma hkeys_iff_hget: "k \<in> set (hkeys m) \<longleftrightarrow> hget m k \<noteq> None"
  by (induction m) auto

subsection \<open>The multi-map interface\<close>

locale bucket_store =
  fixes view :: "'m \<Rightarrow> 'k \<Rightarrow> 'v list"
    and push :: "'k \<Rightarrow> 'v \<Rightarrow> 'm \<Rightarrow> 'm"
    and retain :: "('v \<Rightarrow> bool) \<Rightarrow> 'k \<Rightarrow> 'm \<Rightarrow> 'm"
    and ok :: "'m \<Rightarrow> bool"
  assumes view_push: "view (push k v m) k' = (if k' = k then view m k @ [v] else view m k')"
    and view_retain: "view (retain P k m) k' = (if k' = k then filter P (view m k) else view m k')"
    and ok_push: "ok m \<Longrightarrow> ok (push k v m)"
    and ok_retain: "ok m \<Longrightarrow> ok (retain P k m)"
begin

lemma view_push_all:
  "view (fold (\<lambda>c. push (fst c) (snd c)) cs m) k = view m k @ contrib cs k"
  by (induction cs arbitrary: m) (auto simp: view_push contrib_def)

lemma view_retain_all:
  "view (fold (\<lambda>r. retain (snd r) (fst r)) rs m) k =
     filter (\<lambda>v. \<forall>r \<in> set rs. fst r = k \<longrightarrow> snd r v) (view m k)"
proof (induction rs arbitrary: m)
  case (Cons r rs)
  then show ?case
    by (auto simp: view_retain intro!: filter_cong)
qed simp

lemma ok_push_all: "ok m \<Longrightarrow> ok (fold (\<lambda>c. push (fst c) (snd c)) cs m)"
  by (induction cs arbitrary: m) (auto simp: ok_push)

lemma ok_retain_all: "ok m \<Longrightarrow> ok (fold (\<lambda>r. retain (snd r) (fst r)) rs m)"
  by (induction rs arbitrary: m) (auto simp: ok_retain)

end

text \<open>
  A multi-map whose entries belong to owners (the documents of the index).  It reflects
  \<open>C\<close> when the entries of every owner \<open>u\<close> under every key are exactly \<open>u\<close>'s contributions.
\<close>

locale owned_store = bucket_store view push retain ok
  for view :: "'m \<Rightarrow> 'k \<Rightarrow> 'v list"
    and push :: "'k \<Rightarrow> 'v \<Rightarrow> 'm \<Rightarrow> 'm"
    and retain :: "('v \<Rightarrow> bool) \<Rightarrow> 'k \<Rightarrow> 'm \<Rightarrow> 'm"
    and ok :: "'m \<Rightarrow> bool" +
  fixes owner :: "'v \<Rightarrow> 'o"
begin

definition reflects :: "'m \<Rightarrow> ('o \<Rightarrow> ('k \<times> 'v) list) \<Rightarrow> bool" where
  "reflects m C \<longleftrightarrow> (\<forall>u k. filter (\<lambda>v. owner v = u) (view m k) = contrib (C u) k)"

lemma reflects_member:
  assumes "reflects m C"
  shows "v \<in> set (view m k) \<longleftrightarrow> (k, v) \<in> set (C (owner v))"
proof -
  have "v \<in> set (view m k) \<longleftrightarrow> v \<in> set (filter (\<lambda>w. owner w = owner v) (view m k))"
    by simp
  also have "\<dots> \<longleftrightarrow> v \<in> set (contrib (C (owner v)) k)"
    using assms by (simp add: reflects_def)
  also have "\<dots> \<longleftrightarrow> (k, v) \<in> set (C (owner v))"
    by (auto simp: contrib_def) force
  finally show ?thesis .
qed

lemma retain_covering_view:
  assumes refl: "reflects m C"
    and covers: "\<And>k v. (k, v) \<in> set (C u) \<Longrightarrow> \<exists>r \<in> set rs. fst r = k \<and> \<not> snd r v"
    and keeps: "\<And>r v. r \<in> set rs \<Longrightarrow> owner v \<noteq> u \<Longrightarrow> snd r v"
  shows "view (fold (\<lambda>r. retain (snd r) (fst r)) rs m) k = filter (\<lambda>v. owner v \<noteq> u) (view m k)"
  unfolding view_retain_all
proof (rule filter_cong)
  fix v assume "v \<in> set (view m k)"
  then have "(k, v) \<in> set (C (owner v))"
    by (simp add: reflects_member [OF refl])
  then show "(\<forall>r \<in> set rs. fst r = k \<longrightarrow> snd r v) \<longleftrightarrow> owner v \<noteq> u"
    using covers keeps by blast
qed simp

lemma reflects_replace:
  assumes refl: "reflects m C"
    and covers: "\<And>k v. (k, v) \<in> set (C u) \<Longrightarrow> \<exists>r \<in> set rs. fst r = k \<and> \<not> snd r v"
    and keeps: "\<And>r v. r \<in> set rs \<Longrightarrow> owner v \<noteq> u \<Longrightarrow> snd r v"
    and owned: "\<And>c. c \<in> set cs \<Longrightarrow> owner (snd c) = u"
  shows "reflects
     (fold (\<lambda>c. push (fst c) (snd c)) cs (fold (\<lambda>r. retain (snd r) (fst r)) rs m)) (C(u := cs))"
  unfolding reflects_def
proof (intro allI)
  fix w k
  have own: "\<forall>v \<in> set (contrib cs k). owner v = u"
    using owned by (auto simp: contrib_def)
  have "filter (\<lambda>v. owner v = w)
      (view (fold (\<lambda>c. push (fst c) (snd c)) cs (fold (\<lambda>r. retain (snd r) (fst r)) rs m)) k)
      = filter (\<lambda>v. owner v = w) (filter (\<lambda>v. owner v \<noteq> u) (view m k))
        @ filter (\<lambda>v. owner v = w) (contrib cs k)"
    by (simp add: view_push_all retain_covering_view [OF refl covers keeps])
  also have "\<dots> = contrib ((C(u := cs)) w) k"
  proof (cases "w = u")
    case True
    with own show ?thesis by (auto simp: filter_empty_conv filter_id_conv)
  next
    case False
    have "filter (\<lambda>v. owner v = w) (filter (\<lambda>v. owner v \<noteq> u) (view m k))
        = filter (\<lambda>v. owner v = w) (view m k)"
      using False by (auto intro: filter_cong)
    with False own refl show ?thesis by (auto simp: reflects_def filter_empty_conv)
  qed
  finally show "filter (\<lambda>v. owner v = w)
      (view (fold (\<lambda>c. push (fst c) (snd c)) cs (fold (\<lambda>r. retain (snd r) (fst r)) rs m)) k)
      = contrib ((C(u := cs)) w) k" .
qed

text \<open>The same for contributions and removals computed item by item, as the update loops do.\<close>

lemma reflects_update:
  assumes refl: "reflects m (\<lambda>w. concat (map (con w) (docs w)))"
    and covers: "\<And>x k v. x \<in> set (docs u) \<Longrightarrow> (k, v) \<in> set (con u x) \<Longrightarrow>
      \<exists>r \<in> set (rem u x). fst r = k \<and> \<not> snd r v"
    and keeps: "\<And>x r v. r \<in> set (rem u x) \<Longrightarrow> owner v \<noteq> u \<Longrightarrow> snd r v"
    and owned: "\<And>x c. c \<in> set (con u x) \<Longrightarrow> owner (snd c) = u"
  shows "reflects
     (fold (\<lambda>c. push (fst c) (snd c)) (concat (map (con u) new))
       (fold (\<lambda>r. retain (snd r) (fst r)) (concat (map (rem u) (docs u))) m))
     (\<lambda>w. concat (map (con w) ((docs(u := new)) w)))"
proof -
  have "(\<lambda>w. concat (map (con w) ((docs(u := new)) w))) =
      (\<lambda>w. concat (map (con w) (docs w)))(u := concat (map (con u) new))"
    by auto
  moreover have "reflects
     (fold (\<lambda>c. push (fst c) (snd c)) (concat (map (con u) new))
       (fold (\<lambda>r. retain (snd r) (fst r)) (concat (map (rem u) (docs u))) m))
     ((\<lambda>w. concat (map (con w) (docs w)))(u := concat (map (con u) new)))"
  proof (rule reflects_replace [OF refl])
    fix k v assume "(k, v) \<in> set (concat (map (con u) (docs u)))"
    then obtain x where x: "x \<in> set (docs u)" "(k, v) \<in> set (con u x)" by auto
    from covers [OF this] x(1)
    show "\<exists>r \<in> set (concat (map (rem u) (docs u))). fst r = k \<and> \<not> snd r v" by auto
  next
    fix r v assume "r \<in> set (concat (map (rem u) (docs u)))" "owner v \<noteq> u"
    then obtain x where "r \<in> set (rem u x)" by auto
    then show "snd r v" using \<open>owner v \<noteq> u\<close> by (rule keeps)
  next
    fix c assume "c \<in> set (concat (map (con u) new))"
    then obtain x where "c \<in> set (con u x)" by auto
    then show "owner (snd c) = u" by (rule owned)
  qed
  ultimately show ?thesis by simp
qed

text \<open>The newest contribution for a key is the last entry of its bucket.\<close>

lemma last_after_replace:
  assumes "contrib cs k \<noteq> []"
  shows "vlast (view (fold (\<lambda>c. push (fst c) (snd c)) cs m) k) = Some (last (contrib cs k))"
  using assms by (simp add: view_push_all)

end

subsection \<open>The flat and the nested multi-map provide it\<close>

lemma bucket_entry_push:
  "bucket (entry_push k v m) k' = (if k' = k then bucket m k @ [v] else bucket m k')"
  by (simp add: bucket_def entry_push_def)

lemma bucket_retain_and_prune:
  "bucket (retain_and_prune P k m) k' = (if k' = k then filter P (bucket m k) else bucket m k')"
  by (auto simp: bucket_def retain_and_prune_def Let_def split: option.splits)

lemma buckets_ok_hput: "buckets_ok m \<Longrightarrow> vs \<noteq> [] \<Longrightarrow> buckets_ok (hput k vs m)"
  unfolding buckets_ok_def
  using set_hvalues_hput [of k vs m] by (auto simp: distinct_update simp del: set_map)

lemma buckets_ok_hdel: "buckets_ok m \<Longrightarrow> buckets_ok (hdel k m)"
  unfolding buckets_ok_def
  using set_hvalues_hdel [of k m] by (auto simp: distinct_delete simp del: set_map)

lemma buckets_ok_entry_push: "buckets_ok m \<Longrightarrow> buckets_ok (entry_push k v m)"
  by (simp add: entry_push_def buckets_ok_hput)

lemma buckets_ok_retain: "buckets_ok m \<Longrightarrow> buckets_ok (retain_and_prune P k m)"
  by (auto simp: retain_and_prune_def Let_def buckets_ok_hput buckets_ok_hdel split: option.splits)

interpretation flat: bucket_store bucket entry_push retain_and_prune buckets_ok
  by unfold_locales
    (simp_all add: bucket_entry_push bucket_retain_and_prune buckets_ok_entry_push buckets_ok_retain)

lemma bucket_Nil [simp]: "bucket [] k = []"
  by (simp add: bucket_def)

lemma nested_bucket_push:
  "nested_bucket (nested_push k v m) k' = (if k' = k then nested_bucket m k @ [v] else nested_bucket m k')"
  by (cases k; cases k')
    (auto simp: nested_bucket_def nested_push_def bucket_entry_push split: option.splits)

lemma nested_bucket_retain:
  "nested_bucket (retain_and_prune_nested P k m) k' =
     (if k' = k then filter P (nested_bucket m k) else nested_bucket m k')"
proof (cases "hget m (fst k)")
  case None
  then show ?thesis
    by (auto simp: nested_bucket_def retain_and_prune_nested_def)
next
  case (Some inner)
  have "retain_and_prune P (snd k) inner = [] \<Longrightarrow>
      filter P (bucket inner (snd k)) = [] \<and> (b \<noteq> snd k \<longrightarrow> bucket inner b = [])" for b
    using bucket_retain_and_prune [of P "snd k" inner b]
      bucket_retain_and_prune [of P "snd k" inner "snd k"] by (auto split: if_splits)
  with Some show ?thesis
    by (cases k; cases k')
      (auto simp: nested_bucket_def retain_and_prune_nested_def Let_def bucket_retain_and_prune)
qed

lemma nested_ok_hput:
  "nested_ok m \<Longrightarrow> inner \<noteq> [] \<Longrightarrow> buckets_ok inner \<Longrightarrow> nested_ok (hput a inner m)"
  unfolding nested_ok_def
  using set_hvalues_hput [of a inner m] by (auto simp: distinct_update simp del: set_map)

lemma nested_ok_hdel: "nested_ok m \<Longrightarrow> nested_ok (hdel a m)"
  unfolding nested_ok_def
  using set_hvalues_hdel [of a m] by (auto simp: distinct_delete simp del: set_map)

lemma nested_ok_inner: "nested_ok m \<Longrightarrow> hget m a = Some inner \<Longrightarrow> buckets_ok inner"
  unfolding nested_ok_def using hget_in_values by fastforce

lemma buckets_ok_Nil [simp]: "buckets_ok []"
  by (simp add: buckets_ok_def)

lemma nested_ok_Nil [simp]: "nested_ok []"
  by (simp add: nested_ok_def)

lemma nested_ok_push: "nested_ok m \<Longrightarrow> nested_ok (nested_push k v m)"
  unfolding nested_push_def
  by (rule nested_ok_hput)
    (auto simp: entry_push_def buckets_ok_hput nested_ok_inner simp del: AList.update.simps
      split: option.splits)

lemma nested_ok_retain: "nested_ok m \<Longrightarrow> nested_ok (retain_and_prune_nested P k m)"
  by (auto simp: retain_and_prune_nested_def Let_def nested_ok_hput nested_ok_hdel
      buckets_ok_retain nested_ok_inner split: option.splits)

interpretation nested: bucket_store nested_bucket nested_push retain_and_prune_nested nested_ok
  by unfold_locales
    (simp_all add: nested_bucket_push nested_bucket_retain nested_ok_push nested_ok_retain)

lemma nested_bucket_Nil [simp]: "nested_bucket [] k = []"
  by (simp add: nested_bucket_def)

end
