(* ===== verification/Line_Index.thy ===== *)
theory Line_Index
  imports Rust_Prelude
begin

text \<open>
  \<^verbatim>\<open>src/line_index.rs\<close> and the incremental edit of \<^verbatim>\<open>src/document.rs\<close>: the map
  between byte offsets and LSP positions (line, UTF-16 column), and \<open>apply_content_change\<close>,
  which turns one LSP content change into the new text and the tree-sitter \<open>InputEdit\<close>.
\<close>

subsection \<open>Data\<close>

record source_position =
  pos_line :: u32
  pos_character :: u32

record source_range =
  range_start :: source_position
  range_end :: source_position

record line_index =
  line_starts :: "nat list"

record point =
  row :: nat
  column :: nat

record input_edit =
  start_byte :: nat
  old_end_byte :: nat
  new_end_byte :: nat
  start_position :: point
  old_end_position :: point
  new_end_position :: point

subsection \<open>Operations of the line index\<close>

definition SourcePosition_new :: "nat \<Rightarrow> nat \<Rightarrow> source_position" where
  "SourcePosition_new l c = \<lparr>pos_line = u32_saturating l, pos_character = u32_saturating c\<rparr>"

fun newline_starts :: "nat \<Rightarrow> string \<Rightarrow> nat list" where
  "newline_starts index [] = []"
| "newline_starts index (b # bs) =
     (if b = newline then Suc index # newline_starts (Suc index) bs
      else newline_starts (Suc index) bs)"

definition LineIndex_new :: "string \<Rightarrow> line_index" where
  "LineIndex_new source = \<lparr>line_starts = 0 # newline_starts 0 source\<rparr>"

definition point_to_position :: "point \<Rightarrow> source_position" where
  "point_to_position p = SourcePosition_new (row p) (column p)"

definition byte_to_position :: "line_index \<Rightarrow> string \<Rightarrow> nat \<Rightarrow> source_position outcome" where
  "byte_to_position li source byte =
     (let k = partition_point (\<lambda>line_start. line_start \<le> byte) (line_starts li) - 1
      in obind (or_panic (vget (line_starts li) k)) (\<lambda>line_start.
         obind (or_panic (slice source line_start byte)) (\<lambda>t.
         Returns (SourcePosition_new k (utf16_count t)))))"

fun position_scan :: "nat \<Rightarrow> nat \<Rightarrow> nat \<Rightarrow> nat \<Rightarrow> (nat \<times> string) list \<Rightarrow> nat option" where
  "position_scan line_start line_end target_units utf16_units [] =
     (if utf16_units = target_units then Some line_end else None)"
| "position_scan line_start line_end target_units utf16_units ((off, ch) # rest) =
     (if utf16_units = target_units then Some (line_start + off)
      else if utf16_units + len_utf16 ch > target_units then None
      else position_scan line_start line_end target_units (utf16_units + len_utf16 ch) rest)"

definition line_end_of :: "line_index \<Rightarrow> string \<Rightarrow> nat \<Rightarrow> nat" where
  "line_end_of li source k =
     (case vget (line_starts li) (k + 1) of None \<Rightarrow> length source | Some e \<Rightarrow> e)"

definition position_to_byte :: "line_index \<Rightarrow> string \<Rightarrow> source_position \<Rightarrow> nat option" where
  "position_to_byte li source position =
     (case vget (line_starts li) (unat (pos_line position)) of
        None \<Rightarrow> None
      | Some line_start \<Rightarrow>
          (let line_end = line_end_of li source (unat (pos_line position))
           in case slice source line_start line_end of
                None \<Rightarrow> None
              | Some line \<Rightarrow>
                  position_scan line_start line_end (unat (pos_character position)) 0
                    (char_indices line)))"

definition point_range_to_range :: "point \<Rightarrow> point \<Rightarrow> source_range" where
  "point_range_to_range s e =
     \<lparr>range_start = point_to_position s, range_end = point_to_position e\<rparr>"

definition byte_range_to_range :: "line_index \<Rightarrow> string \<Rightarrow> nat \<Rightarrow> nat \<Rightarrow> source_range outcome" where
  "byte_range_to_range li source sb eb =
     obind (byte_to_position li source sb) (\<lambda>s.
     obind (byte_to_position li source eb) (\<lambda>e.
     Returns \<lparr>range_start = s, range_end = e\<rparr>))"

subsection \<open>Incremental edits\<close>

definition byte_point :: "line_index \<Rightarrow> nat \<Rightarrow> point outcome" where
  "byte_point li byte =
     (let r = partition_point (\<lambda>line_start. line_start \<le> byte) (line_starts li) - 1
      in obind (or_panic (vget (line_starts li) r)) (\<lambda>ls.
         if ls \<le> byte then Returns \<lparr>row = r, column = byte - ls\<rparr> else Panic))"

definition byte_point_in :: "string \<Rightarrow> nat \<Rightarrow> point outcome" where
  "byte_point_in source byte =
     obind (or_panic (slice source 0 byte)) (\<lambda>prefix.
       (let line_start = (case rfind_char newline prefix of None \<Rightarrow> 0 | Some i \<Rightarrow> i + 1)
        in Returns \<lparr>row = length (filter (\<lambda>b. b = newline) prefix), column = byte - line_start\<rparr>))"

definition apply_content_change ::
  "string \<Rightarrow> line_index \<Rightarrow> source_range option \<Rightarrow> string \<Rightarrow> (string \<times> input_edit option) option outcome" where
  "apply_content_change source li rng new_text =
     (case rng of
        None \<Rightarrow> Returns (Some (new_text, None))
      | Some r \<Rightarrow>
          (case (position_to_byte li source (range_start r), position_to_byte li source (range_end r)) of
             (Some s, Some e) \<Rightarrow>
               (if s > e then Returns None
                else
                  obind (or_panic (slice source 0 s)) (\<lambda>before.
                  obind (or_panic (slice source e (length source))) (\<lambda>after.
                    (let result = before @ new_text @ after; new_end = s + length new_text
                     in obind (byte_point li s) (\<lambda>sp.
                        obind (byte_point li e) (\<lambda>ep.
                        obind (byte_point_in result new_end) (\<lambda>np.
                        Returns (Some (result, Some
                          \<lparr>start_byte = s, old_end_byte = e, new_end_byte = new_end,
                           start_position = sp, old_end_position = ep,
                           new_end_position = np\<rparr>)))))))))
           | _ \<Rightarrow> Returns None))"

subsection \<open>Line starts\<close>

lemma set_newline_starts:
  "set (newline_starts n s) = {Suc (n + i) | i. i < length s \<and> s ! i = newline}"
proof (induction n s rule: newline_starts.induct)
  case (2 n b bs)
  have "{Suc (n + i) | i. i < length (b # bs) \<and> (b # bs) ! i = newline} =
      (if b = newline then {Suc n} else {}) \<union>
      {Suc (Suc n + i) | i. i < length bs \<and> bs ! i = newline}" (is "?L = ?R")
  proof
    show "?L \<subseteq> ?R"
    proof
      fix x assume "x \<in> ?L"
      then obtain i where "x = Suc (n + i)" "i < length (b # bs)" "(b # bs) ! i = newline"
        by blast
      then show "x \<in> ?R" by (cases i) auto
    qed
    show "?R \<subseteq> ?L"
      by (auto intro: exI [of _ 0] exI [of _ "Suc _"] split: if_splits)
  qed
  with 2 show ?case by simp
qed simp

lemma newline_starts_gt: "x \<in> set (newline_starts n s) \<Longrightarrow> n < x"
  by (auto simp: set_newline_starts)

lemma sorted_newline_starts: "sorted_wrt (<) (newline_starts n s)"
  by (induction n s rule: newline_starts.induct) (auto dest: newline_starts_gt)

lemma sorted_line_starts: "sorted_wrt (<) (line_starts (LineIndex_new s))"
  using newline_starts_gt by (auto simp: LineIndex_new_def sorted_newline_starts)

lemma length_newline_starts:
  "length (newline_starts n s) = length (filter (\<lambda>b. b = newline) s)"
  by (induction n s rule: newline_starts.induct) simp_all

lemma line_starts_iff:
  "x \<in> set (line_starts (LineIndex_new s)) \<longleftrightarrow>
     x = 0 \<or> (\<exists>i. x = Suc i \<and> i < length s \<and> s ! i = newline)"
  by (auto simp: LineIndex_new_def set_newline_starts)

lemma line_start_le: "x \<in> set (line_starts (LineIndex_new s)) \<Longrightarrow> x \<le> length s"
  by (auto simp: line_starts_iff)

lemma newline_ascii: "is_ascii newline"
  by (simp add: is_ascii_def)

lemma utf8_wf_not_cont_after:
  assumes "utf8_wf s" "Suc i < length s" "is_ascii (s ! i)"
  shows "\<not> is_cont (s ! Suc i)"
  using assms by (auto simp: utf8_wf_def successively_conv_nth)

lemma line_start_boundary:
  assumes "utf8_wf s" "x \<in> set (line_starts (LineIndex_new s))"
  shows "is_char_boundary s x"
proof -
  from assms(2) consider "x = 0" | i where "x = Suc i" "i < length s" "s ! i = newline"
    by (auto simp: line_starts_iff)
  then show ?thesis
  proof cases
    case 2
    then have "Suc i < length s \<Longrightarrow> \<not> is_cont (s ! Suc i)"
      using utf8_wf_not_cont_after [OF assms(1)] newline_ascii by simp
    with 2 show ?thesis by (auto simp: is_char_boundary_def)
  qed simp
qed

text \<open>The line that \<open>partition_point\<close> finds for an offset: it starts at or before the
  offset, and the next line starts after it.\<close>

definition line_of :: "string \<Rightarrow> nat \<Rightarrow> nat" where
  "line_of s b = partition_point (\<lambda>ls. ls \<le> b) (line_starts (LineIndex_new s)) - 1"

lemma partition_point_pos:
  "0 < partition_point (\<lambda>ls. ls \<le> b) (line_starts (LineIndex_new s))"
  by (simp add: partition_point_def LineIndex_new_def)

lemma line_of_bound: "line_of s b < length (line_starts (LineIndex_new s))"
  using partition_point_pos [of b s]
    partition_point_le [of "\<lambda>ls. ls \<le> b" "line_starts (LineIndex_new s)"]
  by (auto simp: line_of_def)

lemma line_of_start: "line_starts (LineIndex_new s) ! line_of s b \<le> b"
  using partition_point_prefix [of "line_of s b" "\<lambda>ls. ls \<le> b"] partition_point_pos [of b s]
  by (simp add: line_of_def)

lemma line_of_next:
  assumes "Suc (line_of s b) < length (line_starts (LineIndex_new s))"
  shows "b < line_starts (LineIndex_new s) ! Suc (line_of s b)"
  using partition_point_stop [of "\<lambda>ls. ls \<le> b" "line_starts (LineIndex_new s)"]
    partition_point_pos [of b s] assms
  by (simp add: line_of_def)

lemma line_of_unique:
  assumes k: "k < length (line_starts (LineIndex_new s))"
    and start: "line_starts (LineIndex_new s) ! k \<le> b"
    and next_start: "Suc k < length (line_starts (LineIndex_new s)) \<Longrightarrow>
      b < line_starts (LineIndex_new s) ! Suc k"
  shows "line_of s b = k"
proof (rule ccontr)
  let ?ls = "line_starts (LineIndex_new s)"
  have mono: "i < j \<Longrightarrow> j < length ?ls \<Longrightarrow> ?ls ! i < ?ls ! j" for i j
    using sorted_line_starts [of s] by (simp add: sorted_wrt_iff_nth_less)
  assume "line_of s b \<noteq> k"
  then consider "line_of s b < k" | "k < line_of s b" by linarith
  then show False
  proof cases
    case 1
    then have "?ls ! Suc (line_of s b) \<le> ?ls ! k"
      using mono [of "Suc (line_of s b)" k] k by (cases "Suc (line_of s b) = k") auto
    with 1 k start line_of_next [of s b] show False by simp
  next
    case 2
    then have "?ls ! Suc k \<le> ?ls ! line_of s b"
      using mono [of "Suc k" "line_of s b"] line_of_bound [of s b]
      by (cases "Suc k = line_of s b") auto
    with 2 next_start line_of_start [of s b] line_of_bound [of s b] show False by simp
  qed
qed

subsection \<open>Scanning a line\<close>

lemma position_scan_hit:
  assumes "\<forall>u \<in> set us. 0 < len_utf16 u"
    and "target = units + sum_list (map len_utf16 us)"
    and "vs \<noteq> [] \<or> le = ls + off + length (concat us)"
  shows "position_scan ls le target units (char_indices_from off (us @ vs))
    = Some (ls + off + length (concat us))"
  using assms
proof (induction us arbitrary: off units)
  case Nil
  then show ?case by (cases vs) auto
next
  case (Cons u us)
  then have "0 < len_utf16 u" by simp
  then have "units \<noteq> target" "\<not> units + len_utf16 u > target"
    using Cons.prems(2) by auto
  then have "position_scan ls le target units (char_indices_from off ((u # us) @ vs))
      = position_scan ls le target (units + len_utf16 u) (char_indices_from (off + length u) (us @ vs))"
    by simp
  also have "\<dots> = Some (ls + (off + length u) + length (concat us))"
    using Cons.prems by (intro Cons.IH) auto
  finally show ?case by (simp add: algebra_simps)
qed

lemma position_scan_sound:
  assumes "position_scan ls le target units (char_indices_from off chs) = Some b"
    and "le = ls + off + length (concat chs)"
  shows "\<exists>us vs. chs = us @ vs \<and> b = ls + off + length (concat us) \<and>
    target = units + sum_list (map len_utf16 us)"
  using assms
proof (induction chs arbitrary: off units)
  case Nil
  then show ?case by (auto split: if_splits)
next
  case (Cons ch chs)
  show ?case
  proof (cases "units = target")
    case True
    with Cons.prems show ?thesis by (intro exI [of _ "[]"] exI [of _ "ch # chs"]) auto
  next
    case False
    with Cons.prems
    have "position_scan ls le target (units + len_utf16 ch)
        (char_indices_from (off + length ch) chs) = Some b"
      by (auto split: if_splits)
    moreover have "le = ls + (off + length ch) + length (concat chs)"
      using Cons.prems(2) by simp
    ultimately obtain us vs where "chs = us @ vs" "b = ls + (off + length ch) + length (concat us)"
      "target = units + len_utf16 ch + sum_list (map len_utf16 us)"
      using Cons.IH by blast
    then show ?thesis by (intro exI [of _ "ch # us"] exI [of _ vs]) auto
  qed
qed

lemma len_utf16_pos: "ch \<in> set (uchars s) \<Longrightarrow> 0 < len_utf16 ch"
  using uchars_nonempty [of ch s] by (cases ch) (auto simp: len_utf16_def)

lemma char_indices_scan_hit:
  assumes "line = t @ rest" "utf8_start rest" "rest \<noteq> [] \<or> le = ls + length t"
  shows "position_scan ls le (utf16_count t) 0 (char_indices line) = Some (ls + length t)"
proof -
  have "position_scan ls le (utf16_count t) 0 (char_indices_from 0 (uchars t @ uchars rest))
      = Some (ls + 0 + length (concat (uchars t)))"
    using assms by (intro position_scan_hit) (auto simp: len_utf16_pos utf16_count_def)
  with assms show ?thesis by (simp add: char_indices_def uchars_append)
qed

subsection \<open>Boundaries and lines\<close>

lemma boundary_append:
  assumes "utf8_start s" "is_char_boundary s a" "is_char_boundary s b" "a \<le> b"
  shows "utf8_start (take (b - a) (drop a s))"
  using boundary_drop_start [OF assms(2,1)] by (cases "drop a s"; cases "b - a") auto

lemma utf8_wf_start [simp]: "utf8_wf s \<Longrightarrow> utf8_start s"
  by (simp add: utf8_wf_def)

lemma line_end_of_new:
  "line_end_of (LineIndex_new s) s k =
     (if Suc k < length (line_starts (LineIndex_new s))
      then line_starts (LineIndex_new s) ! Suc k else length s)"
  by (simp add: line_end_of_def vget_def)

lemma line_end_boundary: "utf8_wf s \<Longrightarrow> is_char_boundary s (line_end_of (LineIndex_new s) s k)"
  by (auto simp: line_end_of_new intro: line_start_boundary)

lemma line_start_le_end:
  assumes "k < length (line_starts (LineIndex_new s))"
  shows "line_starts (LineIndex_new s) ! k \<le> line_end_of (LineIndex_new s) s k"
proof (cases "Suc k < length (line_starts (LineIndex_new s))")
  case True
  then have "line_starts (LineIndex_new s) ! k < line_starts (LineIndex_new s) ! Suc k"
    using sorted_line_starts [of s] by (simp add: sorted_wrt_iff_nth_less)
  with True show ?thesis by (simp add: line_end_of_new)
next
  case False
  with assms show ?thesis by (simp add: line_end_of_new line_start_le)
qed

lemma line_slice:
  assumes "utf8_wf s" "k < length (line_starts (LineIndex_new s))"
  shows "slice s (line_starts (LineIndex_new s) ! k) (line_end_of (LineIndex_new s) s k)
    = Some (take (line_end_of (LineIndex_new s) s k - line_starts (LineIndex_new s) ! k)
        (drop (line_starts (LineIndex_new s) ! k) s))"
  using assms line_start_boundary [OF assms(1), of "line_starts (LineIndex_new s) ! k"]
    line_end_boundary [OF assms(1), of k] line_start_le_end [OF assms(2)]
  by (simp add: slice_def boundary_le)

lemma byte_to_position_value:
  assumes "utf8_wf s" "is_char_boundary s b"
  shows "byte_to_position (LineIndex_new s) s b = Returns
    (SourcePosition_new (line_of s b)
      (utf16_count (take (b - line_starts (LineIndex_new s) ! line_of s b)
        (drop (line_starts (LineIndex_new s) ! line_of s b) s))))"
  using assms line_start_boundary [OF assms(1), of "line_starts (LineIndex_new s) ! line_of s b"]
    line_of_bound [of s b] line_of_start [of s b]
  unfolding byte_to_position_def Let_def line_of_def [symmetric]
  by (simp add: vget_def slice_def boundary_le)

lemma line_count_le: "length (line_starts (LineIndex_new s)) \<le> Suc (length s)"
  by (simp add: LineIndex_new_def length_newline_starts)

lemma take_take_drop_split:
  assumes "a \<le> b" "b \<le> c" "c \<le> length s"
  shows "take (c - a) (drop a s) = take (b - a) (drop a s) @ take (c - b) (drop b s)"
proof -
  have "c - a = (b - a) + (c - b)" and "drop (b - a) (drop a s) = drop b s"
    using assms by auto
  then show ?thesis by (metis take_add)
qed

lemma position_to_byte_line:
  assumes wf: "utf8_wf s" and res: "position_to_byte (LineIndex_new s) s p = Some b"
  defines "k \<equiv> unat (pos_line p)"
  shows "k < length (line_starts (LineIndex_new s))"
    and "line_starts (LineIndex_new s) ! k \<le> b"
    and "b \<le> line_end_of (LineIndex_new s) s k"
    and "is_char_boundary s b"
    and "unat (pos_character p) = utf16_count
      (take (b - line_starts (LineIndex_new s) ! k) (drop (line_starts (LineIndex_new s) ! k) s))"
proof -
  let ?ls = "line_starts (LineIndex_new s) ! k"
  let ?le = "line_end_of (LineIndex_new s) s k"
  let ?line = "take (?le - ?ls) (drop ?ls s)"
  show k: "k < length (line_starts (LineIndex_new s))"
    using res by (auto simp: position_to_byte_def k_def vget_def split: if_splits)
  have le: "?ls \<le> ?le" "?le \<le> length s"
    using line_start_le_end [OF k] boundary_le [OF line_end_boundary [OF wf]] by auto
  have scan: "position_scan ?ls ?le (unat (pos_character p)) 0
      (char_indices_from 0 (uchars ?line)) = Some b"
    using res k line_slice [OF wf k]
    by (simp add: position_to_byte_def k_def [symmetric] vget_def Let_def char_indices_def)
  have end_eq: "?le = ?ls + 0 + length (concat (uchars ?line))"
    using le by simp
  from position_scan_sound [OF scan end_eq] obtain us vs where uv: "uchars ?line = us @ vs" "b = ?ls + 0 + length (concat us)"
    "unat (pos_character p) = 0 + sum_list (map len_utf16 us)"
    by (elim exE conjE)
  have cat: "?line = concat us @ concat vs"
    using arg_cong [OF uv(1), of concat] by simp
  show lb: "?ls \<le> b" using uv(2) by simp
  show ub: "b \<le> ?le"
    using uv(2) arg_cong [OF cat, of length] le by simp
  have len_us: "length (concat us) = b - ?ls"
    using uv(2) by simp
  have us: "concat us = take (b - ?ls) (drop ?ls s)"
  proof -
    have "concat us = take (b - ?ls) ?line"
      using cat len_us by (metis append_eq_conv_conj)
    then show ?thesis using ub by (simp add: min_def)
  qed
  have start: "utf8_start ?line"
    using wf k le by (intro boundary_append) (auto intro: line_start_boundary line_end_boundary)
  note parts = uchars_split_point [OF uv(1) start]
  show "unat (pos_character p) = utf16_count (take (b - ?ls) (drop ?ls s))"
    using parts us uv(3) by (simp add: utf16_count_def)
  have "drop ?ls s = ?line @ drop ?le s"
    using le by (metis append_take_drop_id drop_drop le_add_diff_inverse2)
  then have "drop b s = concat vs @ drop ?le s"
    using cat len_us lb by (metis append.assoc append_eq_conv_conj drop_drop le_add_diff_inverse2)
  moreover have "utf8_start (drop ?le s)"
    using wf by (intro boundary_drop_start line_end_boundary) simp_all
  ultimately have "utf8_start (drop b s)"
    using parts by (simp add: utf8_start_append)
  then show "is_char_boundary s b"
    using ub le by (intro boundary_of_start) simp_all
qed

subsection \<open>Tree-sitter points\<close>

lemma newline_starts_append:
  "newline_starts n (s @ t) = newline_starts n s @ newline_starts (n + length s) t"
  by (induction n s rule: newline_starts.induct) simp_all

lemma partition_point_split:
  assumes "\<forall>x \<in> set xs. P x" "ys \<noteq> [] \<longrightarrow> \<not> P (hd ys)"
  shows "partition_point P (xs @ ys) = length xs"
proof (cases ys)
  case Nil
  have "length (takeWhile P xs) = length xs"
    using assms(1) takeWhile_eq_all_conv by metis
  with Nil show ?thesis by (simp add: partition_point_def)
next
  case (Cons y ys')
  with assms show ?thesis by (simp add: partition_point_def takeWhile_append2)
qed

lemma line_starts_split:
  "line_starts (LineIndex_new s) =
     (0 # newline_starts 0 (take b s)) @ newline_starts (length (take b s)) (drop b s)"
  using newline_starts_append [of 0 "take b s" "drop b s"]
  by (simp only: append_take_drop_id LineIndex_new_def line_index.simps append_Cons add_0)

lemma line_of_count:
  assumes "b \<le> length s"
  shows "line_of s b = length (filter (\<lambda>c. c = newline) (take b s))"
proof -
  have early: "\<forall>x \<in> set (0 # newline_starts 0 (take b s)). x \<le> b"
    by (auto simp: set_newline_starts)
  have late: "\<And>x. x \<in> set (newline_starts (length (take b s)) (drop b s)) \<Longrightarrow> b < x"
    using assms newline_starts_gt [of _ "length (take b s)"] by fastforce
  have "newline_starts (length (take b s)) (drop b s) \<noteq> [] \<longrightarrow>
      \<not> hd (newline_starts (length (take b s)) (drop b s)) \<le> b"
    using late hd_in_set by fastforce
  then have "partition_point (\<lambda>ls. ls \<le> b) (line_starts (LineIndex_new s))
      = length (0 # newline_starts 0 (take b s))"
    unfolding line_starts_split [of s b] using early by (rule partition_point_split [rotated])
  then show ?thesis by (simp add: line_of_def length_newline_starts)
qed

lemma last_newline_start:
  "last (0 # newline_starts 0 p) = (case rfind_char newline p of None \<Rightarrow> 0 | Some i \<Rightarrow> i + 1)"
proof (induction p rule: rev_induct)
  case Nil
  then show ?case by (simp add: rfind_char_def)
next
  case (snoc c p)
  have found: "find_char x q = Some i \<Longrightarrow> i < length q" for x :: char and q i
    by (induction q arbitrary: i) (auto split: if_splits)
  show ?case
  proof (cases "c = newline")
    case True
    then show ?thesis by (simp add: newline_starts_append rfind_char_def)
  next
    case False
    have "rfind_char newline (p @ [c]) = rfind_char newline p"
      using False found [of newline "rev p"]
      by (cases "find_char newline (rev p)") (auto simp: rfind_char_def)
    with snoc False show ?thesis by (simp add: newline_starts_append)
  qed
qed

lemma line_of_start_value:
  assumes "b \<le> length s"
  shows "line_starts (LineIndex_new s) ! line_of s b =
    (case rfind_char newline (take b s) of None \<Rightarrow> 0 | Some i \<Rightarrow> i + 1)"
proof -
  let ?xs = "0 # newline_starts 0 (take b s)"
  have "line_of s b = length ?xs - 1"
    by (simp add: line_of_count [OF assms] length_newline_starts)
  then have "line_starts (LineIndex_new s) ! line_of s b = ?xs ! (length ?xs - 1)"
    unfolding line_starts_split [of s b] by (simp add: nth_append del: append_Cons)
  also have "\<dots> = last ?xs"
    by (subst last_conv_nth) simp_all
  finally show ?thesis by (simp only: last_newline_start)
qed

lemma byte_point_value:
  "byte_point (LineIndex_new s) b =
     Returns \<lparr>row = line_of s b, column = b - line_starts (LineIndex_new s) ! line_of s b\<rparr>"
  unfolding byte_point_def Let_def line_of_def [symmetric]
  using line_of_bound [of s b] line_of_start [of s b] by (simp add: vget_def)

lemma byte_point_agrees:
  assumes "is_char_boundary s b"
  shows "byte_point_in s b = byte_point (LineIndex_new s) b"
  using assms boundary_le [OF assms]
  by (simp add: byte_point_value byte_point_in_def slice_def line_of_start_value
      line_of_count [symmetric])

lemma utf8_wf_splice:
  assumes s: "utf8_wf s" and t: "utf8_wf t" and a: "is_char_boundary s a"
    and z: "is_char_boundary s z"
  shows "utf8_wf (take a s @ t @ drop z s)"
proof -
  let ?P = "\<lambda>x y. is_cont y \<longrightarrow> \<not> is_ascii x"
  have starts: "utf8_start (take a s)" "utf8_start t" "utf8_start (drop z s)"
    using s t boundary_drop_start [OF z] by (cases s; cases a; auto simp: utf8_wf_def)+
  have "successively ?P s" "successively ?P t"
    using s t by (simp_all add: utf8_wf_def)
  then have "successively ?P (take a s)" "successively ?P (drop z s)"
    by (metis append_take_drop_id successively_append_iff)+
  moreover have "\<not> is_cont (hd x)" if "utf8_start x" "x \<noteq> []" for x
    using that by (cases x) simp_all
  ultimately show ?thesis
    using starts \<open>successively ?P t\<close>
    by (auto simp: utf8_wf_def successively_append_iff utf8_start_append hd_append)
qed

lemma boundary_splice:
  assumes "utf8_start s" "is_char_boundary s z"
  shows "is_char_boundary (p @ drop z s) (length p)"
  using boundary_drop_start [OF assms(2,1)] by (intro boundary_of_start) simp_all

subsection \<open>Properties\<close>

text \<open>
  C14: on valid UTF-8 shorter than 2 GiB, converting a character-boundary byte offset to an
  LSP position never panics, and converting that position back gives the same offset.
\<close>

theorem byte_position_roundtrip:
  assumes wf: "utf8_wf s" and len: "length s < 2 ^ 31" and b: "is_char_boundary s b"
  shows "\<exists>p. byte_to_position (LineIndex_new s) s b = Returns p \<and>
    position_to_byte (LineIndex_new s) s p = Some b"
proof -
  let ?ls = "line_starts (LineIndex_new s)"
  define k where "k = line_of s b"
  define le where "le = line_end_of (LineIndex_new s) s k"
  define t where "t = take (b - ?ls ! k) (drop (?ls ! k) s)"
  have k: "k < length ?ls" "?ls ! k \<le> b"
    unfolding k_def by (rule line_of_bound, rule line_of_start)
  have le: "b \<le> le" "le \<le> length s" "is_char_boundary s le"
    using line_of_next [of s b] boundary_le [OF b] line_end_boundary [OF wf, of k] boundary_le
    by (auto simp: le_def k_def line_end_of_new)
  have last: "b = le \<Longrightarrow> drop b s = [] \<or> le = ?ls ! k + length t"
    using k le by (simp add: t_def)
  have t_len: "?ls ! k + length t = b"
    using k le by (simp add: t_def)
  have len': "length s < 2147483648" using len by simp
  have "utf16_count t < 4294967296"
    using utf16_count_le [of t] le(1,2) t_len len' by linarith
  moreover have "k < 4294967296"
    using k(1) line_count_le [of s] len' by linarith
  ultimately have small: "k < 2 ^ 32" "utf16_count t < 2 ^ 32" by simp_all
  have pos: "byte_to_position (LineIndex_new s) s b = Returns (SourcePosition_new k (utf16_count t))"
    using byte_to_position_value [OF wf b] by (simp add: k_def t_def)
  have line: "slice s (?ls ! k) le = Some (t @ take (le - b) (drop b s))"
    using line_slice [OF wf k(1)] take_take_drop_split [OF k(2) le(1,2)]
    by (simp add: le_def t_def)
  have "utf8_start (take (le - b) (drop b s))"
    using wf b le by (intro boundary_append) simp_all
  moreover have "take (le - b) (drop b s) \<noteq> [] \<or> le = ?ls ! k + length t"
    using le t_len by auto
  ultimately have "position_scan (?ls ! k) le (utf16_count t) 0
      (char_indices (t @ take (le - b) (drop b s))) = Some (?ls ! k + length t)"
    by (intro char_indices_scan_hit [OF refl])
  then have "position_to_byte (LineIndex_new s) s (SourcePosition_new k (utf16_count t)) = Some b"
    using k(1) line small t_len
    by (simp add: position_to_byte_def SourcePosition_new_def u32_saturating_exact Let_def
        le_def [symmetric] vget_def)
  with pos show ?thesis by blast
qed

theorem byte_position_roundtrip_witness:
  "\<exists>p. byte_to_position (LineIndex_new (''a'' @ [newline] @ ''bc'')) (''a'' @ [newline] @ ''bc'') 3
      = Returns p \<and>
    position_to_byte (LineIndex_new (''a'' @ [newline] @ ''bc'')) (''a'' @ [newline] @ ''bc'') p = Some 3"
  by (rule byte_position_roundtrip)
    (simp_all add: utf8_wf_def is_cont_def is_char_boundary_def)



text \<open>
  C4: on valid text an incremental change never panics.  It is dropped exactly when an end of
  its range is out of the document or the range is reversed; otherwise the new text is the
  splice, is valid again, and the \<open>InputEdit\<close> states the replaced bytes and the row and column
  of its three ends, the last one as the line index of the new text sees it.
\<close>

theorem apply_content_change_correct:
  assumes wf: "utf8_wf s" "utf8_wf text"
  shows "case apply_content_change s (LineIndex_new s) (Some r) text of
      Panic \<Rightarrow> False
    | Diverges \<Rightarrow> False
    | Returns None \<Rightarrow>
        (\<nexists>a z. position_to_byte (LineIndex_new s) s (range_start r) = Some a \<and>
               position_to_byte (LineIndex_new s) s (range_end r) = Some z \<and> a \<le> z)
    | Returns (Some (s', edit)) \<Rightarrow>
        (\<exists>e a z. edit = Some e \<and>
           position_to_byte (LineIndex_new s) s (range_start r) = Some a \<and>
           position_to_byte (LineIndex_new s) s (range_end r) = Some z \<and> a \<le> z \<and>
           s' = take a s @ text @ drop z s \<and> utf8_wf s' \<and>
           start_byte e = a \<and> old_end_byte e = z \<and> new_end_byte e = a + length text \<and>
           byte_point (LineIndex_new s) a = Returns (start_position e) \<and>
           byte_point (LineIndex_new s) z = Returns (old_end_position e) \<and>
           byte_point (LineIndex_new s') (a + length text) = Returns (new_end_position e))"
proof (cases "\<exists>a z. position_to_byte (LineIndex_new s) s (range_start r) = Some a \<and>
    position_to_byte (LineIndex_new s) s (range_end r) = Some z \<and> a \<le> z")
  case False
  then show ?thesis
    by (auto simp: apply_content_change_def split: option.splits)
next
  case True
  then obtain a z where pa: "position_to_byte (LineIndex_new s) s (range_start r) = Some a"
    and pz: "position_to_byte (LineIndex_new s) s (range_end r) = Some z" and az: "a \<le> z"
    by blast
  note a = position_to_byte_line(4) [OF wf(1) pa]
  note z = position_to_byte_line(4) [OF wf(1) pz]
  define s' where "s' = take a s @ text @ drop z s"
  have "is_char_boundary (take a s @ text @ drop z s) (a + length text)"
    using boundary_splice [of s z "take a s @ text"] wf(1) z boundary_le [OF a] by simp
  then have new_end: "byte_point_in s' (a + length text) = byte_point (LineIndex_new s') (a + length text)"
    unfolding s'_def by (rule byte_point_agrees)
  have "slice s 0 a = Some (take a s)" "slice s z (length s) = Some (drop z s)"
    using a z boundary_le [OF a] boundary_le [OF z] by (simp_all add: slice_def)
  then have "apply_content_change s (LineIndex_new s) (Some r) text = Returns (Some (s', Some
      \<lparr>start_byte = a, old_end_byte = z, new_end_byte = a + length text,
       start_position = \<lparr>row = line_of s a, column = a - line_starts (LineIndex_new s) ! line_of s a\<rparr>,
       old_end_position = \<lparr>row = line_of s z, column = z - line_starts (LineIndex_new s) ! line_of s z\<rparr>,
       new_end_position = \<lparr>row = line_of s' (a + length text),
         column = a + length text - line_starts (LineIndex_new s') ! line_of s' (a + length text)\<rparr>\<rparr>))"
    using pa pz az new_end
    by (simp add: apply_content_change_def s'_def [symmetric] byte_point_value Let_def)
  moreover have "utf8_wf s'"
    unfolding s'_def by (rule utf8_wf_splice [OF wf a z])
  ultimately show ?thesis
    using pa pz az by (simp add: byte_point_value s'_def)
qed

theorem apply_content_change_correct_witness:
  "utf8_wf ''abc'' \<and> utf8_wf ''X'' \<and>
   position_to_byte (LineIndex_new ''abc'') ''abc'' \<lparr>pos_line = 0, pos_character = 1\<rparr> = Some 1 \<and>
   (case apply_content_change ''abc'' (LineIndex_new ''abc'')
      (Some \<lparr>range_start = \<lparr>pos_line = 0, pos_character = 1\<rparr>,
        range_end = \<lparr>pos_line = 0, pos_character = 2\<rparr>\<rparr>) ''X'' of
      Returns (Some (s', _)) \<Rightarrow> s' = ''aXc'' | _ \<Rightarrow> False)"
proof -
  have wf: "utf8_wf ''abc''" "utf8_wf ''X''" by code_simp+
  have a: "position_to_byte (LineIndex_new ''abc'') ''abc'' \<lparr>pos_line = 0, pos_character = 1\<rparr> = Some 1"
    by code_simp
  have z: "position_to_byte (LineIndex_new ''abc'') ''abc'' \<lparr>pos_line = 0, pos_character = 2\<rparr> = Some 2"
    by code_simp
  show ?thesis
    using apply_content_change_correct [OF wf, of "\<lparr>range_start = \<lparr>pos_line = 0, pos_character = 1\<rparr>,
        range_end = \<lparr>pos_line = 0, pos_character = 2\<rparr>\<rparr>"] wf a z
    by (auto split: outcome.splits option.splits)
qed

end
