(* ===== verification/Script_Types.thy ===== *)
theory Script_Types
  imports Rust_Prelude
begin

text \<open>
  \<^verbatim>\<open>src/types/mod.rs\<close> and \<^verbatim>\<open>src/types/parse.rs\<close>: the structured WitcherScript type, the
  parser of type annotations and the spelling under which the symbol database keys a type.
\<close>

subsection \<open>Types\<close>

datatype primitive =
    PBool | PByte | PInt | PInt16 | PInt8 | PUint16 | PUint32 | PUint64 | PFloat | PName
  | PString | PStringAnsi

datatype ty =
    Void
  | Primitive primitive
  | Named string
  | Array ty
  | Map ty ty
  | Null
  | Unknown

fun canonical :: "primitive \<Rightarrow> string" where
  "canonical PBool = ''bool''"
| "canonical PByte = ''byte''"
| "canonical PInt = ''int''"
| "canonical PInt16 = ''Int16''"
| "canonical PInt8 = ''Int8''"
| "canonical PUint16 = ''Uint16''"
| "canonical PUint32 = ''Uint32''"
| "canonical PUint64 = ''Uint64''"
| "canonical PFloat = ''float''"
| "canonical PName = ''name''"
| "canonical PString = ''string''"
| "canonical PStringAnsi = ''StringAnsi''"

text \<open>\<open>Type::to_db_string\<close> and the \<open>Display\<close> instance.\<close>

fun to_db_string :: "ty \<Rightarrow> string option" where
  "to_db_string Void = Some ''void''"
| "to_db_string (Primitive p) = Some (canonical p)"
| "to_db_string (Named n) = Some n"
| "to_db_string (Array elem) =
     (case to_db_string elem of None \<Rightarrow> None | Some e \<Rightarrow> Some (''array<'' @ e @ ''>''))"
| "to_db_string (Map key val) =
     (case to_db_string key of
        None \<Rightarrow> None
      | Some k \<Rightarrow>
          (case to_db_string val of
             None \<Rightarrow> None
           | Some v \<Rightarrow> Some (''map<'' @ k @ '', '' @ v @ ''>'')))"
| "to_db_string Null = None"
| "to_db_string Unknown = None"

fun display_type :: "ty \<Rightarrow> string" where
  "display_type Void = ''void''"
| "display_type (Primitive p) = canonical p"
| "display_type (Named n) = n"
| "display_type (Array elem) = ''array<'' @ display_type elem @ ''>''"
| "display_type (Map key val) = ''map<'' @ display_type key @ '', '' @ display_type val @ ''>''"
| "display_type Null = ''NULL''"
| "display_type Unknown = ''?''"

definition parse_generic_type :: "string \<Rightarrow> (string \<times> string) option" where
  "parse_generic_type s =
     (let trimmed = trim s
      in case find_char (CHR ''<'') trimmed of
           None \<Rightarrow> None
         | Some lt \<Rightarrow>
             if \<not> ends_with ''>'' trimmed then None
             else
               (let ctor = trim (take lt trimmed);
                    element = trim (take (length trimmed - 1 - (lt + 1)) (drop (lt + 1) trimmed))
                in if ctor = [] \<or> element = [] then None else Some (ctor, element)))"

definition lookup_ctor :: "string \<Rightarrow> string" where
  "lookup_ctor type_name =
     (case parse_generic_type type_name of None \<Rightarrow> type_name | Some (ctor, _) \<Rightarrow> ctor)"

definition to_lookup_ctor :: "ty \<Rightarrow> string option" where
  "to_lookup_ctor t = map_option lookup_ctor (to_db_string t)"

subsection \<open>Parsing annotations\<close>

definition PRIMITIVE_ALIASES :: "(string \<times> primitive) list" where
  "PRIMITIVE_ALIASES =
     [(''bool'', PBool), (''Bool'', PBool), (''byte'', PByte), (''Uint8'', PByte),
      (''int'', PInt), (''Int32'', PInt), (''Int16'', PInt16), (''Int8'', PInt8),
      (''Uint16'', PUint16), (''Uint32'', PUint32), (''Uint64'', PUint64),
      (''float'', PFloat), (''Float'', PFloat), (''name'', PName), (''CName'', PName),
      (''string'', PString), (''String'', PString), (''StringAnsi'', PStringAnsi)]"

definition DEFAULT_COERCION_ACCEPTS :: "(string \<times> primitive list) list" where
  "DEFAULT_COERCION_ACCEPTS =
     [(''CBehTreeValBool'', [PBool]), (''CBehTreeValInt'', [PInt]),
      (''CBehTreeValFloat'', [PInt, PFloat]), (''CBehTreeValString'', [PString]),
      (''CBehTreeValCName'', [PName])]"

text \<open>The loop of \<open>split_type_args\<close>: \<open>cur\<close> holds, reversed, the text since the last split.\<close>

fun split_type_args_from :: "nat \<Rightarrow> string \<Rightarrow> string \<Rightarrow> string list" where
  "split_type_args_from depth cur [] = [trim (rev cur)]"
| "split_type_args_from depth cur (c # cs) =
     (if c = CHR ''<'' then split_type_args_from (depth + 1) (c # cur) cs
      else if c = CHR ''>'' then split_type_args_from (depth - 1) (c # cur) cs
      else if c = CHR '','' \<and> depth = 0 then trim (rev cur) # split_type_args_from depth [] cs
      else split_type_args_from depth (c # cur) cs)"

definition split_type_args :: "string \<Rightarrow> string list" where
  "split_type_args args = split_type_args_from 0 [] args"

text \<open>The primitive lookup and the \<open>Named\<close> fallback at the end of \<open>from_annotation\<close>.\<close>

definition plain_type :: "string \<Rightarrow> ty" where
  "plain_type trimmed =
     (case map_of PRIMITIVE_ALIASES trimmed of Some p \<Rightarrow> Primitive p | None \<Rightarrow> Named trimmed)"

function from_annotation :: "string \<Rightarrow> ty" where
  "from_annotation s =
     (let trimmed = trim s
      in if trimmed = [] then Unknown
         else if trimmed = ''void'' then Void
         else
           (case parse_generic_type trimmed of
              None \<Rightarrow> plain_type trimmed
            | Some (ctor, args) \<Rightarrow>
                (case split_type_args args of
                   [element] \<Rightarrow>
                     if ctor = ''array'' then Array (from_annotation element)
                     else plain_type trimmed
                 | [key, val] \<Rightarrow>
                     if ctor = ''map'' then Map (from_annotation key) (from_annotation val)
                     else plain_type trimmed
                 | _ \<Rightarrow> plain_type trimmed)))"
  by pat_completeness auto

lemma length_concat_trim_list: "length (concat (trim_list P xs)) \<le> length (concat xs)"
proof -
  have drop: "length (concat (dropWhile P ys)) \<le> length (concat ys)" for ys
    by (induction ys) auto
  have rev: "length (concat (rev ys)) = length (concat ys)" for ys :: "'a list list"
    by (induction ys) auto
  show ?thesis
    unfolding trim_list_def by (metis drop rev order_trans rev_rev_ident)
qed

lemma length_trim_le: "length (trim s) \<le> length s"
  using length_concat_trim_list [of is_whitespace "uchars s"] by (simp add: trim_def)

lemma find_char_less: "find_char x s = Some i \<Longrightarrow> i < length s"
  by (induction s arbitrary: i) (auto split: if_splits)

lemma parse_generic_type_shorter:
  "parse_generic_type s = Some (ctor, args) \<Longrightarrow> length args < length s"
  using length_trim_le [of s]
  by (auto simp: parse_generic_type_def Let_def split: option.splits if_splits
      dest!: find_char_less intro!: le_less_trans [OF length_trim_le])

lemma split_type_args_from_shorter:
  "x \<in> set (split_type_args_from d cur s) \<Longrightarrow> length x \<le> length cur + length s"
proof (induction d cur s rule: split_type_args_from.induct)
  case (1 d cur)
  then show ?case using length_trim_le [of "rev cur"] by simp
next
  case (2 d cur c cs)
  then show ?case
    using length_trim_le [of "rev cur"] by (auto split: if_splits)
qed

lemma generic_arg_shorter:
  assumes "parse_generic_type (trim s) = Some (ctor, args)" "split_type_args args = xs" "x \<in> set xs"
  shows "length x < length s"
proof -
  have "length x \<le> length args"
    using assms split_type_args_from_shorter [of x 0 "[]" args] by (auto simp: split_type_args_def)
  also have "\<dots> < length (trim s)"
    using assms(1) by (rule parse_generic_type_shorter)
  also have "\<dots> \<le> length s" by (rule length_trim_le)
  finally show ?thesis .
qed

termination from_annotation
  by (relation "measure length") (auto intro: generic_arg_shorter)

declare from_annotation.simps [simp del]

definition is_builtin_type_name :: "string \<Rightarrow> bool" where
  "is_builtin_type_name name \<longleftrightarrow>
     name = ''void'' \<or> (\<exists>a \<in> set PRIMITIVE_ALIASES. fst a = name)"

definition default_coercion_accepts :: "string \<Rightarrow> primitive list option" where
  "default_coercion_accepts name = map_of DEFAULT_COERCION_ACCEPTS name"

subsection \<open>Spellings of types\<close>

text \<open>The types a script can spell: every name an identifier that is not a builtin spelling.\<close>

fun nameable :: "ty \<Rightarrow> bool" where
  "nameable Void = True"
| "nameable (Primitive p) = True"
| "nameable (Named n) = (is_ident n \<and> \<not> is_builtin_type_name n)"
| "nameable (Array elem) = nameable elem"
| "nameable (Map key val) = (nameable key \<and> nameable val)"
| "nameable Null = False"
| "nameable Unknown = False"

definition spelling_ok :: "string \<Rightarrow> bool" where
  "spelling_ok s \<longleftrightarrow>
     s \<noteq> [] \<and> (\<forall>c \<in> set s. is_ascii c) \<and> \<not> is_whitespace [hd s] \<and> \<not> is_whitespace [last s]"

definition unsplit :: "string \<Rightarrow> bool" where
  "unsplit s \<longleftrightarrow> (\<forall>d cur rest.
     split_type_args_from d cur (s @ rest) = split_type_args_from d (rev s @ cur) rest)"

lemma spelling_ok_trim: "spelling_ok s \<Longrightarrow> trim s = s"
  by (simp add: spelling_ok_def trim_ascii_ends)

lemma ident_spelling_ok: "is_ident n \<Longrightarrow> spelling_ok n"
  by (auto simp: is_ident_def spelling_ok_def list_all_iff ident_char_ascii ident_char_not_space)

lemma ident_unsplit: "is_ident n \<Longrightarrow> unsplit n"
proof -
  have "list_all ident_char n \<Longrightarrow> unsplit n"
    unfolding unsplit_def by (induction n) (auto dest: ident_char_not_bracket)
  then show "is_ident n \<Longrightarrow> unsplit n" by (simp add: is_ident_def)
qed

lemma canonical_ident: "is_ident (canonical p)"
  by (cases p)
    (simp_all add: is_ident_def ident_char_def is_ascii_uppercase_def is_ascii_lowercase_def is_ascii_digit_def)

lemma word_ident:
  "is_ident ''void''" "is_ident ''array''" "is_ident ''map''"
  by (simp_all add: is_ident_def ident_char_def is_ascii_lowercase_def)

lemma bracket_spelling_ok:
  assumes "is_ident n" "\<forall>c \<in> set e. is_ascii c"
  shows "spelling_ok (n @ ''<'' @ e @ ''>'')"
  using assms ident_spelling_ok [OF assms(1)]
  by (auto simp: spelling_ok_def is_ascii_def is_whitespace_def white_space_def)

lemma bracket_unsplit:
  assumes "is_ident n"
    and inner: "\<And>d cur rest. split_type_args_from (Suc d) cur (e @ rest) = split_type_args_from (Suc d) (rev e @ cur) rest"
  shows "unsplit (n @ ''<'' @ e @ ''>'')"
  using ident_unsplit [OF assms(1)] by (simp add: unsplit_def inner)

lemma pair_unsplit_inside:
  assumes "unsplit k" "unsplit v"
  shows "split_type_args_from (Suc d) cur ((k @ '', '' @ v) @ rest) =
    split_type_args_from (Suc d) (rev (k @ '', '' @ v) @ cur) rest"
  using assms by (simp add: unsplit_def)

lemma db_string_spelling:
  "nameable t \<Longrightarrow> \<exists>s. to_db_string t = Some s \<and> spelling_ok s \<and> unsplit s"
proof (induction t)
  case (Array t)
  then obtain e where e: "to_db_string t = Some e" "spelling_ok e" "unsplit e" by auto
  have "spelling_ok (''array'' @ ''<'' @ e @ ''>'')"
    using e by (intro bracket_spelling_ok) (auto simp: word_ident spelling_ok_def)
  moreover have "unsplit (''array'' @ ''<'' @ e @ ''>'')"
    using e by (intro bracket_unsplit) (auto simp: word_ident unsplit_def)
  ultimately show ?case using e by simp
next
  case (Map t1 t2)
  then obtain k v where k: "to_db_string t1 = Some k" "spelling_ok k" "unsplit k"
    and v: "to_db_string t2 = Some v" "spelling_ok v" "unsplit v" by auto
  have "spelling_ok (''map'' @ ''<'' @ (k @ '', '' @ v) @ ''>'')"
    using k v by (intro bracket_spelling_ok) (auto simp: word_ident spelling_ok_def is_ascii_def)
  moreover have "unsplit (''map'' @ ''<'' @ (k @ '', '' @ v) @ ''>'')"
    using k v by (intro bracket_unsplit pair_unsplit_inside) (simp_all add: word_ident)
  ultimately show ?case using k v by simp
qed (auto simp: word_ident canonical_ident intro: ident_spelling_ok ident_unsplit)

lemma ends_with_snoc: "ends_with [c] (s @ [c])"
  by (simp add: ends_with_def)

lemma parse_generic_bracket:
  assumes n: "is_ident n" and e: "spelling_ok e"
  shows "parse_generic_type (n @ ''<'' @ e @ ''>'') = Some (n, e)"
proof -
  have find: "find_char (CHR ''<'') (n @ ''<'' @ e @ ''>'') = Some (length n)"
  proof -
    have "list_all ident_char n" using n by (simp add: is_ident_def)
    then show ?thesis by (induction n) (auto dest: ident_char_not_bracket)
  qed
  have "trim (n @ ''<'' @ e @ ''>'') = n @ ''<'' @ e @ ''>''"
    using n e by (intro spelling_ok_trim bracket_spelling_ok) (simp_all add: spelling_ok_def)
  moreover have "trim n = n" "trim e = e" "e \<noteq> []"
    using n e by (auto intro: spelling_ok_trim ident_spelling_ok simp: spelling_ok_def)
  ultimately show ?thesis
    using n find ends_with_snoc [of "CHR ''>''" "n @ ''<'' @ e"]
    by (simp add: parse_generic_type_def is_ident_def)
qed

lemma parse_generic_ident: "is_ident n \<Longrightarrow> parse_generic_type n = None"
proof -
  assume n: "is_ident n"
  then have "list_all ident_char n" by (simp add: is_ident_def)
  then have "find_char (CHR ''<'') n = None"
    by (induction n) (auto dest: ident_char_not_bracket)
  with n show "parse_generic_type n = None"
    by (simp add: parse_generic_type_def spelling_ok_trim ident_spelling_ok)
qed

lemma split_single: "spelling_ok e \<Longrightarrow> unsplit e \<Longrightarrow> split_type_args e = [e]"
proof -
  assume e: "spelling_ok e" "unsplit e"
  have "split_type_args_from 0 [] (e @ []) = split_type_args_from 0 (rev e @ []) []"
    using e(2) unfolding unsplit_def by blast
  with e(1) show ?thesis by (simp add: split_type_args_def spelling_ok_trim)
qed

lemma split_pair:
  assumes "spelling_ok k" "unsplit k" "spelling_ok v" "unsplit v"
  shows "split_type_args (k @ '', '' @ v) = [k, v]"
proof -
  have "split_type_args_from 0 [] (k @ '', '' @ v) = split_type_args_from 0 (rev k @ []) ('', '' @ v)"
    using assms(2) unfolding unsplit_def by blast
  also have "\<dots> = k # split_type_args_from 0 '' '' (v @ [])"
    using assms(1) by (simp add: spelling_ok_trim)
  also have "split_type_args_from 0 '' '' (v @ []) = split_type_args_from 0 (rev v @ '' '') []"
    using assms(4) unfolding unsplit_def by blast
  also have "\<dots> = [v]"
    using assms(3) trim_leading_space [of v]
    by (cases v) (auto simp: spelling_ok_trim spelling_ok_def is_ascii_not_cont)
  finally show ?thesis by (simp add: split_type_args_def)
qed

lemma canonical_alias: "map_of PRIMITIVE_ALIASES (canonical p) = Some p \<and> canonical p \<noteq> ''void''"
  by (cases p) (simp_all add: PRIMITIVE_ALIASES_def)

lemma not_builtin_alias:
  "\<not> is_builtin_type_name n \<Longrightarrow> n \<noteq> ''void'' \<and> map_of PRIMITIVE_ALIASES n = None"
  by (force simp: is_builtin_type_name_def map_of_eq_None_iff)

lemma from_annotation_ident:
  "is_ident n \<Longrightarrow> n \<noteq> ''void'' \<Longrightarrow> from_annotation n = plain_type n"
  by (simp add: from_annotation.simps [of n] spelling_ok_trim ident_spelling_ok
      parse_generic_ident Let_def) (simp add: is_ident_def)

lemma from_annotation_generic:
  assumes "trim s = s" "s \<noteq> []" "s \<noteq> ''void''" "parse_generic_type s = Some (n, e)"
  shows "from_annotation s =
    (case split_type_args e of
       [element] \<Rightarrow> if n = ''array'' then Array (from_annotation element) else plain_type s
     | [key, val] \<Rightarrow> if n = ''map'' then Map (from_annotation key) (from_annotation val)
                      else plain_type s
     | _ \<Rightarrow> plain_type s)"
  using assms by (simp add: from_annotation.simps [of s] Let_def)

lemma from_annotation_bracket:
  assumes n: "is_ident n" and e: "spelling_ok e"
  shows "from_annotation (n @ ''<'' @ e @ ''>'') =
    (case split_type_args e of
       [element] \<Rightarrow> if n = ''array'' then Array (from_annotation element)
                    else plain_type (n @ ''<'' @ e @ ''>'')
     | [key, val] \<Rightarrow> if n = ''map'' then Map (from_annotation key) (from_annotation val)
                      else plain_type (n @ ''<'' @ e @ ''>'')
     | _ \<Rightarrow> plain_type (n @ ''<'' @ e @ ''>''))"
proof (rule from_annotation_generic)
  show "trim (n @ ''<'' @ e @ ''>'') = n @ ''<'' @ e @ ''>''"
    using n e by (intro spelling_ok_trim bracket_spelling_ok) (simp_all add: spelling_ok_def)
  show "n @ ''<'' @ e @ ''>'' \<noteq> ''void''"
    by (rule notI, drule arg_cong [where f = last]) simp
  show "parse_generic_type (n @ ''<'' @ e @ ''>'') = Some (n, e)"
    by (rule parse_generic_bracket [OF assms])
qed simp

text \<open>
  C19: every type a script can spell survives printing and parsing: its database key exists,
  is what the \<open>Display\<close> instance shows, and parses back to the type.
\<close>

theorem annotation_roundtrip:
  assumes "nameable t"
  shows "\<exists>s. to_db_string t = Some s \<and> display_type t = s \<and> from_annotation s = t"
  using assms
proof (induction t)
  case Void
  show ?case
    by (simp add: from_annotation.simps [of "''void''"] spelling_ok_trim ident_spelling_ok
        word_ident Let_def)
next
  case (Primitive p)
  show ?case
    using canonical_ident [of p] canonical_alias [of p]
    by (simp add: from_annotation_ident plain_type_def)
next
  case (Named n)
  then show ?case
    using not_builtin_alias [of n] by (simp add: from_annotation_ident plain_type_def)
next
  case (Array t)
  then obtain e where e: "to_db_string t = Some e" "display_type t = e" "from_annotation e = t"
    by auto
  with Array db_string_spelling [of t] have "spelling_ok e" "unsplit e" by auto
  then have "from_annotation (''array'' @ ''<'' @ e @ ''>'') = Array t"
    using e from_annotation_bracket [OF word_ident(2), of e] by (simp only: split_single) simp
  then show ?case using e by simp
next
  case (Map t1 t2)
  then obtain k v where
    k: "to_db_string t1 = Some k" "display_type t1 = k" "from_annotation k = t1" and
    v: "to_db_string t2 = Some v" "display_type t2 = v" "from_annotation v = t2"
    by auto
  with Map db_string_spelling [of t1] db_string_spelling [of t2]
  have ok: "spelling_ok k" "unsplit k" "spelling_ok v" "unsplit v" by auto
  moreover have "spelling_ok (k @ '', '' @ v)"
    using ok by (auto simp: spelling_ok_def is_ascii_def)
  ultimately have "from_annotation (''map'' @ ''<'' @ (k @ '', '' @ v) @ ''>'') = Map t1 t2"
    using k v from_annotation_bracket [OF word_ident(3), of "k @ '', '' @ v"]
    by (simp only: split_pair) simp
  then show ?case using k v by simp
qed simp_all

theorem annotation_roundtrip_witness:
  "nameable (Map (Primitive PName) (Array (Named ''CEntity''))) \<and>
   (\<exists>s. to_db_string (Map (Primitive PName) (Array (Named ''CEntity''))) = Some s \<and>
        display_type (Map (Primitive PName) (Array (Named ''CEntity''))) = s \<and>
        from_annotation s = Map (Primitive PName) (Array (Named ''CEntity'')))"
proof -
  have h: "nameable (Map (Primitive PName) (Array (Named ''CEntity'')))" by code_simp
  show ?thesis using h annotation_roundtrip [OF h] by blast
qed

end
