(* ===== verification/Script_Symbols.thy ===== *)
theory Script_Symbols
  imports Hash_Buckets Line_Index Script_Types
begin

text \<open>
  \<^verbatim>\<open>src/symbols/types.rs\<close>: symbols, their specifier bitset, and \<open>DocumentSymbols\<close>, the
  per-document symbol table with its name, container and local-variable indexes.
\<close>

unbundle bit_operations_syntax

subsection \<open>Access, flavours and specifiers\<close>

type_synonym symbol_id = nat

datatype access_level = Private | Protected | Public

fun access_rank :: "access_level \<Rightarrow> nat" where
  "access_rank Private = 0"
| "access_rank Protected = 1"
| "access_rank Public = 2"

text \<open>The derived \<open>Ord\<close>: declaration order.\<close>

instantiation access_level :: linorder
begin

definition less_eq_access_level :: "access_level \<Rightarrow> access_level \<Rightarrow> bool" where
  "less_eq_access_level a b \<longleftrightarrow> access_rank a \<le> access_rank b"

definition less_access_level :: "access_level \<Rightarrow> access_level \<Rightarrow> bool" where
  "less_access_level a b \<longleftrightarrow> access_rank a < access_rank b"

instance
proof
  fix a b c :: access_level
  show "a < b \<longleftrightarrow> a \<le> b \<and> \<not> b \<le> a"
    by (auto simp: less_eq_access_level_def less_access_level_def)
  show "a \<le> a" by (simp add: less_eq_access_level_def)
  show "a \<le> b \<Longrightarrow> b \<le> c \<Longrightarrow> a \<le> c" by (simp add: less_eq_access_level_def)
  show "a \<le> b \<Longrightarrow> b \<le> a \<Longrightarrow> a = b"
    by (cases a; cases b) (simp_all add: less_eq_access_level_def)
  show "a \<le> b \<or> b \<le> a" by (auto simp: less_eq_access_level_def)
qed

end

fun access_keyword :: "access_level \<Rightarrow> string option" where
  "access_keyword Private = Some ''private''"
| "access_keyword Protected = Some ''protected''"
| "access_keyword Public = None"

datatype func_flavour = Cleanup | Entry | Exec | Quest | Reward | Storyscene | Timer

definition flavour_from_keyword :: "string \<Rightarrow> func_flavour option" where
  "flavour_from_keyword keyword =
     (if keyword = ''cleanup'' then Some Cleanup
      else if keyword = ''entry'' then Some Entry
      else if keyword = ''exec'' then Some Exec
      else if keyword = ''quest'' then Some Quest
      else if keyword = ''reward'' then Some Reward
      else if keyword = ''storyscene'' then Some Storyscene
      else if keyword = ''timer'' then Some Timer
      else None)"

fun flavour_as_keyword :: "func_flavour \<Rightarrow> string" where
  "flavour_as_keyword Cleanup = ''cleanup''"
| "flavour_as_keyword Entry = ''entry''"
| "flavour_as_keyword Exec = ''exec''"
| "flavour_as_keyword Quest = ''quest''"
| "flavour_as_keyword Reward = ''reward''"
| "flavour_as_keyword Storyscene = ''storyscene''"
| "flavour_as_keyword Timer = ''timer''"

datatype specifier =
  Import | Final | Latent | Abstract | Statemachine | Editable | Saved | Const | Inlined
  | Optional | Out

definition specifier_from_keyword :: "string \<Rightarrow> specifier option" where
  "specifier_from_keyword keyword =
     (if keyword = ''import'' then Some Import
      else if keyword = ''final'' then Some Final
      else if keyword = ''latent'' then Some Latent
      else if keyword = ''abstract'' then Some Abstract
      else if keyword = ''statemachine'' then Some Statemachine
      else if keyword = ''editable'' then Some Editable
      else if keyword = ''saved'' then Some Saved
      else if keyword = ''const'' then Some Const
      else if keyword = ''inlined'' then Some Inlined
      else if keyword = ''optional'' then Some Optional
      else if keyword = ''out'' then Some Out
      else None)"

fun specifier_as_keyword :: "specifier \<Rightarrow> string" where
  "specifier_as_keyword Import = ''import''"
| "specifier_as_keyword Final = ''final''"
| "specifier_as_keyword Latent = ''latent''"
| "specifier_as_keyword Abstract = ''abstract''"
| "specifier_as_keyword Statemachine = ''statemachine''"
| "specifier_as_keyword Editable = ''editable''"
| "specifier_as_keyword Saved = ''saved''"
| "specifier_as_keyword Const = ''const''"
| "specifier_as_keyword Inlined = ''inlined''"
| "specifier_as_keyword Optional = ''optional''"
| "specifier_as_keyword Out = ''out''"

text \<open>The set of specifiers of one declaration, a bitset over the discriminants.\<close>

type_synonym specifiers = u16

fun discriminant :: "specifier \<Rightarrow> nat" where
  "discriminant Import = 0"
| "discriminant Final = 1"
| "discriminant Latent = 2"
| "discriminant Abstract = 3"
| "discriminant Statemachine = 4"
| "discriminant Editable = 5"
| "discriminant Saved = 6"
| "discriminant Const = 7"
| "discriminant Inlined = 8"
| "discriminant Optional = 9"
| "discriminant Out = 10"

definition specifiers_default :: specifiers where
  "specifiers_default = 0"

definition RENDER_ORDER :: "specifier list" where
  "RENDER_ORDER =
     [Import, Final, Latent, Abstract, Statemachine, Editable, Saved, Const, Inlined, Optional, Out]"

definition specifiers_insert :: "specifier \<Rightarrow> specifiers \<Rightarrow> specifiers" where
  "specifiers_insert x s = s OR push_bit (discriminant x) 1"

definition specifiers_contains :: "specifiers \<Rightarrow> specifier \<Rightarrow> bool" where
  "specifiers_contains s x \<longleftrightarrow> s AND push_bit (discriminant x) 1 \<noteq> 0"

definition specifiers_iter :: "specifiers \<Rightarrow> specifier list" where
  "specifiers_iter s = filter (specifiers_contains s) RENDER_ORDER"

definition is_optional :: "specifiers \<Rightarrow> bool" where
  "is_optional s = specifiers_contains s Optional"

definition is_out :: "specifiers \<Rightarrow> bool" where
  "is_out s = specifiers_contains s Out"

definition is_abstract :: "specifiers \<Rightarrow> bool" where
  "is_abstract s = specifiers_contains s Abstract"

definition is_state_machine :: "specifiers \<Rightarrow> bool" where
  "is_state_machine s = specifiers_contains s Statemachine"

subsection \<open>Symbols\<close>

datatype symbol_kind =
    Class | NativeType | Struct | Enum | EnumMember | Function | Method | Field | Variable
  | Parameter | State | Event

definition is_type :: "symbol_kind \<Rightarrow> bool" where
  "is_type k \<longleftrightarrow> k \<in> {Class, NativeType, Struct, State, Enum}"

definition is_object_type :: "symbol_kind \<Rightarrow> bool" where
  "is_object_type k \<longleftrightarrow> k \<in> {Class, NativeType, Struct, State}"

definition extends_by_type_name :: "symbol_kind \<Rightarrow> bool" where
  "extends_by_type_name k \<longleftrightarrow> k \<in> {Class, NativeType, Struct}"

definition is_class_like :: "symbol_kind \<Rightarrow> bool" where
  "is_class_like k \<longleftrightarrow> k \<in> {Class, State}"

definition is_callable :: "symbol_kind \<Rightarrow> bool" where
  "is_callable k \<longleftrightarrow> k \<in> {Function, Event, Method}"

definition is_outline :: "symbol_kind \<Rightarrow> bool" where
  "is_outline k \<longleftrightarrow> k \<notin> {Variable, Parameter}"

definition is_instantiable :: "symbol_kind \<Rightarrow> bool" where
  "is_instantiable k \<longleftrightarrow> k \<in> {Class, Struct, State}"

datatype symbol_origin = Script | Builtin | Native

record annotation =
  annot_name :: string
  annot_argument :: "string option"

record symbol =
  sym_id :: symbol_id
  sym_name :: string
  sym_kind :: symbol_kind
  sym_range :: source_range
  selection_range :: source_range
  sym_byte_range :: byte_range
  selection_byte_range :: byte_range
  container :: "symbol_id option"
  container_name :: "string option"
  type_annotation :: "ty option"
  base_class :: "string option"
  owner_class :: "string option"
  state_class :: "string option"
  flavour :: "func_flavour option"
  annotations :: "annotation list"
  access :: access_level
  specifiers :: specifiers
  doc_comment :: "string option"
  origin :: symbol_origin

text \<open>A declaration for the concrete instances of the theorems.\<close>

definition sample_symbol ::
  "symbol_id \<Rightarrow> string \<Rightarrow> symbol_kind \<Rightarrow> nat \<Rightarrow> nat \<Rightarrow> symbol_id option \<Rightarrow> symbol" where
  "sample_symbol i name kind start end' cont =
     \<lparr>sym_id = i, sym_name = name, sym_kind = kind,
      sym_range = \<lparr>range_start = \<lparr>pos_line = 0, pos_character = 0\<rparr>,
                   range_end = \<lparr>pos_line = 0, pos_character = 0\<rparr>\<rparr>,
      selection_range = \<lparr>range_start = \<lparr>pos_line = 0, pos_character = 0\<rparr>,
                         range_end = \<lparr>pos_line = 0, pos_character = 0\<rparr>\<rparr>,
      sym_byte_range = \<lparr>br_start = start, br_end = end'\<rparr>,
      selection_byte_range = \<lparr>br_start = start, br_end = end'\<rparr>,
      container = cont, container_name = None, type_annotation = None, base_class = None,
      owner_class = None, state_class = None, flavour = None, annotations = [],
      access = Public, specifiers = specifiers_default, doc_comment = None, origin = Script\<rparr>"

definition MEMBER_INJECTING_ANNOTATIONS :: "string list" where
  "MEMBER_INJECTING_ANNOTATIONS = [''addMethod'', ''wrapMethod'', ''replaceMethod'', ''addField'']"

definition STATE_CLASS_INFIX :: string where
  "STATE_CLASS_INFIX = ''State''"

definition state_class_name :: "string \<Rightarrow> string \<Rightarrow> string" where
  "state_class_name own st = own @ STATE_CLASS_INFIX @ st"

definition type_name :: "symbol \<Rightarrow> string" where
  "type_name s = (case state_class s of None \<Rightarrow> sym_name s | Some c \<Rightarrow> c)"

definition state_owner :: "symbol \<Rightarrow> string option" where
  "state_owner s = (if sym_kind s = State then owner_class s else None)"

definition short_name_from :: "symbol \<Rightarrow> string \<Rightarrow> string" where
  "short_name_from s name =
     (case Option.bind (Option.bind (state_owner s) (\<lambda>own. strip_prefix own name))
             (strip_prefix STATE_CLASS_INFIX) of
        Some short \<Rightarrow> if short \<noteq> [] then short else name
      | None \<Rightarrow> name)"

definition injecting_annotation :: "symbol \<Rightarrow> annotation option" where
  "injecting_annotation s =
     find (\<lambda>a. annot_name a \<in> set MEMBER_INJECTING_ANNOTATIONS) (annotations s)"

definition annotation_target_class :: "symbol \<Rightarrow> string option" where
  "annotation_target_class s = Option.bind (injecting_annotation s) annot_argument"

definition annotation_target_class_safe :: "symbol \<Rightarrow> string option" where
  "annotation_target_class_safe s =
     (if sym_kind s \<in> {Function, Field} then annotation_target_class s else None)"

definition injecting_annotation_name :: "symbol \<Rightarrow> string option" where
  "injecting_annotation_name s = map_option annot_name (injecting_annotation s)"

definition requires_import :: "symbol \<Rightarrow> bool" where
  "requires_import s \<longleftrightarrow> origin s = Native \<and> sym_kind s \<in> {Function, Method, Field}"

definition is_script_import :: "symbol \<Rightarrow> bool" where
  "is_script_import s \<longleftrightarrow>
     origin s = Script \<and> specifiers_contains (specifiers s) Import \<and>
     annotation_target_class_safe s = None \<and>
     sym_kind s \<in> {Class, Struct, Enum, Function, Method, Field}"

definition display_detail :: "symbol \<Rightarrow> string option" where
  "display_detail s =
     (case (base_class s, owner_class s) of
        (Some b, Some o') \<Rightarrow> Some (''in '' @ o' @ '' extends '' @ b)
      | (Some b, None) \<Rightarrow> Some (''extends '' @ b)
      | (None, Some o') \<Rightarrow> Some (''in '' @ o')
      | (None, None) \<Rightarrow> None)"

subsection \<open>Document symbols\<close>

record document_symbols =
  symbols :: "symbol list"
  by_start_byte :: "symbol_id list"
  ds_top_level_by_name :: "(string, symbol_id) buckets"
  ds_type_by_name :: "(string, symbol_id) buckets"
  members_by_container :: "(symbol_id, string, symbol_id) nested_buckets"
  locals_in_function :: "(symbol_id, string, symbol_id) nested_buckets"

definition DocumentSymbols_default :: document_symbols where
  "DocumentSymbols_default =
     \<lparr>symbols = [], by_start_byte = [], ds_top_level_by_name = [], ds_type_by_name = [],
      members_by_container = [], locals_in_function = []\<rparr>"

definition by_id :: "document_symbols \<Rightarrow> symbol_id \<Rightarrow> symbol option" where
  "by_id ds i = vget (symbols ds) i"

definition children_of :: "document_symbols \<Rightarrow> symbol_id option \<Rightarrow> symbol list" where
  "children_of ds i = filter (\<lambda>s. container s = i) (symbols ds)"

partial_function (option) enclosing_walk ::
  "(symbol \<Rightarrow> bool) \<Rightarrow> symbol list \<Rightarrow> symbol_id \<Rightarrow> symbol option outcome option" where
  "enclosing_walk hit syms i =
     (case vget syms i of
        None \<Rightarrow> Some Panic
      | Some s \<Rightarrow>
          if hit s then Some (Returns (Some s))
          else (case container s of
                  None \<Rightarrow> Some (Returns None)
                | Some c \<Rightarrow> enclosing_walk hit syms c))"

text \<open>The ids in \<open>by_start_byte\<close> are the indexes of the table (lemma \<open>set_by_start\<close>), so the
  search key is always in range.\<close>

definition enclosing_symbol_at :: "document_symbols \<Rightarrow> nat \<Rightarrow> symbol_kind list \<Rightarrow> symbol option outcome" where
  "enclosing_symbol_at ds byte_offset kinds =
     (let upper = partition_point
            (\<lambda>i. br_start (sym_byte_range (symbols ds ! i)) \<le> byte_offset) (by_start_byte ds)
      in if upper = 0 then Returns None
         else obind (of_loop (enclosing_walk
                (\<lambda>s. byte_offset \<le> br_end (sym_byte_range s) \<and> sym_kind s \<in> set kinds)
                (symbols ds) (by_start_byte ds ! (upper - 1)))) (\<lambda>r. r))"

text \<open>\<open>ids.iter().map(|id| &self.symbols[id.0]).find(p)\<close>.\<close>

fun find_id :: "(symbol \<Rightarrow> bool) \<Rightarrow> symbol list \<Rightarrow> symbol_id list \<Rightarrow> symbol option outcome" where
  "find_id P syms [] = Returns None"
| "find_id P syms (i # is) =
     obind (or_panic (vget syms i)) (\<lambda>s. if P s then Returns (Some s) else find_id P syms is)"

definition prefer_non_state :: "symbol list \<Rightarrow> symbol_id list \<Rightarrow> symbol option outcome" where
  "prefer_non_state syms ids =
     obind (find_id (\<lambda>s. sym_kind s \<noteq> State) syms ids) (\<lambda>r.
       case r of
         Some s \<Rightarrow> Returns (Some s)
       | None \<Rightarrow>
           (case ids of
              [] \<Rightarrow> Returns None
            | i # _ \<Rightarrow> obind (or_panic (vget syms i)) (\<lambda>s. Returns (Some s))))"

definition top_level_by_name :: "document_symbols \<Rightarrow> string \<Rightarrow> symbol option outcome" where
  "top_level_by_name ds name =
     (case hget (ds_top_level_by_name ds) name of
        None \<Rightarrow> Returns None
      | Some ids \<Rightarrow> prefer_non_state (symbols ds) ids)"

definition top_level_by_name_filtered ::
  "document_symbols \<Rightarrow> string \<Rightarrow> (symbol_kind \<Rightarrow> bool) \<Rightarrow> symbol option outcome" where
  "top_level_by_name_filtered ds name accept =
     (case hget (ds_top_level_by_name ds) name of
        None \<Rightarrow> Returns None
      | Some ids \<Rightarrow> find_id (\<lambda>s. accept (sym_kind s)) (symbols ds) ids)"

definition type_by_name :: "document_symbols \<Rightarrow> string \<Rightarrow> symbol option outcome" where
  "type_by_name ds name =
     (case hget (ds_type_by_name ds) name of
        None \<Rightarrow> Returns None
      | Some ids \<Rightarrow> prefer_non_state (symbols ds) ids)"

definition type_by_name_filtered ::
  "document_symbols \<Rightarrow> string \<Rightarrow> (symbol_kind \<Rightarrow> bool) \<Rightarrow> symbol option outcome" where
  "type_by_name_filtered ds name accept =
     (case hget (ds_type_by_name ds) name of
        None \<Rightarrow> Returns None
      | Some ids \<Rightarrow> find_id (\<lambda>s. accept (sym_kind s)) (symbols ds) ids)"

definition member_of :: "document_symbols \<Rightarrow> symbol_id \<Rightarrow> string \<Rightarrow> symbol list outcome" where
  "member_of ds cont name =
     traverse (\<lambda>i. or_panic (vget (symbols ds) i))
       (nested_bucket (members_by_container ds) (cont, name))"

definition local_at_byte :: "document_symbols \<Rightarrow> symbol_id \<Rightarrow> string \<Rightarrow> nat \<Rightarrow> symbol option outcome" where
  "local_at_byte ds fn name before_byte =
     find_id (\<lambda>s. br_start (selection_byte_range s) \<le> before_byte) (symbols ds)
       (rev (nested_bucket (locals_in_function ds) (fn, name)))"

definition set_origin :: "symbol_origin \<Rightarrow> document_symbols \<Rightarrow> document_symbols" where
  "set_origin org ds = ds\<lparr>symbols := map (\<lambda>s. s\<lparr>origin := org\<rparr>) (symbols ds)\<rparr>"

definition ds_push :: "symbol \<Rightarrow> document_symbols \<Rightarrow> symbol_id \<times> document_symbols" where
  "ds_push s ds =
     (let i = length (symbols ds)
      in (i, ds\<lparr>symbols := symbols ds @ [s\<lparr>sym_id := i\<rparr>]\<rparr>))"

partial_function (option) enclosing_callable_loop :: "symbol list \<Rightarrow> symbol_id \<Rightarrow> symbol_id option option" where
  "enclosing_callable_loop syms current =
     (case vget syms current of
        None \<Rightarrow> Some None
      | Some own \<Rightarrow>
          if is_callable (sym_kind own) then Some (Some current)
          else (case container own of
                  None \<Rightarrow> Some None
                | Some c \<Rightarrow> enclosing_callable_loop syms c))"

definition enclosing_callable_id :: "symbol list \<Rightarrow> symbol \<Rightarrow> symbol_id option outcome" where
  "enclosing_callable_id syms s =
     (case container s of None \<Rightarrow> Returns None | Some c \<Rightarrow> of_loop (enclosing_callable_loop syms c))"

subsection \<open>Building the indexes\<close>

text \<open>The body of the first loop of \<open>build_indexes\<close>.\<close>

definition index_symbol :: "symbol \<Rightarrow> document_symbols \<Rightarrow> document_symbols" where
  "index_symbol s ds =
     (let ds1 =
        (case container s of
           None \<Rightarrow>
             if annotation_target_class_safe s \<noteq> None then ds
             else ds\<lparr>ds_top_level_by_name := entry_push (type_name s) (sym_id s) (ds_top_level_by_name ds)\<rparr>
         | Some c \<Rightarrow>
             ds\<lparr>members_by_container := nested_push (c, sym_name s) (sym_id s) (members_by_container ds)\<rparr>)
      in if is_object_type (sym_kind s)
         then ds1\<lparr>ds_type_by_name := entry_push (type_name s) (sym_id s) (ds_type_by_name ds1)\<rparr>
         else ds1)"

text \<open>The second loop: locals and parameters under their enclosing callable.\<close>

fun index_locals ::
  "symbol list \<Rightarrow> symbol list \<Rightarrow> (symbol_id, string, symbol_id) nested_buckets
   \<Rightarrow> (symbol_id, string, symbol_id) nested_buckets outcome" where
  "index_locals all [] m = Returns m"
| "index_locals all (s # ss) m =
     (if sym_kind s \<notin> {Variable, Parameter} then index_locals all ss m
      else
        obind (enclosing_callable_id all s) (\<lambda>r.
          case r of
            None \<Rightarrow> index_locals all ss m
          | Some fn \<Rightarrow> index_locals all ss (nested_push (fn, sym_name s) (sym_id s) m)))"

text \<open>\<open>ids.sort_by_key(|id| self.symbols[id.0].selection_byte_range.start)\<close>: a stable sort whose
  key function indexes the table when there is anything to compare.\<close>

definition sort_ids :: "symbol list \<Rightarrow> symbol_id list \<Rightarrow> symbol_id list outcome" where
  "sort_ids syms ids =
     (if 2 \<le> length ids \<and> (\<exists>i \<in> set ids. length syms \<le> i) then Panic
      else Returns (sort_key (\<lambda>i. br_start (selection_byte_range (syms ! i))) ids))"

definition sort_locals ::
  "symbol list \<Rightarrow> (symbol_id, string, symbol_id) nested_buckets
   \<Rightarrow> (symbol_id, string, symbol_id) nested_buckets outcome" where
  "sort_locals syms m =
     traverse (\<lambda>(fn, by_name).
       obind (traverse (\<lambda>(n, ids). obind (sort_ids syms ids) (\<lambda>ids'. Returns (n, ids'))) by_name)
         (\<lambda>by_name'. Returns (fn, by_name'))) m"

definition build_indexes :: "document_symbols \<Rightarrow> document_symbols outcome" where
  "build_indexes ds =
     (let by_start = sort_key (\<lambda>i. br_start (sym_byte_range (symbols ds ! i))) [0..<length (symbols ds)];
          ds1 = fold index_symbol (symbols ds) (ds\<lparr>by_start_byte := by_start\<rparr>)
      in obind (index_locals (symbols ds) (symbols ds) (locals_in_function ds1)) (\<lambda>m.
         obind (sort_locals (symbols ds) m) (\<lambda>m'.
         Returns (ds1\<lparr>locals_in_function := m'\<rparr>))))"

subsection \<open>The specifier bitset is a set\<close>

text \<open>The interface of a set of flags, and what a loop that collects flags builds.\<close>

locale flag_set =
  fixes none :: "'s"
    and ins :: "'f \<Rightarrow> 's \<Rightarrow> 's"
    and has :: "'s \<Rightarrow> 'f \<Rightarrow> bool"
  assumes has_none: "\<not> has none x"
    and has_ins: "has (ins x s) y \<longleftrightarrow> x = y \<or> has s y"
begin

lemma has_collect: "has (fold ins xs s) y \<longleftrightarrow> y \<in> set xs \<or> has s y"
  by (induction xs arbitrary: s) (auto simp: has_ins)

lemma has_collected: "has (fold ins xs none) y \<longleftrightarrow> y \<in> set xs"
  by (simp add: has_collect has_none)

end

lemma discriminant_inj: "discriminant x = discriminant y \<Longrightarrow> x = y"
  by (cases x; cases y) simp_all

lemma discriminant_less: "discriminant x < 16"
  by (cases x) simp_all

lemma and_single_bit: "(s :: u16) AND push_bit n 1 \<noteq> 0 \<longleftrightarrow> bit s n"
proof -
  have "s AND push_bit n 1 = (if bit s n then push_bit n 1 else 0)"
    by (rule bit_word_eqI) (auto simp: bit_simps)
  moreover have "bit s n \<Longrightarrow> push_bit n 1 \<noteq> (0 :: u16)"
    using bit_imp_le_length [of s n] by (simp add: push_bit_eq_mult)
  ultimately show ?thesis by auto
qed

lemma specifiers_contains_bit: "specifiers_contains s x \<longleftrightarrow> bit s (discriminant x)"
  unfolding specifiers_contains_def by (rule and_single_bit)

interpretation specifier_flags: flag_set specifiers_default specifiers_insert specifiers_contains
proof
  fix x y :: specifier and s :: specifiers
  show "\<not> specifiers_contains specifiers_default x"
    by (simp add: specifiers_contains_bit specifiers_default_def)
  show "specifiers_contains (specifiers_insert x s) y \<longleftrightarrow> x = y \<or> specifiers_contains s y"
    using discriminant_less [of y]
    by (auto simp: specifiers_contains_bit specifiers_insert_def bit_simps dest: discriminant_inj)
qed

lemma specifier_keyword_inverse: "specifier_from_keyword k = Some x \<longleftrightarrow> specifier_as_keyword x = k"
  by (cases x) (auto simp: specifier_from_keyword_def split: if_splits)

lemma flavour_keyword_inverse: "flavour_from_keyword k = Some x \<longleftrightarrow> flavour_as_keyword x = k"
  by (cases x) (auto simp: flavour_from_keyword_def split: if_splits)

subsection \<open>The symbol table\<close>

text \<open>Symbol ids are table indexes, and containers come before what they contain.\<close>

definition table_ok :: "symbol list \<Rightarrow> bool" where
  "table_ok syms \<longleftrightarrow>
     (\<forall>i < length syms. sym_id (syms ! i) = i \<and> (\<forall>c. container (syms ! i) = Some c \<longrightarrow> c < i))"

lemma table_okD:
  assumes "table_ok syms" "i < length syms"
  shows "sym_id (syms ! i) = i" "container (syms ! i) = Some c \<Longrightarrow> c < i"
  using assms by (auto simp: table_ok_def)

lemma table_ok_vget: "table_ok syms \<Longrightarrow> s \<in> set syms \<Longrightarrow> vget syms (sym_id s) = Some s"
  by (auto simp: table_ok_def in_set_conv_nth)

lemma table_ok_Nil [simp]: "table_ok []"
  by (simp add: table_ok_def)

lemma table_ok_push:
  assumes "table_ok (symbols ds)" "\<And>c. container s = Some c \<Longrightarrow> c < length (symbols ds)"
  shows "table_ok (symbols (snd (ds_push s ds)))"
  using assms by (auto simp: table_ok_def ds_push_def Let_def nth_append less_Suc_eq)

text \<open>The symbol \<open>i\<close> and its containers, innermost first.\<close>

function chain :: "symbol list \<Rightarrow> symbol_id \<Rightarrow> symbol list" where
  "chain syms i =
     (if i < length syms
      then syms ! i # (case container (syms ! i) of
                         Some c \<Rightarrow> if c < i then chain syms c else []
                       | None \<Rightarrow> [])
      else [])"
  by pat_completeness auto
termination
  by (relation "measure snd") auto

declare chain.simps [simp del]

lemma chain_subset: "s \<in> set (chain syms i) \<Longrightarrow> s \<in> set syms"
proof (induction syms i rule: chain.induct)
  case (1 syms i)
  show ?case
  proof (cases "container (syms ! i)")
    case None
    with "1.prems" show ?thesis by (auto simp: chain.simps [of syms i] split: if_splits)
  next
    case (Some c)
    with "1.prems" "1.IH" [of c] show ?thesis
      by (auto simp: chain.simps [of syms i] split: if_splits)
  qed
qed

lemma chain_container:
  assumes "table_ok syms" "i < length syms" "container (syms ! i) = Some c"
  shows "chain syms i = syms ! i # chain syms c"
  using assms table_okD(2) [OF assms(1,2,3)] by (simp add: chain.simps [of syms i])

lemma chain_root: "i < length syms \<Longrightarrow> container (syms ! i) = None \<Longrightarrow> chain syms i = [syms ! i]"
  by (simp add: chain.simps [of syms i])

lemma enclosing_walk_chain:
  "table_ok syms \<Longrightarrow> i < length syms \<Longrightarrow>
   enclosing_walk hit syms i = Some (Returns (find hit (chain syms i)))"
proof (induction i rule: less_induct)
  case (less i)
  show ?case
  proof (cases "container (syms ! i)")
    case None
    then show ?thesis
      using less.prems by (simp add: enclosing_walk.simps [of hit syms i] vget_def chain_root)
  next
    case (Some c)
    then have "c < i" using less.prems table_okD(2) by blast
    with less Some show ?thesis
      by (simp add: enclosing_walk.simps [of hit syms i] vget_def chain_container)
  qed
qed

lemma enclosing_callable_chain:
  "table_ok syms \<Longrightarrow> i < length syms \<Longrightarrow>
   enclosing_callable_loop syms i =
     Some (map_option sym_id (find (\<lambda>s. is_callable (sym_kind s)) (chain syms i)))"
proof (induction i rule: less_induct)
  case (less i)
  show ?case
  proof (cases "container (syms ! i)")
    case None
    then show ?thesis
      using less.prems table_okD(1) [OF less.prems]
      by (simp add: enclosing_callable_loop.simps [of syms i] vget_def chain_root)
  next
    case (Some c)
    then have "c < i" using less.prems table_okD(2) by blast
    with less Some show ?thesis
      using table_okD(1) [OF less.prems]
      by (simp add: enclosing_callable_loop.simps [of syms i] vget_def chain_container)
  qed
qed

text \<open>The callable a symbol is local to.\<close>

definition callable_of :: "symbol list \<Rightarrow> symbol \<Rightarrow> symbol_id option" where
  "callable_of syms s =
     (case container s of
        None \<Rightarrow> None
      | Some c \<Rightarrow> map_option sym_id (find (\<lambda>s. is_callable (sym_kind s)) (chain syms c)))"

lemma enclosing_callable_id_value:
  assumes "table_ok syms" "s \<in> set syms"
  shows "enclosing_callable_id syms s = Returns (callable_of syms s)"
proof -
  obtain i where i: "i < length syms" "s = syms ! i"
    using assms(2) by (auto simp: in_set_conv_nth)
  have "container s = Some c \<Longrightarrow> c < length syms" for c
    using i table_okD(2) [OF assms(1) i(1)] by (metis less_trans)
  then show ?thesis
    by (auto simp: enclosing_callable_id_def callable_of_def enclosing_callable_chain assms(1)
        split: option.splits)
qed

lemma find_id_value:
  assumes "table_ok syms" "set ss \<subseteq> set syms"
  shows "find_id P syms (map sym_id ss) = Returns (find P ss)"
  using assms(2) by (induction ss) (simp_all add: table_ok_vget [OF assms(1)])

lemma prefer_non_state_value:
  assumes "table_ok syms" "set ss \<subseteq> set syms"
  shows "prefer_non_state syms (map sym_id ss) =
    Returns (or_else (find (\<lambda>s. sym_kind s \<noteq> State) ss) (vfirst ss))"
  using assms
  by (cases ss) (auto simp: prefer_non_state_def find_id_value vfirst_def table_ok_vget
      split: option.splits)

subsection \<open>What the indexes hold\<close>

definition is_top_level :: "symbol \<Rightarrow> bool" where
  "is_top_level s \<longleftrightarrow> container s = None \<and> annotation_target_class_safe s = None"

definition is_local :: "symbol \<Rightarrow> bool" where
  "is_local s \<longleftrightarrow> sym_kind s \<in> {Variable, Parameter}"

lemma index_symbol_top_level:
  "ds_top_level_by_name (index_symbol s ds) =
     fold (\<lambda>c. entry_push (fst c) (snd c))
       (if is_top_level s then [(type_name s, sym_id s)] else []) (ds_top_level_by_name ds)"
  by (auto simp: index_symbol_def Let_def is_top_level_def split: option.splits)

lemma index_symbol_types:
  "ds_type_by_name (index_symbol s ds) =
     fold (\<lambda>c. entry_push (fst c) (snd c))
       (if is_object_type (sym_kind s) then [(type_name s, sym_id s)] else []) (ds_type_by_name ds)"
  by (auto simp: index_symbol_def Let_def split: option.splits)

lemma index_symbol_members:
  "members_by_container (index_symbol s ds) =
     fold (\<lambda>c. nested_push (fst c) (snd c))
       (if container s \<noteq> None then [((the (container s), sym_name s), sym_id s)] else [])
       (members_by_container ds)"
  by (auto simp: index_symbol_def Let_def split: option.splits)

lemma index_symbol_frame [simp]:
  "symbols (index_symbol s ds) = symbols ds"
  "by_start_byte (index_symbol s ds) = by_start_byte ds"
  "locals_in_function (index_symbol s ds) = locals_in_function ds"
  by (auto simp: index_symbol_def Let_def split: option.splits)

lemma index_locals_value:
  assumes "table_ok all" "set ss \<subseteq> set all"
  shows "index_locals all ss m = Returns
    (fold (\<lambda>c. nested_push (fst c) (snd c))
      (concat (map (\<lambda>s. if is_local s \<and> callable_of all s \<noteq> None
                        then [((the (callable_of all s), sym_name s), sym_id s)] else []) ss)) m)"
  using assms(2)
  by (induction ss arbitrary: m)
    (auto simp: enclosing_callable_id_value [OF assms(1)] is_local_def split: option.splits)

definition sorted_locals ::
  "symbol list \<Rightarrow> (symbol_id, string, symbol_id) nested_buckets
   \<Rightarrow> (symbol_id, string, symbol_id) nested_buckets" where
  "sorted_locals syms m =
     map (\<lambda>(fn, by_name). (fn, map (\<lambda>(n, ids).
       (n, sort_key (\<lambda>i. br_start (selection_byte_range (syms ! i))) ids)) by_name)) m"

lemma hget_map_values: "hget (map (\<lambda>(k, v). (k, f v)) m) k = map_option f (hget m k)"
  by (induction m) auto

lemma nested_bucket_sorted_locals:
  "nested_bucket (sorted_locals syms m) k =
     sort_key (\<lambda>i. br_start (selection_byte_range (syms ! i))) (nested_bucket m k)"
  by (auto simp: nested_bucket_def sorted_locals_def hget_map_values bucket_def split: option.splits)

lemma sort_locals_value:
  assumes "\<And>fn by_name n ids i. (fn, by_name) \<in> set m \<Longrightarrow> (n, ids) \<in> set by_name \<Longrightarrow> i \<in> set ids \<Longrightarrow>
    i < length syms"
  shows "sort_locals syms m = Returns (sorted_locals syms m)"
proof -
  have ids: "sort_ids syms ids =
      Returns (sort_key (\<lambda>i. br_start (selection_byte_range (syms ! i))) ids)"
    if "(fn, by_name) \<in> set m" "(n, ids) \<in> set by_name" for fn by_name n ids
    using assms [OF that] by (fastforce simp: sort_ids_def)
  have inner: "traverse (\<lambda>(n, ids). obind (sort_ids syms ids) (\<lambda>ids'. Returns (n, ids'))) by_name =
      Returns (map (\<lambda>(n, ids). (n, sort_key (\<lambda>i. br_start (selection_byte_range (syms ! i))) ids)) by_name)"
    if "(fn, by_name) \<in> set m" for fn by_name
    by (rule traverse_Returns) (auto simp: ids [OF that])
  show ?thesis
    unfolding sort_locals_def sorted_locals_def
    by (rule traverse_Returns) (auto simp: inner)
qed

lemma nested_entry_bucket:
  assumes "nested_ok m" "(a, inner) \<in> set m" "(b, vs) \<in> set inner"
  shows "nested_bucket m (a, b) = vs"
proof -
  have a: "hget m a = Some inner"
    using assms(1,2) by (simp add: nested_ok_def)
  then have "buckets_ok inner" using assms(1) by (rule nested_ok_inner [rotated])
  then have "hget inner b = Some vs"
    using assms(3) by (simp add: buckets_ok_def)
  with a show ?thesis by (simp add: nested_bucket_def bucket_def)
qed

text \<open>A table as the extractor hands it to \<open>build_indexes\<close>: symbols pushed, no index yet.\<close>

definition unindexed :: "symbol list \<Rightarrow> document_symbols" where
  "unindexed syms = DocumentSymbols_default\<lparr>symbols := syms\<rparr>"

definition locals_contrib :: "symbol list \<Rightarrow> ((symbol_id \<times> string) \<times> symbol_id) list" where
  "locals_contrib syms =
     concat (map (\<lambda>s. if is_local s \<and> callable_of syms s \<noteq> None
                      then [((the (callable_of syms s), sym_name s), sym_id s)] else []) syms)"

definition locals_raw :: "symbol list \<Rightarrow> (symbol_id, string, symbol_id) nested_buckets" where
  "locals_raw syms = fold (\<lambda>c. nested_push (fst c) (snd c)) (locals_contrib syms) []"

lemma locals_raw_bucket:
  "nested_bucket (locals_raw syms) (fn, n) =
     map sym_id (filter (\<lambda>s. is_local s \<and> callable_of syms s = Some fn \<and> sym_name s = n) syms)"
proof -
  have "nested_bucket (locals_raw syms) (fn, n) = contrib (locals_contrib syms) (fn, n)"
    by (simp add: locals_raw_def nested.view_push_all)
  also have "\<dots> = map sym_id (filter (\<lambda>s. (is_local s \<and> callable_of syms s \<noteq> None) \<and>
      (the (callable_of syms s), sym_name s) = (fn, n)) syms)"
    unfolding locals_contrib_def by (rule contrib_singleton_map)
  also have "\<dots> = map sym_id (filter (\<lambda>s. is_local s \<and> callable_of syms s = Some fn \<and> sym_name s = n) syms)"
    by (rule arg_cong [of _ _ "map sym_id"]) (rule filter_cong, auto)
  finally show ?thesis .
qed

lemma locals_raw_in_range:
  assumes "table_ok syms" "(fn, by_name) \<in> set (locals_raw syms)" "(n, ids) \<in> set by_name"
    "i \<in> set ids"
  shows "i < length syms"
proof -
  have "nested_ok (locals_raw syms)"
    unfolding locals_raw_def by (rule nested.ok_push_all) simp
  then have "ids = nested_bucket (locals_raw syms) (fn, n)"
    using assms nested_entry_bucket by metis
  with assms(1,4) show ?thesis
    by (auto simp: locals_raw_bucket table_ok_def in_set_conv_nth)
qed

lemma build_indexes_value:
  assumes "table_ok syms"
  obtains ds where "build_indexes (unindexed syms) = Returns ds"
    and "symbols ds = syms"
    and "by_start_byte ds = sort_key (\<lambda>i. br_start (sym_byte_range (syms ! i))) [0..<length syms]"
    and "\<And>n. bucket (ds_top_level_by_name ds) n =
          map sym_id (filter (\<lambda>s. is_top_level s \<and> type_name s = n) syms)"
    and "\<And>n. bucket (ds_type_by_name ds) n =
          map sym_id (filter (\<lambda>s. is_object_type (sym_kind s) \<and> type_name s = n) syms)"
    and "\<And>c n. nested_bucket (members_by_container ds) (c, n) =
          map sym_id (filter (\<lambda>s. container s = Some c \<and> sym_name s = n) syms)"
    and "locals_in_function ds = sorted_locals syms (locals_raw syms)"
proof -
  define d0 where "d0 = (unindexed syms)\<lparr>by_start_byte :=
      sort_key (\<lambda>i. br_start (sym_byte_range (syms ! i))) [0..<length syms]\<rparr>"
  define d1 where "d1 = fold index_symbol syms d0"
  have frame: "symbols d1 = syms" "by_start_byte d1 = by_start_byte d0" "locals_in_function d1 = []"
    unfolding d1_def
    by (simp_all add: fold_frame [of symbols index_symbol] fold_frame [of by_start_byte index_symbol]
        fold_frame [of locals_in_function index_symbol] d0_def unindexed_def
        DocumentSymbols_default_def)
  have locals: "index_locals syms syms [] = Returns (locals_raw syms)"
    using index_locals_value [OF assms, of syms "[]"] by (simp add: locals_raw_def locals_contrib_def)
  have "sort_locals syms (locals_raw syms) = Returns (sorted_locals syms (locals_raw syms))"
    using locals_raw_in_range [OF assms] by (rule sort_locals_value)
  then have res: "build_indexes (unindexed syms) =
      Returns (d1\<lparr>locals_in_function := sorted_locals syms (locals_raw syms)\<rparr>)"
    using locals frame
    by (simp add: build_indexes_def Let_def d0_def d1_def unindexed_def)
  have top: "bucket (ds_top_level_by_name d1) n =
      map sym_id (filter (\<lambda>s. is_top_level s \<and> type_name s = n) syms)" for n
    unfolding d1_def fold_project [of ds_top_level_by_name, OF index_symbol_top_level]
      flat.view_push_all contrib_singleton_map
    by (simp add: d0_def unindexed_def DocumentSymbols_default_def)
  have types: "bucket (ds_type_by_name d1) n =
      map sym_id (filter (\<lambda>s. is_object_type (sym_kind s) \<and> type_name s = n) syms)" for n
    unfolding d1_def fold_project [of ds_type_by_name, OF index_symbol_types]
      flat.view_push_all contrib_singleton_map
    by (simp add: d0_def unindexed_def DocumentSymbols_default_def)
  have members: "nested_bucket (members_by_container d1) (c, n) =
      map sym_id (filter (\<lambda>s. container s = Some c \<and> sym_name s = n) syms)" for c n
    unfolding d1_def fold_project [of members_by_container, OF index_symbol_members]
      nested.view_push_all contrib_singleton_map
    by (auto simp: d0_def unindexed_def DocumentSymbols_default_def
        intro!: arg_cong [of _ _ "map sym_id"] filter_cong)
  show thesis
    by (rule that [OF res]) (simp_all add: frame top types members d0_def)
qed

lemma find_rev_sorted:
  assumes "sorted (map f xs)" "find P (rev xs) = Some x" "y \<in> set xs" "P y"
  shows "f y \<le> f x"
proof -
  obtain i where i: "i < length xs" "x = rev xs ! i" "\<forall>j < i. \<not> P (rev xs ! j)"
    using assms(2) by (auto simp: find_Some_iff)
  obtain j where j: "j < length xs" "y = rev xs ! j"
    using assms(3) by (metis in_set_conv_nth length_rev set_rev)
  have "i \<le> j" using i(3) j assms(4) by (metis not_le_imp_less)
  then have "f (xs ! (length xs - Suc j)) \<le> f (xs ! (length xs - Suc i))"
    using assms(1) i(1) j(1) by (auto simp: sorted_iff_nth_mono)
  with i j show ?thesis by (simp add: rev_nth)
qed

lemma local_at_byte_value:
  assumes ok: "table_ok syms" and ds: "symbols ds = syms"
    "locals_in_function ds = sorted_locals syms (locals_raw syms)"
  obtains ss where "local_at_byte ds fn n b =
      Returns (find (\<lambda>s. br_start (selection_byte_range s) \<le> b) (rev ss))"
    and "set ss = {s \<in> set syms. is_local s \<and> callable_of syms s = Some fn \<and> sym_name s = n}"
    and "sorted (map (\<lambda>s. br_start (selection_byte_range s)) ss)"
proof -
  let ?k = "\<lambda>i. br_start (selection_byte_range (syms ! i))"
  let ?L = "filter (\<lambda>s. is_local s \<and> callable_of syms s = Some fn \<and> sym_name s = n) syms"
  define ids where "ids = sort_key ?k (map sym_id ?L)"
  define ss where "ss = map ((!) syms) ids"
  have nth_id: "s \<in> set syms \<Longrightarrow> syms ! sym_id s = s \<and> sym_id s < length syms" for s
    using table_ok_vget [OF ok] by auto
  have "set ss = (\<lambda>s. syms ! sym_id s) ` set ?L"
    by (simp add: ss_def ids_def image_image)
  also have "\<dots> = (\<lambda>s. s) ` set ?L"
    by (rule image_cong [OF refl]) (simp add: nth_id)
  finally have set_ss: "set ss = set ?L" by simp
  have range: "\<forall>i \<in> set ids. i < length syms"
    using nth_id by (auto simp: ids_def)
  have "map sym_id ss = map (\<lambda>i. sym_id (syms ! i)) ids"
    by (simp add: ss_def)
  also have "\<dots> = map (\<lambda>i. i) ids"
    using range by (intro map_cong) (auto simp: table_okD(1) [OF ok])
  finally have ids: "ids = map sym_id ss" by simp
  have sub: "set (rev ss) \<subseteq> set syms" using set_ss by auto
  have "local_at_byte ds fn n b =
      find_id (\<lambda>s. br_start (selection_byte_range s) \<le> b) syms (rev ids)"
    by (simp add: local_at_byte_def ds nested_bucket_sorted_locals locals_raw_bucket ids_def)
  also have "\<dots> = Returns (find (\<lambda>s. br_start (selection_byte_range s) \<le> b) (rev ss))"
    using find_id_value [OF ok sub] by (simp add: ids rev_map)
  finally show thesis
    using set_ss sorted_sort_key [of ?k "map sym_id ?L"]
    by (intro that [of ss]) (auto simp: ss_def ids_def comp_def)
qed

subsection \<open>Innermost enclosing symbols\<close>

lemma set_by_start: "set (sort_key f [0..<n]) = {..<n}"
  by auto

lemma chain_start_le:
  assumes ok: "table_ok syms"
    and nest: "\<And>i c. i < length syms \<Longrightarrow> container (syms ! i) = Some c \<Longrightarrow>
      br_start (sym_byte_range (syms ! c)) \<le> br_start (sym_byte_range (syms ! i))"
  shows "i < length syms \<Longrightarrow> s \<in> set (chain syms i) \<Longrightarrow>
    br_start (sym_byte_range s) \<le> br_start (sym_byte_range (syms ! i))"
proof (induction i rule: less_induct)
  case (less i)
  show ?case
  proof (cases "container (syms ! i)")
    case None
    with less.prems show ?thesis by (simp add: chain_root)
  next
    case (Some c)
    then have c: "c < i" using table_okD(2) [OF ok less.prems(1)] by simp
    with less.prems Some have "s = syms ! i \<or> s \<in> set (chain syms c)"
      by (simp add: chain_container [OF ok])
    with less.IH [OF c] c less.prems nest [OF less.prems(1) Some] show ?thesis by fastforce
  qed
qed

text \<open>The last symbol in start order that starts at or before the offset, if there is one.\<close>

lemma last_started:
  fixes syms b
  defines "start \<equiv> (\<lambda>i. br_start (sym_byte_range (syms ! i)))"
  defines "order \<equiv> sort_key start [0..<length syms]"
  defines "upper \<equiv> partition_point (\<lambda>i. start i \<le> b) order"
  shows "upper = 0 \<Longrightarrow> i < length syms \<Longrightarrow> b < start i"
    and "upper \<noteq> 0 \<Longrightarrow> order ! (upper - 1) < length syms \<and> start (order ! (upper - 1)) \<le> b"
    and "upper \<noteq> 0 \<Longrightarrow> i < length syms \<Longrightarrow> start i \<le> b \<Longrightarrow> start i \<le> start (order ! (upper - 1))"
proof -
  have len: "length order = length syms" by (simp add: order_def)
  have sorted: "sorted (map start order)" by (simp add: order_def)
  have bound: "upper \<le> length order" unfolding upper_def by (rule partition_point_le)
  have late: "b < start (order ! j)" if "upper \<le> j" "j < length order" for j
  proof -
    have "upper < length order" using that by simp
    then have "b < start (order ! upper)"
      using partition_point_stop [of "\<lambda>i. start i \<le> b" order] by (simp add: upper_def)
    also have "start (order ! upper) \<le> start (order ! j)"
      using sorted that by (auto simp: sorted_iff_nth_mono)
    finally show ?thesis .
  qed
  have index: "\<exists>j. j < length order \<and> order ! j = i" if "i < length syms" for i
  proof -
    have "i \<in> set order" using that by (simp add: order_def)
    then show ?thesis by (simp add: in_set_conv_nth)
  qed
  show "upper = 0 \<Longrightarrow> i < length syms \<Longrightarrow> b < start i"
    using index late by fastforce
  assume pos: "upper \<noteq> 0"
  then have "order ! (upper - 1) \<in> set order" using bound by simp
  then show "order ! (upper - 1) < length syms \<and> start (order ! (upper - 1)) \<le> b"
    using partition_point_prefix [of "upper - 1" "\<lambda>i. start i \<le> b" order] pos
    by (simp add: upper_def order_def)
  assume i: "i < length syms" "start i \<le> b"
  then obtain j where j: "j < length order" "order ! j = i" using index by blast
  with i late have "j < upper" by (meson not_le)
  with pos j bound sorted show "start i \<le> start (order ! (upper - 1))"
    by (force simp: sorted_iff_nth_mono)
qed

end
