(* ===== verification/Symbol_Lookup.thy ===== *)
theory Symbol_Lookup
  imports Script_Symbols
begin

text \<open>
  What the lookups of \<open>DocumentSymbols\<close> (\<^verbatim>\<open>src/symbols/types.rs\<close>) return on a table that
  \<open>build_indexes\<close> has indexed, and the properties of the symbol component.
\<close>

subsection \<open>Lookups through the indexes\<close>

lemma prefer_non_state_Nil: "prefer_non_state syms [] = Returns None"
  by (simp add: prefer_non_state_def)

lemma top_level_by_name_bucket:
  "top_level_by_name ds n = prefer_non_state (symbols ds) (bucket (ds_top_level_by_name ds) n)"
  by (simp add: top_level_by_name_def prefer_non_state_Nil bucket_def split: option.splits)

lemma type_by_name_bucket:
  "type_by_name ds n = prefer_non_state (symbols ds) (bucket (ds_type_by_name ds) n)"
  by (simp add: type_by_name_def prefer_non_state_Nil bucket_def split: option.splits)

lemma top_level_filtered_bucket:
  "top_level_by_name_filtered ds n accept =
     find_id (\<lambda>s. accept (sym_kind s)) (symbols ds) (bucket (ds_top_level_by_name ds) n)"
  by (simp add: top_level_by_name_filtered_def bucket_def split: option.splits)

lemma type_filtered_bucket:
  "type_by_name_filtered ds n accept =
     find_id (\<lambda>s. accept (sym_kind s)) (symbols ds) (bucket (ds_type_by_name ds) n)"
  by (simp add: type_by_name_filtered_def bucket_def split: option.splits)

lemma find_filter: "find P (filter Q xs) = find (\<lambda>x. Q x \<and> P x) xs"
  by (induction xs) auto

lemma ids_value:
  assumes "table_ok syms" "set ss \<subseteq> set syms"
  shows "traverse (\<lambda>i. or_panic (vget syms i)) (map sym_id ss) = Returns ss"
  using assms(2) by (induction ss) (simp_all add: table_ok_vget [OF assms(1)])

definition sample_table :: "symbol list" where
  "sample_table =
     [sample_symbol 0 ''C'' Class 0 60 None,
      sample_symbol 1 ''M'' Method 10 50 (Some 0),
      sample_symbol 2 ''x'' Variable 20 21 (Some 1),
      sample_symbol 3 ''x'' Variable 30 31 (Some 1)]"

lemma sample_table_ok: "table_ok sample_table"
  by (auto simp: table_ok_def sample_table_def sample_symbol_def less_Suc_eq numeral_eq_Suc)

subsection \<open>Properties\<close>

text \<open>
  The specifier bitset is a set.  Inserting flags in any order and any number of times gives
  a bitset that contains exactly those flags, whose iteration lists each of them once in render
  order, and that depends only on the set of flags inserted.
\<close>

theorem specifiers_are_a_set:
  "(\<forall>x. specifiers_contains (fold specifiers_insert xs specifiers_default) x \<longleftrightarrow> x \<in> set xs) \<and>
   specifiers_iter (fold specifiers_insert xs specifiers_default) = filter (\<lambda>x. x \<in> set xs) RENDER_ORDER \<and>
   set (specifiers_iter (fold specifiers_insert xs specifiers_default)) = set xs \<and>
   distinct (specifiers_iter (fold specifiers_insert xs specifiers_default))"
proof -
  have "set RENDER_ORDER = UNIV" "distinct RENDER_ORDER"
    using specifier.exhaust by (auto simp: RENDER_ORDER_def)
  then show ?thesis
    by (auto simp: specifier_flags.has_collected specifiers_iter_def cong: filter_cong)
qed

text \<open>
  C16: on a table whose ids are indexes and whose containers precede their contents,
  \<open>build_indexes\<close> returns, and every lookup through the indexes agrees with a scan of the table:
  top-level and type lookups prefer the first declaration that is not a state, the filtered ones
  return the first of an accepted kind, and \<open>member_of\<close> returns every member in source order.
\<close>

theorem indexed_lookups_are_scans:
  assumes ok: "table_ok syms"
  shows "\<exists>ds. build_indexes (unindexed syms) = Returns ds \<and> symbols ds = syms \<and>
    (\<forall>n. top_level_by_name ds n = Returns
       (let found = filter (\<lambda>s. is_top_level s \<and> type_name s = n) syms
        in or_else (find (\<lambda>s. sym_kind s \<noteq> State) found) (vfirst found))) \<and>
    (\<forall>n accept. top_level_by_name_filtered ds n accept = Returns
       (find (\<lambda>s. is_top_level s \<and> type_name s = n \<and> accept (sym_kind s)) syms)) \<and>
    (\<forall>n. type_by_name ds n = Returns
       (let found = filter (\<lambda>s. is_object_type (sym_kind s) \<and> type_name s = n) syms
        in or_else (find (\<lambda>s. sym_kind s \<noteq> State) found) (vfirst found))) \<and>
    (\<forall>n accept. type_by_name_filtered ds n accept = Returns
       (find (\<lambda>s. is_object_type (sym_kind s) \<and> type_name s = n \<and> accept (sym_kind s)) syms)) \<and>
    (\<forall>c n. member_of ds c n = Returns
       (filter (\<lambda>s. container s = Some c \<and> sym_name s = n) syms))"
proof -
  obtain ds where ds: "build_indexes (unindexed syms) = Returns ds" "symbols ds = syms"
    "by_start_byte ds = sort_key (\<lambda>i. br_start (sym_byte_range (syms ! i))) [0..<length syms]"
    "\<And>n. bucket (ds_top_level_by_name ds) n =
        map sym_id (filter (\<lambda>s. is_top_level s \<and> type_name s = n) syms)"
    "\<And>n. bucket (ds_type_by_name ds) n =
        map sym_id (filter (\<lambda>s. is_object_type (sym_kind s) \<and> type_name s = n) syms)"
    "\<And>c n. nested_bucket (members_by_container ds) (c, n) =
        map sym_id (filter (\<lambda>s. container s = Some c \<and> sym_name s = n) syms)"
    "locals_in_function ds = sorted_locals syms (locals_raw syms)"
    using build_indexes_value [OF ok] by blast
  have sub: "set (filter P syms) \<subseteq> set syms" for P by auto
  show ?thesis
    by (intro exI [of _ ds] conjI allI ds(1,2))
      (simp_all add: ds top_level_by_name_bucket type_by_name_bucket top_level_filtered_bucket
        type_filtered_bucket member_of_def find_id_value [OF ok sub] ids_value [OF ok sub]
        prefer_non_state_value [OF ok sub] find_filter Let_def conj_ac)
qed

theorem indexed_lookups_are_scans_witness:
  "\<exists>ds. build_indexes (unindexed sample_table) = Returns ds \<and>
     type_by_name ds ''C'' = Returns (Some (sample_symbol 0 ''C'' Class 0 60 None)) \<and>
     member_of ds 0 ''M'' = Returns [sample_symbol 1 ''M'' Method 10 50 (Some 0)]"
proof -
  have "filter (\<lambda>s. is_object_type (sym_kind s) \<and> type_name s = ''C'') sample_table =
      [sample_symbol 0 ''C'' Class 0 60 None]"
    "filter (\<lambda>s. container s = Some 0 \<and> sym_name s = ''M'') sample_table =
      [sample_symbol 1 ''M'' Method 10 50 (Some 0)]"
    by (simp_all add: sample_table_def sample_symbol_def is_object_type_def type_name_def)
  then show ?thesis
    using indexed_lookups_are_scans [OF sample_table_ok]
    by (fastforce simp: sample_symbol_def)
qed

text \<open>
  C17: \<open>local_at_byte\<close> on the built table returns, and what it returns is a declaration of that
  name, local to that callable, that starts at or before the offset and no earlier than any other
  such declaration; it returns nothing exactly when there is none.
\<close>

theorem local_at_byte_latest:
  assumes ok: "table_ok syms"
  shows "\<exists>ds r. build_indexes (unindexed syms) = Returns ds \<and> local_at_byte ds fn n b = Returns r \<and>
    (let visible = {s \<in> set syms. is_local s \<and> callable_of syms s = Some fn \<and> sym_name s = n \<and>
                      br_start (selection_byte_range s) \<le> b}
     in case r of
          None \<Rightarrow> visible = {}
        | Some s \<Rightarrow> s \<in> visible \<and>
            (\<forall>t \<in> visible. br_start (selection_byte_range t) \<le> br_start (selection_byte_range s)))"
proof -
  obtain ds where ds: "build_indexes (unindexed syms) = Returns ds" "symbols ds = syms"
    "locals_in_function ds = sorted_locals syms (locals_raw syms)"
    by (rule build_indexes_value [OF ok]) (rule that; assumption)
  obtain ss where ss: "local_at_byte ds fn n b =
      Returns (find (\<lambda>s. br_start (selection_byte_range s) \<le> b) (rev ss))"
    "set ss = {s \<in> set syms. is_local s \<and> callable_of syms s = Some fn \<and> sym_name s = n}"
    "sorted (map (\<lambda>s. br_start (selection_byte_range s)) ss)"
    using local_at_byte_value [OF ok ds(2,3)] by blast
  let ?r = "find (\<lambda>s. br_start (selection_byte_range s) \<le> b) (rev ss)"
  have "case ?r of
      None \<Rightarrow> \<forall>t \<in> set ss. \<not> br_start (selection_byte_range t) \<le> b
    | Some s \<Rightarrow> s \<in> set ss \<and> br_start (selection_byte_range s) \<le> b \<and>
        (\<forall>t \<in> set ss. br_start (selection_byte_range t) \<le> b \<longrightarrow>
          br_start (selection_byte_range t) \<le> br_start (selection_byte_range s))"
  proof (cases ?r)
    case None
    from None have "\<forall>t \<in> set ss. \<not> br_start (selection_byte_range t) \<le> b"
      by (simp add: find_None_iff)
    with None show ?thesis by simp
  next
    case (Some s)
    then show ?thesis
      using find_Some_in_set [OF Some] find_rev_sorted [OF ss(3) Some] by simp
  qed
  then show ?thesis
    by (intro exI [of _ ds] exI [of _ ?r] conjI ds(1) ss(1))
      (auto simp: ss(2) Let_def split: option.splits)
qed

theorem local_at_byte_latest_witness:
  "\<exists>ds. build_indexes (unindexed sample_table) = Returns ds \<and>
     local_at_byte ds 1 ''x'' 25 = Returns (Some (sample_symbol 2 ''x'' Variable 20 21 (Some 1)))"
proof -
  have vis: "{s \<in> set sample_table. is_local s \<and> callable_of sample_table s = Some 1 \<and>
      sym_name s = ''x'' \<and> br_start (selection_byte_range s) \<le> 25} =
      {sample_symbol 2 ''x'' Variable 20 21 (Some 1)}"
    by (auto simp: sample_table_def sample_symbol_def is_local_def callable_of_def chain.simps
        is_callable_def)
  show ?thesis
    using local_at_byte_latest [OF sample_table_ok, of 1 "''x''" 25]
    unfolding vis Let_def by (auto split: option.splits)
qed

text \<open>The first hit of a container chain is the innermost: every other hit is a container of it.\<close>

lemma find_chain_innermost:
  assumes "table_ok syms"
  shows "i < length syms \<Longrightarrow> find hit (chain syms i) = Some s \<Longrightarrow> t \<in> set (chain syms i) \<Longrightarrow> hit t \<Longrightarrow>
    t \<in> set (chain syms (sym_id s))"
proof (induction i rule: less_induct)
  case (less i)
  have id: "sym_id (syms ! i) = i" using table_okD(1) [OF assms less.prems(1)] .
  show ?case
  proof (cases "container (syms ! i)")
    case None
    with less.prems id show ?thesis by (auto simp: chain_root split: if_splits)
  next
    case (Some c)
    have c: "c < i" using table_okD(2) [OF assms less.prems(1) Some] .
    have ch: "chain syms i = syms ! i # chain syms c" by (rule chain_container [OF assms less.prems(1) Some])
    show ?thesis
    proof (cases "hit (syms ! i)")
      case True
      with less.prems id ch show ?thesis by auto
    next
      case False
      with less.prems(2-4) ch have "find hit (chain syms c) = Some s" "t \<in> set (chain syms c)" by auto
      then show ?thesis using less.IH [OF c] c less.prems(1,4) by simp
    qed
  qed
qed

text \<open>The walk of \<open>enclosing_symbol_at\<close> is a search of the container chain of the last symbol that
  starts at or before the offset, if any does.\<close>

lemma enclosing_symbol_at_chain:
  assumes ok: "table_ok syms" and ds: "symbols ds = syms"
    "by_start_byte ds = sort_key (\<lambda>i. br_start (sym_byte_range (syms ! i))) [0..<length syms]"
  obtains
    (before) "enclosing_symbol_at ds b kinds = Returns None" "\<forall>s \<in> set syms. b < br_start (sym_byte_range s)"
  | (after) i where "enclosing_symbol_at ds b kinds = Returns
        (find (\<lambda>s. b \<le> br_end (sym_byte_range s) \<and> sym_kind s \<in> set kinds) (chain syms i))"
      "i < length syms" "br_start (sym_byte_range (syms ! i)) \<le> b"
      "\<And>j. j < length syms \<Longrightarrow> br_start (sym_byte_range (syms ! j)) \<le> b \<Longrightarrow>
        br_start (sym_byte_range (syms ! j)) \<le> br_start (sym_byte_range (syms ! i))"
proof -
  let ?start = "\<lambda>i. br_start (sym_byte_range (syms ! i))"
  let ?order = "sort_key ?start [0..<length syms]"
  let ?upper = "partition_point (\<lambda>i. ?start i \<le> b) ?order"
  show thesis
  proof (cases "?upper = 0")
    case True
    then have "\<forall>i < length syms. b < ?start i" using last_started(1) [of syms b] by simp
    then have "\<forall>s \<in> set syms. b < br_start (sym_byte_range s)" by (auto simp: in_set_conv_nth)
    with True show thesis by (intro before) (simp add: enclosing_symbol_at_def ds Let_def)
  next
    case False
    let ?i = "?order ! (?upper - 1)"
    have i: "?i < length syms" "?start ?i \<le> b"
      using last_started(2) [where syms = syms and b = b] False by auto
    have "enclosing_symbol_at ds b kinds = Returns
        (find (\<lambda>s. b \<le> br_end (sym_byte_range s) \<and> sym_kind s \<in> set kinds) (chain syms ?i))"
      using False enclosing_walk_chain [OF ok i(1)] by (simp add: enclosing_symbol_at_def ds Let_def)
    then show thesis
      using i last_started(3) [where syms = syms and b = b] False by (intro after) auto
  qed
qed

text \<open>
  C20: \<open>enclosing_symbol_at\<close> on the built table returns: the container walk ends and stays inside
  the table.  When containers start no later than what they contain, and a symbol of an accepted
  kind contains everything that starts within it, the result is the innermost accepted symbol
  around the offset: it is around the offset, every other one is a container of it, and nothing
  is returned exactly when there is none.
\<close>

theorem enclosing_symbol_innermost:
  assumes ok: "table_ok syms"
    and nest: "\<And>i c. i < length syms \<Longrightarrow> container (syms ! i) = Some c \<Longrightarrow>
      br_start (sym_byte_range (syms ! c)) \<le> br_start (sym_byte_range (syms ! i))"
    and encloses: "\<And>i j. i < length syms \<Longrightarrow> j < length syms \<Longrightarrow> sym_kind (syms ! i) \<in> set kinds \<Longrightarrow>
      br_start (sym_byte_range (syms ! i)) \<le> br_start (sym_byte_range (syms ! j)) \<Longrightarrow>
      br_start (sym_byte_range (syms ! j)) \<le> br_end (sym_byte_range (syms ! i)) \<Longrightarrow>
      syms ! i \<in> set (chain syms j)"
  shows "\<exists>ds r. build_indexes (unindexed syms) = Returns ds \<and> enclosing_symbol_at ds b kinds = Returns r \<and>
    (let around = {s \<in> set syms. sym_kind s \<in> set kinds \<and> br_start (sym_byte_range s) \<le> b \<and>
                     b \<le> br_end (sym_byte_range s)}
     in case r of
          None \<Rightarrow> around = {}
        | Some s \<Rightarrow> s \<in> around \<and> around \<subseteq> set (chain syms (sym_id s)))"
proof -
  obtain ds where ds: "build_indexes (unindexed syms) = Returns ds" "symbols ds = syms"
    "by_start_byte ds = sort_key (\<lambda>i. br_start (sym_byte_range (syms ! i))) [0..<length syms]"
    by (rule build_indexes_value [OF ok]) (rule that; assumption)
  let ?hit = "\<lambda>s. b \<le> br_end (sym_byte_range s) \<and> sym_kind s \<in> set kinds"
  from ok ds(2,3) show ?thesis
  proof (cases rule: enclosing_symbol_at_chain [where b = b and kinds = kinds])
    case before
    then show ?thesis using ds(1) by (fastforce simp: Let_def)
  next
    case (after i)
    have on_chain: "s \<in> set (chain syms i)"
      if s: "s \<in> set syms" "sym_kind s \<in> set kinds" "br_start (sym_byte_range s) \<le> b"
        "b \<le> br_end (sym_byte_range s)" for s
    proof -
      obtain j where j: "j < length syms" "s = syms ! j" using s(1) by (auto simp: in_set_conv_nth)
      then show ?thesis using encloses [OF j(1) after(2)] after(3) after(4) [OF j(1)] s by simp
    qed
    have started: "s \<in> set (chain syms i) \<Longrightarrow> br_start (sym_byte_range s) \<le> b" for s
      using chain_start_le [OF ok nest after(2), of s] after(3) by simp
    have "case find ?hit (chain syms i) of
        None \<Rightarrow> \<forall>t \<in> set (chain syms i). \<not> ?hit t
      | Some s \<Rightarrow> s \<in> set (chain syms i) \<and> ?hit s \<and> br_start (sym_byte_range s) \<le> b \<and> s \<in> set syms \<and>
          (\<forall>t \<in> set (chain syms i). ?hit t \<longrightarrow> t \<in> set (chain syms (sym_id s)))"
      using find_chain_innermost [OF ok after(2)] started chain_subset
      by (auto split: option.splits simp: find_None_iff dest!: find_Some_in_set)
    then show ?thesis
      unfolding Let_def using on_chain
      by (intro exI [of _ ds] exI [of _ "find ?hit (chain syms i)"] conjI ds(1) after(1))
        (auto split: option.splits)
  qed
qed

theorem enclosing_symbol_innermost_witness:
  "\<exists>ds r. build_indexes (unindexed sample_table) = Returns ds \<and>
     enclosing_symbol_at ds 40 [Class, Method] = Returns r \<and>
     (case r of None \<Rightarrow> False
      | Some s \<Rightarrow> sample_symbol 1 ''M'' Method 10 50 (Some 0) \<in> set (chain sample_table (sym_id s)))"
proof -
  have len: "length sample_table = 4" by (simp add: sample_table_def)
  have nest: "br_start (sym_byte_range (sample_table ! c)) \<le> br_start (sym_byte_range (sample_table ! i))"
    if "i < length sample_table" "container (sample_table ! i) = Some c" for i c
    using that unfolding len by (auto simp: sample_table_def sample_symbol_def less_Suc_eq numeral_eq_Suc)
  have "\<forall>i \<in> set [0..<4]. \<forall>j \<in> set [0..<4].
      sym_kind (sample_table ! i) \<in> set [Class, Method] \<and>
      br_start (sym_byte_range (sample_table ! i)) \<le> br_start (sym_byte_range (sample_table ! j)) \<and>
      br_start (sym_byte_range (sample_table ! j)) \<le> br_end (sym_byte_range (sample_table ! i)) \<longrightarrow>
      sample_table ! i \<in> set (chain sample_table j)"
    by code_simp
  then have encl: "sample_table ! i \<in> set (chain sample_table j)"
    if "i < length sample_table" "j < length sample_table"
      "sym_kind (sample_table ! i) \<in> set [Class, Method]"
      "br_start (sym_byte_range (sample_table ! i)) \<le> br_start (sym_byte_range (sample_table ! j))"
      "br_start (sym_byte_range (sample_table ! j)) \<le> br_end (sym_byte_range (sample_table ! i))" for i j
    using that unfolding len by simp
  have member: "sample_symbol 1 ''M'' Method 10 50 (Some 0) \<in> {s \<in> set sample_table.
      sym_kind s \<in> set [Class, Method] \<and> br_start (sym_byte_range s) \<le> 40 \<and>
      40 \<le> br_end (sym_byte_range s)}"
    by (simp add: sample_table_def sample_symbol_def)
  let ?around = "{s \<in> set sample_table. sym_kind s \<in> set [Class, Method] \<and>
      br_start (sym_byte_range s) \<le> 40 \<and> 40 \<le> br_end (sym_byte_range s)}"
  obtain ds r where "build_indexes (unindexed sample_table) = Returns ds"
    "enclosing_symbol_at ds 40 [Class, Method] = Returns r"
    "case r of None \<Rightarrow> ?around = {} | Some s \<Rightarrow> s \<in> ?around \<and> ?around \<subseteq> set (chain sample_table (sym_id s))"
    using enclosing_symbol_innermost [where syms = sample_table and kinds = "[Class, Method]" and b = 40,
        OF sample_table_ok nest encl, unfolded Let_def] by blast
  with member show ?thesis
    by (intro exI [of _ ds] exI [of _ r]) (cases r, auto)
qed

end
