(* ===== verification/Script_Env.thy ===== *)
theory Script_Env
  imports Script_Symbols
begin

text \<open>
  \<^verbatim>\<open>src/script_env.rs\<close>: the engine globals read from \<^verbatim>\<open>redscripts.ini\<close>.  The bytes of
  the file come from the file system and are a parameter; \<open>None\<close> stands for an unreadable file.
  The process-wide version counter is passed explicitly.
\<close>

record script_global =
  sg_name :: string
  sg_type_name :: string
  sg_ini_uri :: string
  sg_symbol :: symbol

record script_environment =
  globals :: "script_global list"
  env_version :: u64

text \<open>The counter after \<open>fetch_add(1)\<close> and the value it had.\<close>

definition next_script_env_version :: "u64 \<Rightarrow> u64 \<times> u64" where
  "next_script_env_version v = (v, v + 1)"

definition ScriptEnvironment_new :: "script_global list \<Rightarrow> u64 \<Rightarrow> script_environment \<times> u64" where
  "ScriptEnvironment_new gs counter =
     (let (v, counter') = next_script_env_version counter
      in (\<lparr>globals = gs, env_version = v\<rparr>, counter'))"

definition ScriptEnvironment_default :: "u64 \<Rightarrow> script_environment \<times> u64" where
  "ScriptEnvironment_default counter = ScriptEnvironment_new [] counter"

definition env_find :: "script_environment \<Rightarrow> string \<Rightarrow> script_global option" where
  "env_find env name = find (\<lambda>g. sg_name g = name) (globals env)"

definition FALLBACK_GLOBALS :: "(string \<times> string) list" where
  "FALLBACK_GLOBALS =
     [(''theGame'', ''CR4Game''),
      (''theServer'', ''CServerInterface''),
      (''thePlayer'', ''CR4Player''),
      (''theCamera'', ''CCamera''),
      (''theUI'', ''CGuiWitcher''),
      (''theSound'', ''CScriptSoundSystem''),
      (''theDebug'', ''CDebugAttributesManager''),
      (''theTimer'', ''CTimerScriptKeyword''),
      (''theInput'', ''CInputManager'')]"

definition global_symbol :: "string \<Rightarrow> string \<Rightarrow> source_range \<Rightarrow> byte_range \<Rightarrow> symbol" where
  "global_symbol name ty_name rng brng =
     \<lparr>sym_id = 0, sym_name = name, sym_kind = Variable,
      sym_range = rng, selection_range = rng,
      sym_byte_range = brng, selection_byte_range = brng,
      container = None, container_name = None,
      type_annotation = Some (from_annotation ty_name), base_class = None,
      owner_class = None, state_class = None, flavour = None, annotations = [],
      access = Public, specifiers = specifiers_default, doc_comment = None, origin = Script\<rparr>"

definition make_global :: "string \<Rightarrow> string \<Rightarrow> string \<Rightarrow> script_global" where
  "make_global uri name ty_name =
     \<lparr>sg_name = name, sg_type_name = ty_name, sg_ini_uri = uri,
      sg_symbol = global_symbol name ty_name
        \<lparr>range_start = \<lparr>pos_line = 0, pos_character = 0\<rparr>,
         range_end = \<lparr>pos_line = 0, pos_character = 0\<rparr>\<rparr>
        \<lparr>br_start = 0, br_end = 0\<rparr>\<rparr>"

definition fallback_globals :: "string \<Rightarrow> script_global list" where
  "fallback_globals uri = map (\<lambda>(name, ty_name). make_global uri name ty_name) FALLBACK_GLOBALS"

text \<open>The loop of \<open>parse_globals\<close> over the numbered lines.\<close>

fun parse_global_lines ::
  "nat list \<Rightarrow> string \<Rightarrow> nat \<Rightarrow> bool \<Rightarrow> script_global list \<Rightarrow> string list \<Rightarrow> script_global list outcome"
where
  "parse_global_lines starts uri line_idx in_globals gs [] = Returns gs"
| "parse_global_lines starts uri line_idx in_globals gs (line # rest) =
     (let trimmed = trim line;
          continue = parse_global_lines starts uri (Suc line_idx) in_globals gs rest
      in if starts_with ''['' trimmed
         then parse_global_lines starts uri (Suc line_idx)
                (eq_ignore_ascii_case trimmed ''[globals]'') gs rest
         else if \<not> in_globals \<or> starts_with '';'' trimmed \<or> trimmed = [] then continue
         else (case split_once (CHR ''='') trimmed of
                 None \<Rightarrow> continue
               | Some (key, val) \<Rightarrow>
                   (let name = trim key; ty_name = trim val
                    in if name = [] \<or> ty_name = [] then continue
                       else let key_col = (case find_str name line of None \<Rightarrow> 0 | Some c \<Rightarrow> c)
                            in obind (or_panic (vget starts line_idx)) (\<lambda>line_start.
                                 let byte_start = line_start + key_col;
                                     byte_end = byte_start + length name;
                                     start = SourcePosition_new line_idx key_col;
                                     end' = SourcePosition_new line_idx (key_col + length name);
                                     g = \<lparr>sg_name = name, sg_type_name = ty_name, sg_ini_uri = uri,
                                          sg_symbol = global_symbol name ty_name
                                            \<lparr>range_start = start, range_end = end'\<rparr>
                                            \<lparr>br_start = byte_start, br_end = byte_end\<rparr>\<rparr>
                                 in parse_global_lines starts uri (Suc line_idx) in_globals
                                      (gs @ [g]) rest))))"

definition parse_globals :: "string \<Rightarrow> string \<Rightarrow> script_global list outcome" where
  "parse_globals content uri =
     parse_global_lines (0 # newline_starts 0 content) uri 0 False [] (lines content)"

text \<open>\<open>iter_mut().find(..)\<close> rewrites the first global of that name.\<close>

fun override_stock_global ::
  "string \<Rightarrow> string \<Rightarrow> string \<Rightarrow> string \<Rightarrow> script_global list \<Rightarrow> script_global list" where
  "override_stock_global uri name stock_type override_type [] = [make_global uri name override_type]"
| "override_stock_global uri name stock_type override_type (g # gs) =
     (if sg_name g = name
      then (if sg_type_name g = stock_type
            then g\<lparr>sg_type_name := override_type,
                   sg_symbol := (sg_symbol g)\<lparr>type_annotation := Some (from_annotation override_type)\<rparr>\<rparr> # gs
            else g # gs)
      else g # override_stock_global uri name stock_type override_type gs)"

definition inject_if_absent :: "string \<Rightarrow> string \<Rightarrow> string \<Rightarrow> script_global list \<Rightarrow> script_global list" where
  "inject_if_absent uri name ty_name gs =
     (if \<exists>g \<in> set gs. sg_name g = name then gs else gs @ [make_global uri name ty_name])"

definition apply_engine_overrides :: "string \<Rightarrow> script_global list \<Rightarrow> script_global list" where
  "apply_engine_overrides uri gs =
     inject_if_absent uri ''theTelemetry'' ''CR4TelemetryScriptProxy''
       (override_stock_global uri ''theCamera'' ''CCamera'' ''CCameraDirector'' gs)"

definition parse_script_environment ::
  "string option \<Rightarrow> string \<Rightarrow> u64 \<Rightarrow> (script_environment \<times> u64) outcome" where
  "parse_script_environment ini_file uri counter =
     obind (case ini_file of
              Some content \<Rightarrow> parse_globals content uri
            | None \<Rightarrow> Returns (fallback_globals uri))
       (\<lambda>gs. Returns (ScriptEnvironment_new (apply_engine_overrides uri gs) counter))"

subsection \<open>Where the names of the globals lie\<close>

text \<open>Contiguous substrings, as bytes.\<close>

definition occurs_in :: "string \<Rightarrow> string \<Rightarrow> bool" where
  "occurs_in p s \<longleftrightarrow> (\<exists>u v. s = u @ p @ v)"

lemma occurs_in_trans: "occurs_in p q \<Longrightarrow> occurs_in q s \<Longrightarrow> occurs_in p s"
  unfolding occurs_in_def by (metis append.assoc)

lemma trim_list_infix: "\<exists>u v. xs = u @ trim_list P xs @ v"
proof -
  have "rev (dropWhile P xs) = takeWhile P (rev (dropWhile P xs)) @ dropWhile P (rev (dropWhile P xs))"
    by simp
  then have "dropWhile P xs = trim_list P xs @ rev (takeWhile P (rev (dropWhile P xs)))"
    unfolding trim_list_def by (metis rev_append rev_rev_ident)
  then show ?thesis by (metis takeWhile_dropWhile_id)
qed

lemma trim_occurs: "occurs_in (trim s) s"
proof -
  obtain u v where "uchars s = u @ trim_list is_whitespace (uchars s) @ v"
    using trim_list_infix by blast
  then have "concat (uchars s) = concat u @ trim s @ concat v"
    unfolding trim_def by (metis concat_append)
  then show ?thesis by (auto simp: occurs_in_def)
qed

lemma split_once_occurs: "split_once x s = Some (k, v) \<Longrightarrow> occurs_in k s"
  unfolding split_once_def occurs_in_def
  by (metis (no_types, lifting) append_Nil append_take_drop_id map_option_eq_Some prod.inject)

lemma find_str_occurs: "occurs_in p s \<Longrightarrow> \<exists>k. find_str p s = Some k"
proof (induction s)
  case Nil
  then show ?case by (simp add: occurs_in_def)
next
  case (Cons c cs)
  then obtain u v where uv: "c # cs = u @ p @ v" by (auto simp: occurs_in_def)
  show ?case
  proof (cases u)
    case Nil
    with uv have "starts_with p (c # cs)" by (simp add: starts_with_def)
    then show ?thesis by simp
  next
    case (Cons d us)
    with uv have "occurs_in p cs" by (auto simp: occurs_in_def)
    with Cons.IH show ?thesis by auto
  qed
qed

lemma find_str_sound: "find_str p s = Some k \<Longrightarrow> take (length p) (drop k s) = p"
  by (induction s arbitrary: k) (auto simp: starts_with_def split: if_splits)

text \<open>Line \<open>i\<close> of \<open>lines\<close> starts at the \<open>i\<close>-th entry of the line-start table.\<close>

lemma strip_cr_prefix: "\<exists>v. s = strip_cr s @ v"
  by (auto simp: strip_cr_def intro: exI [of _ "[carriage_return]"])
    (metis append_butlast_last_id)

lemma lines_from_starts:
  assumes "i < length (lines_from acc cs)"
  shows "i < length (n # newline_starts (n + length acc) cs) \<and>
    (\<exists>v. drop ((n # newline_starts (n + length acc) cs) ! i - n) (rev acc @ cs) = lines_from acc cs ! i @ v)"
  using assms
proof (induction acc cs arbitrary: i n rule: lines_from.induct)
  case (1 acc)
  then show ?case by (auto split: if_splits)
next
  case (2 acc c cs)
  show ?case
  proof (cases "c = newline")
    case False
    with "2.prems" "2.IH"(2) [of i n] show ?thesis by simp
  next
    case True
    show ?thesis
    proof (cases i)
      case 0
      obtain v where "rev acc = strip_cr (rev acc) @ v" using strip_cr_prefix by blast
      then have "rev acc @ c # cs = strip_cr (rev acc) @ (v @ c # cs)" by (metis append.assoc)
      then have "\<exists>w. rev acc @ c # cs = strip_cr (rev acc) @ w" ..
      with True 0 show ?thesis by simp
    next
      case (Suc j)
      let ?m = "Suc (n + length acc)"
      from True Suc "2.prems" have j: "j < length (lines_from [] cs)" by simp
      obtain v where IH: "j < length (?m # newline_starts ?m cs)"
        "drop ((?m # newline_starts ?m cs) ! j - ?m) cs = lines_from [] cs ! j @ v"
        using "2.IH"(1) [OF True j, of ?m] by auto
      have ge: "?m \<le> (?m # newline_starts ?m cs) ! j"
        using IH(1) newline_starts_gt by (cases j) (fastforce dest: nth_mem)+
      have "drop ((?m # newline_starts ?m cs) ! j - n) (rev acc @ c # cs) =
          drop ((?m # newline_starts ?m cs) ! j - ?m) cs"
        using ge by (simp add: drop_Cons')
      with True Suc IH show ?thesis by auto
    qed
  qed
qed

lemma lines_starts:
  assumes "i < length (lines s)"
  shows "i < length (0 # newline_starts 0 s)"
    "\<exists>v. drop ((0 # newline_starts 0 s) ! i) s = lines s ! i @ v"
  using lines_from_starts [of i "[]" s 0] assms by (simp_all add: lines_def)

text \<open>A global that names where it was declared: its byte range holds its name.\<close>

definition located :: "string \<Rightarrow> script_global \<Rightarrow> bool" where
  "located content g \<longleftrightarrow>
     sg_name g \<noteq> [] \<and> sg_type_name g \<noteq> [] \<and>
     (let r = selection_byte_range (sg_symbol g)
      in br_end r \<le> length content \<and>
         take (br_end r - br_start r) (drop (br_start r) content) = sg_name g)"

lemma located_at:
  assumes i: "i < length (lines content)" and name: "occurs_in name (lines content ! i)"
    "name \<noteq> []" "ty_name \<noteq> []"
    and start: "b = (0 # newline_starts 0 content) ! i + the (find_str name (lines content ! i))"
    and g: "sg_name g = name" "sg_type_name g = ty_name"
      "selection_byte_range (sg_symbol g) = \<lparr>br_start = b, br_end = b + length name\<rparr>"
  shows "located content g"
proof -
  obtain k where k: "find_str name (lines content ! i) = Some k"
    using find_str_occurs [OF name(1)] by blast
  obtain v where v: "drop ((0 # newline_starts 0 content) ! i) content = lines content ! i @ v"
    using lines_starts(2) [OF i] by blast
  have at: "take (length name) (drop k (lines content ! i)) = name"
    using find_str_sound [OF k] .
  then have "k + length name \<le> length (lines content ! i)"
    using name(2) by (cases "k \<le> length (lines content ! i)") (auto dest: arg_cong [of _ _ length])
  then have "take (length name) (drop k (lines content ! i @ v)) = name" using at by simp
  then have slice: "take (length name) (drop b content) = name"
    using start k v by (metis add.commute drop_drop option.sel)
  then have "b + length name \<le> length content"
    using name(2) by (cases "b \<le> length content") (auto dest: arg_cong [of _ _ length])
  with slice name g show ?thesis by (simp add: located_def Let_def)
qed

lemma parse_global_lines_located:
  assumes "lines content = done @ rest" "list_all (located content) gs"
  shows "\<exists>gs'. parse_global_lines (0 # newline_starts 0 content) uri (length done) in_globals gs rest
      = Returns gs' \<and> list_all (located content) gs'"
  using assms
proof (induction rest arbitrary: "done" in_globals gs)
  case Nil
  then show ?case by simp
next
  case (Cons line rest)
  let ?starts = "0 # newline_starts 0 content"
  have i: "length done < length (lines content)" "lines content ! length done = line"
    using Cons.prems(1) by simp_all
  have next_line: "\<exists>gs''. parse_global_lines ?starts uri (Suc (length done)) flag gs' rest = Returns gs'' \<and>
      list_all (located content) gs''" if "list_all (located content) gs'" for flag gs'
    using Cons.IH [of "done @ [line]" gs' flag] Cons.prems(1) that by simp
  note step = next_line [OF Cons.prems(2)]
  show ?case
  proof (cases "starts_with ''['' (trim line) \<or> \<not> in_globals \<or> starts_with '';'' (trim line) \<or> trim line = []")
    case True
    with step show ?thesis by (auto simp: Let_def)
  next
    case live: False
    show ?thesis
    proof (cases "split_once (CHR ''='') (trim line)")
      case None
      with live step show ?thesis by (simp add: Let_def)
    next
      case (Some kv)
      obtain key val where kv: "kv = (key, val)" by (cases kv)
      show ?thesis
      proof (cases "trim key = [] \<or> trim val = []")
        case True
        with live Some kv step show ?thesis by (auto simp: Let_def)
      next
        case False
        have occ: "occurs_in (trim key) line"
          using Some kv split_once_occurs trim_occurs occurs_in_trans by metis
        then obtain k where k: "find_str (trim key) line = Some k" using find_str_occurs by blast
        define b where "b = ?starts ! length done + k"
        define g where "g = \<lparr>sg_name = trim key, sg_type_name = trim val, sg_ini_uri = uri,
          sg_symbol = global_symbol (trim key) (trim val)
            \<lparr>range_start = SourcePosition_new (length done) k,
             range_end = SourcePosition_new (length done) (k + length (trim key))\<rparr>
            \<lparr>br_start = b, br_end = b + length (trim key)\<rparr>\<rparr>"
        have "located content g"
          by (rule located_at [OF i(1), of "trim key" "trim val" b])
            (use occ i(2) False k in \<open>simp_all add: g_def b_def global_symbol_def\<close>)
        moreover have "parse_global_lines ?starts uri (length done) in_globals gs (line # rest) =
            parse_global_lines ?starts uri (Suc (length done)) in_globals (gs @ [g]) rest"
          using live Some kv False k lines_starts(1) [OF i(1)]
          by (simp add: Let_def vget_def g_def b_def)
        ultimately show ?thesis using next_line [of "gs @ [g]"] Cons.prems(2) by simp
      qed
    qed
  qed
qed

subsection \<open>Properties\<close>

text \<open>
  C21: reading the \<^verbatim>\<open>[globals]\<close> section never panics, whatever the file holds, and each global
  it yields has a non-empty name and type and a byte range of the file that spells its name.
\<close>

theorem parse_globals_located:
  "\<exists>gs. parse_globals content uri = Returns gs \<and> list_all (located content) gs"
  using parse_global_lines_located [of content "[]" "lines content" "[]" uri False]
  by (simp add: parse_globals_def)

lemma find_inject:
  "find (\<lambda>g. sg_name g = n) (inject_if_absent uri name ty_name gs) =
     (if n = name then or_else (find (\<lambda>g. sg_name g = n) gs) (Some (make_global uri name ty_name))
      else find (\<lambda>g. sg_name g = n) gs)"
proof -
  have app: "find P (gs @ hs) = or_else (find P gs) (find P hs)" for P :: "script_global \<Rightarrow> bool" and hs
    by (induction gs) auto
  show ?thesis
  proof (cases "find (\<lambda>g. sg_name g = name) gs")
    case None
    then show ?thesis by (auto simp: inject_if_absent_def app find_None_iff make_global_def)
  next
    case (Some g)
    with find_Some_in_set [OF Some] show ?thesis by (auto simp: inject_if_absent_def)
  qed
qed

lemma find_override:
  "find (\<lambda>g. sg_name g = n) (override_stock_global uri name stock over gs) =
     (if n \<noteq> name then find (\<lambda>g. sg_name g = n) gs
      else case find (\<lambda>g. sg_name g = n) gs of
             None \<Rightarrow> Some (make_global uri name over)
           | Some g \<Rightarrow>
               Some (if sg_type_name g = stock
                     then g\<lparr>sg_type_name := over,
                            sg_symbol := (sg_symbol g)\<lparr>type_annotation := Some (from_annotation over)\<rparr>\<rparr>
                     else g))"
  by (induction gs) (auto simp: make_global_def)

text \<open>
  Building the script environment always returns, stamped with the current version and
  leaving the counter one further.  Lookups in it agree with the globals read from the file, or
  with the fallback list when the file is unreadable, except that a stock or missing
  \<open>theCamera\<close> is a \<open>CCameraDirector\<close> (a customised one is kept) and a missing \<open>theTelemetry\<close> is
  injected.
\<close>

theorem script_environment_lookup:
  "\<exists>env gs. parse_script_environment ini_file uri v = Returns (env, v + 1) \<and> env_version env = v \<and>
    (case ini_file of Some content \<Rightarrow> parse_globals content uri = Returns gs
                | None \<Rightarrow> gs = fallback_globals uri) \<and>
    (\<forall>n. env_find env n =
      (let declared = find (\<lambda>g. sg_name g = n) gs
       in if n = ''theCamera'' then
            Some (case declared of
                    None \<Rightarrow> make_global uri ''theCamera'' ''CCameraDirector''
                  | Some g \<Rightarrow>
                      if sg_type_name g = ''CCamera''
                      then g\<lparr>sg_type_name := ''CCameraDirector'',
                             sg_symbol := (sg_symbol g)\<lparr>type_annotation :=
                               Some (from_annotation ''CCameraDirector'')\<rparr>\<rparr>
                      else g)
          else if n = ''theTelemetry'' then
            or_else declared (Some (make_global uri ''theTelemetry'' ''CR4TelemetryScriptProxy''))
          else declared))"
proof -
  obtain gs where gs: "(case ini_file of Some content \<Rightarrow> parse_globals content uri
      | None \<Rightarrow> Returns (fallback_globals uri)) = Returns gs"
    using parse_global_lines_located [of _ "[]" _ "[]" uri False]
    by (cases ini_file) (auto simp: parse_globals_def)
  let ?env = "\<lparr>globals = apply_engine_overrides uri gs, env_version = v\<rparr>"
  have "parse_script_environment ini_file uri v = Returns (?env, v + 1)"
    using gs by (simp add: parse_script_environment_def ScriptEnvironment_new_def
        next_script_env_version_def)
  moreover have "case ini_file of Some content \<Rightarrow> parse_globals content uri = Returns gs
      | None \<Rightarrow> gs = fallback_globals uri"
    using gs by (auto split: option.splits)
  ultimately show ?thesis
    by (intro exI [of _ ?env] exI [of _ gs] conjI)
      (auto simp: env_find_def apply_engine_overrides_def find_inject find_override Let_def
        split: option.splits)
qed

end
