(* ===== verification/Cst.thy ===== *)
theory Cst
  imports Line_Index
begin

text \<open>
  \<^verbatim>\<open>src/cst/\<close>: the concrete syntax tree and the helpers that read it.  The parser is
  tree-sitter, a library; what the program sees of a tree is the data of its nodes, and that is
  what \<open>node\<close> holds: the kind, the byte range and points, whether the node is named, an error or
  missing, and the children in order with the field each fills in its parent.

  A Rust \<open>Node\<close> also knows its ancestors.  That is a \<open>place\<close>: a node with the nodes above it,
  innermost first, each with the index of the child the path takes.  Searches by byte range are
  tree-sitter's, and a parameter of the functions that call them.
\<close>

named_theorems kind_names
named_theorems field_names

record node_info =
  node_kind :: string
  start_byte :: nat
  end_byte :: nat
  start_point :: point
  end_point :: point
  named :: bool
  is_error :: bool
  is_missing :: bool
  has_error :: bool
  field_name :: "string option"
  node_id :: nat

datatype node = Node (info: node_info) (children: "node list")

datatype place = Place (here: node) (above: "(nat \<times> node) list")

text \<open>A node for the concrete instances of the theorems.\<close>

definition sample_info :: "string \<Rightarrow> nat \<Rightarrow> nat \<Rightarrow> node_info" where
  "sample_info kind a b =
     \<lparr>node_kind = kind, start_byte = a, end_byte = b, start_point = \<lparr>row = 0, column = a\<rparr>,
      end_point = \<lparr>row = 0, column = b\<rparr>, named = True, is_error = False, is_missing = False,
      has_error = False, field_name = None, node_id = a\<rparr>"

definition sample_node :: "string \<Rightarrow> nat \<Rightarrow> nat \<Rightarrow> node list \<Rightarrow> node" where
  "sample_node kind a b cs = Node (sample_info kind a b) cs"

definition in_field :: "string \<Rightarrow> node \<Rightarrow> node" where
  "in_field f n = Node ((info n)\<lparr>field_name := Some f\<rparr>) (children n)"

text \<open>\<open>Node::utf8_text\<close>: indexing the source with the node's range panics when it is out of
  range, and a range that cuts a character is not UTF-8 (\<open>None\<close>, the \<open>Err\<close> of the source).\<close>

definition utf8_text :: "string \<Rightarrow> node \<Rightarrow> string option outcome" where
  "utf8_text source n =
     (let a = start_byte (info n); b = end_byte (info n)
      in if b < a \<or> length source < b then Panic
         else if a = b then Returns (Some [])
         else Returns (slice source a b))"

subsection \<open>Node kinds and field names\<close>

definition ANNOTATION :: string where [kind_names]:
  "ANNOTATION = ''annotation''"

definition ANNOTATION_IDENT :: string where [kind_names]:
  "ANNOTATION_IDENT = ''annotation_ident''"

definition ARRAY_EXPR :: string where [kind_names]:
  "ARRAY_EXPR = ''array_expr''"

definition ASSIGN_OP_DIRECT :: string where [kind_names]:
  "ASSIGN_OP_DIRECT = ''assign_op_direct''"

definition ASSIGN_OP_EXPR :: string where [kind_names]:
  "ASSIGN_OP_EXPR = ''assign_op_expr''"

definition AUTOBIND_DECL :: string where [kind_names]:
  "AUTOBIND_DECL = ''autobind_decl''"

definition BREAK_STMT :: string where [kind_names]:
  "BREAK_STMT = ''break_stmt''"

definition CAST_EXPR :: string where [kind_names]:
  "CAST_EXPR = ''cast_expr''"

definition CLASS_DECL :: string where [kind_names]:
  "CLASS_DECL = ''class_decl''"

definition COMMENT :: string where [kind_names]:
  "COMMENT = ''comment''"

definition CONTINUE_STMT :: string where [kind_names]:
  "CONTINUE_STMT = ''continue_stmt''"

definition DELETE_STMT :: string where [kind_names]:
  "DELETE_STMT = ''delete_stmt''"

definition DO_WHILE_STMT :: string where [kind_names]:
  "DO_WHILE_STMT = ''do_while_stmt''"

definition ENUM_DECL :: string where [kind_names]:
  "ENUM_DECL = ''enum_decl''"

definition ENUM_MEMBER_DECL :: string where [kind_names]:
  "ENUM_MEMBER_DECL = ''enum_member_decl''"

definition EVENT_DECL :: string where [kind_names]:
  "EVENT_DECL = ''event_decl''"

definition EXPR_STMT :: string where [kind_names]:
  "EXPR_STMT = ''expr_stmt''"

definition FOR_STMT :: string where [kind_names]:
  "FOR_STMT = ''for_stmt''"

definition FUNC_BLOCK :: string where [kind_names]:
  "FUNC_BLOCK = ''func_block''"

definition FUNC_CALL_EXPR :: string where [kind_names]:
  "FUNC_CALL_EXPR = ''func_call_expr''"

definition FUNC_DECL :: string where [kind_names]:
  "FUNC_DECL = ''func_decl''"

definition FUNC_FLAVOUR :: string where [kind_names]:
  "FUNC_FLAVOUR = ''func_flavour''"

definition FUNC_PARAMS :: string where [kind_names]:
  "FUNC_PARAMS = ''func_params''"

definition FUNC_PARAM_GROUP :: string where [kind_names]:
  "FUNC_PARAM_GROUP = ''func_param_group''"

definition IDENT :: string where [kind_names]:
  "IDENT = ''ident''"

definition IF_STMT :: string where [kind_names]:
  "IF_STMT = ''if_stmt''"

definition INCOMPLETE_MEMBER_ACCESS_EXPR :: string where [kind_names]:
  "INCOMPLETE_MEMBER_ACCESS_EXPR = ''incomplete_member_access_expr''"

definition LITERAL_BOOL :: string where [kind_names]:
  "LITERAL_BOOL = ''literal_bool''"

definition LITERAL_FLOAT :: string where [kind_names]:
  "LITERAL_FLOAT = ''literal_float''"

definition LITERAL_HEX :: string where [kind_names]:
  "LITERAL_HEX = ''literal_hex''"

definition LITERAL_INT :: string where [kind_names]:
  "LITERAL_INT = ''literal_int''"

definition LITERAL_NAME :: string where [kind_names]:
  "LITERAL_NAME = ''literal_name''"

definition LITERAL_NULL :: string where [kind_names]:
  "LITERAL_NULL = ''literal_null''"

definition LITERAL_STRING :: string where [kind_names]:
  "LITERAL_STRING = ''literal_string''"

definition LOCAL_VAR_DECL_STMT :: string where [kind_names]:
  "LOCAL_VAR_DECL_STMT = ''local_var_decl_stmt''"

definition MEMBER_ACCESS_EXPR :: string where [kind_names]:
  "MEMBER_ACCESS_EXPR = ''member_access_expr''"

definition MEMBER_DEFAULT_VAL :: string where [kind_names]:
  "MEMBER_DEFAULT_VAL = ''member_default_val''"

definition MEMBER_DEFAULT_VAL_BLOCK_ASSIGN :: string where [kind_names]:
  "MEMBER_DEFAULT_VAL_BLOCK_ASSIGN = ''member_default_val_block_assign''"

definition MEMBER_HINT :: string where [kind_names]:
  "MEMBER_HINT = ''member_hint''"

definition MEMBER_VAR_DECL :: string where [kind_names]:
  "MEMBER_VAR_DECL = ''member_var_decl''"

definition NESTED_EXPR :: string where [kind_names]:
  "NESTED_EXPR = ''nested_expr''"

definition NEW_EXPR :: string where [kind_names]:
  "NEW_EXPR = ''new_expr''"

definition NOP :: string where [kind_names]:
  "NOP = ''nop''"

definition RETURN_STMT :: string where [kind_names]:
  "RETURN_STMT = ''return_stmt''"

definition SPECIFIER :: string where [kind_names]:
  "SPECIFIER = ''specifier''"

definition STATE_DECL :: string where [kind_names]:
  "STATE_DECL = ''state_decl''"

definition STRUCT_DECL :: string where [kind_names]:
  "STRUCT_DECL = ''struct_decl''"

definition STRUCT_DEF :: string where [kind_names]:
  "STRUCT_DEF = ''struct_def''"

definition SWITCH_CASE_LABEL :: string where [kind_names]:
  "SWITCH_CASE_LABEL = ''switch_case_label''"

definition SWITCH_DEFAULT_LABEL :: string where [kind_names]:
  "SWITCH_DEFAULT_LABEL = ''switch_default_label''"

definition SWITCH_STMT :: string where [kind_names]:
  "SWITCH_STMT = ''switch_stmt''"

definition TERNARY_COND_EXPR :: string where [kind_names]:
  "TERNARY_COND_EXPR = ''ternary_cond_expr''"

definition THIS_EXPR :: string where [kind_names]:
  "THIS_EXPR = ''this_expr''"

definition TYPE_ANNOT :: string where [kind_names]:
  "TYPE_ANNOT = ''type_annot''"

definition WHILE_STMT :: string where [kind_names]:
  "WHILE_STMT = ''while_stmt''"


text \<open>Field names; the registry \<^verbatim>\<open>fields.rs\<close> shares some names with the node kinds, hence the suffix.\<close>

definition ACCESSOR_FIELD :: string where [field_names]:
  "ACCESSOR_FIELD = ''accessor''"

definition ARGS_FIELD :: string where [field_names]:
  "ARGS_FIELD = ''args''"

definition BASE_FIELD :: string where [field_names]:
  "BASE_FIELD = ''base''"

definition BODY_FIELD :: string where [field_names]:
  "BODY_FIELD = ''body''"

definition COND_FIELD :: string where [field_names]:
  "COND_FIELD = ''cond''"

definition ELSE_FIELD :: string where [field_names]:
  "ELSE_FIELD = ''else''"

definition FUNC_FIELD :: string where [field_names]:
  "FUNC_FIELD = ''func''"

definition INIT_FIELD :: string where [field_names]:
  "INIT_FIELD = ''init''"

definition INIT_VALUE_FIELD :: string where [field_names]:
  "INIT_VALUE_FIELD = ''init_value''"

definition ITER_FIELD :: string where [field_names]:
  "ITER_FIELD = ''iter''"

definition LEFT_FIELD :: string where [field_names]:
  "LEFT_FIELD = ''left''"

definition MEMBER_FIELD :: string where [field_names]:
  "MEMBER_FIELD = ''member''"

definition NAME_FIELD :: string where [field_names]:
  "NAME_FIELD = ''name''"

definition NAMES_FIELD :: string where [field_names]:
  "NAMES_FIELD = ''names''"

definition OP_FIELD :: string where [field_names]:
  "OP_FIELD = ''op''"

definition RETURN_TYPE_FIELD :: string where [field_names]:
  "RETURN_TYPE_FIELD = ''return_type''"

definition RIGHT_FIELD :: string where [field_names]:
  "RIGHT_FIELD = ''right''"

definition TYPE_FIELD :: string where [field_names]:
  "TYPE_FIELD = ''type''"

definition VALUE_FIELD :: string where [field_names]:
  "VALUE_FIELD = ''value''"

subsection \<open>Reading a node\<close>

abbreviation kind_of :: "place \<Rightarrow> string" where
  "kind_of p \<equiv> node_kind (info (here p))"

abbreviation from_byte :: "place \<Rightarrow> nat" where
  "from_byte p \<equiv> start_byte (info (here p))"

abbreviation to_byte :: "place \<Rightarrow> nat" where
  "to_byte p \<equiv> end_byte (info (here p))"

abbreviation is_named :: "place \<Rightarrow> bool" where
  "is_named p \<equiv> named (info (here p))"

abbreviation place_id :: "place \<Rightarrow> nat" where
  "place_id p \<equiv> node_id (info (here p))"

definition place_range :: "place \<Rightarrow> byte_range" where
  "place_range p = \<lparr>br_start = from_byte p, br_end = to_byte p\<rparr>"

definition nth_child :: "place \<Rightarrow> nat \<Rightarrow> place" where
  "nth_child p i = Place (children (here p) ! i) ((i, here p) # above p)"

definition child_nodes :: "place \<Rightarrow> place list" where
  "child_nodes p = map (nth_child p) [0..<length (children (here p))]"

definition named_child_nodes :: "place \<Rightarrow> place list" where
  "named_child_nodes p = filter is_named (child_nodes p)"

definition children_by_field_name :: "string \<Rightarrow> place \<Rightarrow> place list" where
  "children_by_field_name f p = filter (\<lambda>c. field_name (info (here c)) = Some f) (child_nodes p)"

definition child_by_field_name :: "string \<Rightarrow> place \<Rightarrow> place option" where
  "child_by_field_name f p = vfirst (children_by_field_name f p)"

definition parent_place :: "place \<Rightarrow> place option" where
  "parent_place p = (case above p of [] \<Rightarrow> None | (i, n) # up \<Rightarrow> Some (Place n up))"

definition prev_sibling :: "place \<Rightarrow> place option" where
  "prev_sibling p =
     (case above p of
        [] \<Rightarrow> None
      | (i, n) # up \<Rightarrow> if i = 0 then None else Some (nth_child (Place n up) (i - 1)))"

lemma here_nth_child [simp]: "here (nth_child p i) = children (here p) ! i"
  by (simp add: nth_child_def)

lemma here_child_nodes: "map here (child_nodes p) = children (here p)"
  by (simp add: child_nodes_def comp_def map_nth)

lemma child_size: "q \<in> set (child_nodes p) \<Longrightarrow> size (here q) < size (here p)"
proof -
  assume "q \<in> set (child_nodes p)"
  then have "here q \<in> set (children (here p))"
    by (metis here_child_nodes image_eqI set_map)
  then show ?thesis by (cases "here p") (auto dest: size_list_estimation' [OF _ order_refl, of _ _ size])
qed

lemma named_child_size: "q \<in> set (named_child_nodes p) \<Longrightarrow> size (here q) < size (here p)"
  by (auto simp: named_child_nodes_def child_size)

lemma field_child: "child_by_field_name f p = Some q \<Longrightarrow> q \<in> set (child_nodes p)"
  by (auto simp: child_by_field_name_def children_by_field_name_def dest!: vfirst_in_set)

lemma field_child_size: "child_by_field_name f p = Some q \<Longrightarrow> size (here q) < size (here p)"
  by (blast intro: child_size field_child)

lemma size_children: "size_list size (children n) < size n"
  by (cases n) simp

text \<open>The nodes of a tree in document order.\<close>

fun preorder :: "node \<Rightarrow> node list" where
  "preorder (Node i cs) = Node i cs # concat (map preorder cs)"

subsection \<open>Navigation\<close>

definition nth_child_kind :: "place \<Rightarrow> string \<Rightarrow> nat \<Rightarrow> place option" where
  "nth_child_kind p k index = vget (filter (\<lambda>c. kind_of c = k) (child_nodes p)) index"

definition first_child_kind :: "place \<Rightarrow> string \<Rightarrow> place option" where
  "first_child_kind p k = nth_child_kind p k 0"

definition first_named_child :: "place \<Rightarrow> place option" where
  "first_named_child p = vfirst (named_child_nodes p)"

definition decl_name_idents :: "place \<Rightarrow> place list" where
  "decl_name_idents decl = filter (\<lambda>n. kind_of n = IDENT) (children_by_field_name NAMES_FIELD decl)"

lemma first_named_child_size: "first_named_child p = Some q \<Longrightarrow> size (here q) < size (here p)"
  by (auto simp: first_named_child_def dest!: vfirst_in_set named_child_size)

fun ancestors_from :: "node \<Rightarrow> (nat \<times> node) list \<Rightarrow> place list" where
  "ancestors_from n [] = [Place n []]"
| "ancestors_from n ((i, m) # up) = Place n ((i, m) # up) # ancestors_from m up"

definition node_and_ancestors :: "place \<Rightarrow> place list" where
  "node_and_ancestors p = ancestors_from (here p) (above p)"

definition find_ancestor_of_kind :: "place \<Rightarrow> string list \<Rightarrow> place option" where
  "find_ancestor_of_kind p ks = find (\<lambda>n. kind_of n \<in> set ks) (node_and_ancestors p)"

definition has_ancestor_of_kind :: "place \<Rightarrow> string list \<Rightarrow> bool" where
  "has_ancestor_of_kind p ks \<longleftrightarrow> find_ancestor_of_kind p ks \<noteq> None"

definition enclosing_callable_block :: "place \<Rightarrow> place option" where
  "enclosing_callable_block p =
     find (\<lambda>n. kind_of n = FUNC_BLOCK \<and>
              (case parent_place n of None \<Rightarrow> False | Some q \<Rightarrow> kind_of q \<in> {FUNC_DECL, EVENT_DECL}))
       (node_and_ancestors p)"

subsection \<open>Grammar\<close>

definition call_callee :: "place \<Rightarrow> place option" where
  "call_callee p = or_else (child_by_field_name FUNC_FIELD p) (first_named_child p)"

definition member_access_member :: "place \<Rightarrow> place option" where
  "member_access_member p =
     or_else (child_by_field_name MEMBER_FIELD p) (vget (named_child_nodes p) 1)"

datatype arg_slot = Filled place | Empty nat

fun slot_is_filled :: "arg_slot \<Rightarrow> bool" where
  "slot_is_filled (Filled _) = True"
| "slot_is_filled (Empty _) = False"

fun slot_start_byte :: "arg_slot \<Rightarrow> nat" where
  "slot_start_byte (Filled n) = from_byte n"
| "slot_start_byte (Empty gap) = gap"

fun slot_end_byte :: "arg_slot \<Rightarrow> nat" where
  "slot_end_byte (Filled n) = to_byte n"
| "slot_end_byte (Empty gap) = gap"

definition close_slot :: "place option \<Rightarrow> nat \<Rightarrow> arg_slot" where
  "close_slot pending gap = (case pending of Some n \<Rightarrow> Filled n | None \<Rightarrow> Empty gap)"

fun collect_slots :: "place list \<Rightarrow> place option \<Rightarrow> arg_slot list \<Rightarrow> arg_slot list \<times> place option" where
  "collect_slots [] pending slots = (slots, pending)"
| "collect_slots (c # cs) pending slots =
     (if kind_of c = '','' then collect_slots cs None (slots @ [close_slot pending (from_byte c)])
      else if kind_of c = COMMENT then collect_slots cs pending slots
      else if is_named c then collect_slots cs (Some c) slots
      else collect_slots cs pending slots)"

definition arg_slots_with_gaps :: "place \<Rightarrow> arg_slot list" where
  "arg_slots_with_gaps call =
     (case child_by_field_name ARGS_FIELD call of
        None \<Rightarrow> []
      | Some args \<Rightarrow>
          (case collect_slots (child_nodes args) None [] of
             (slots, pending) \<Rightarrow> slots @ [close_slot pending (to_byte args)]))"

definition call_close_paren :: "place \<Rightarrow> place option" where
  "call_close_paren call = first_child_kind call '')''"

fun filled_slots :: "arg_slot list \<Rightarrow> place list option" where
  "filled_slots [] = Some []"
| "filled_slots (Filled n # ss) = map_option ((#) n) (filled_slots ss)"
| "filled_slots (Empty _ # ss) = None"

definition arg_slots :: "place \<Rightarrow> place list option" where
  "arg_slots call =
     (let slots = arg_slots_with_gaps call in if slots = [] then None else filled_slots slots)"

definition callee_ident :: "place \<Rightarrow> place option" where
  "callee_ident callee =
     (if kind_of callee = IDENT then Some callee
      else if kind_of callee \<in> {MEMBER_ACCESS_EXPR, INCOMPLETE_MEMBER_ACCESS_EXPR}
      then filter_option (\<lambda>m. kind_of m = IDENT) (member_access_member callee)
      else None)"

definition DEFAULT_OR_HINT_ASSIGN_KINDS :: "string list" where
  "DEFAULT_OR_HINT_ASSIGN_KINDS = [MEMBER_DEFAULT_VAL, MEMBER_DEFAULT_VAL_BLOCK_ASSIGN, MEMBER_HINT]"

datatype default_or_hint_kind = Default | Hint

lemma member_access_member_size: "member_access_member p = Some q \<Longrightarrow> size (here q) < size (here p)"
  using named_child_size [of q p] field_child_size [of MEMBER_FIELD p q]
  by (auto simp: member_access_member_def or_else_Some_iff)

function write_target :: "place \<Rightarrow> place option" where
  "write_target expr =
     (if kind_of expr = IDENT then Some expr
      else if kind_of expr = MEMBER_ACCESS_EXPR then
        (case member_access_member expr of None \<Rightarrow> None | Some m \<Rightarrow> write_target m)
      else if kind_of expr = NESTED_EXPR then
        (case first_named_child expr of None \<Rightarrow> None | Some c \<Rightarrow> write_target c)
      else if kind_of expr = ARRAY_EXPR then
        (case child_by_field_name ACCESSOR_FIELD expr of None \<Rightarrow> None | Some a \<Rightarrow> write_target a)
      else None)"
  by pat_completeness auto
termination
  by (relation "measure (\<lambda>p. size (here p))")
    (auto simp: member_access_member_size first_named_child_size field_child_size)

declare write_target.simps [simp del]

definition is_assignment_target :: "place \<Rightarrow> bool" where
  "is_assignment_target ident =
     (case find_ancestor_of_kind ident [ASSIGN_OP_EXPR] of
        None \<Rightarrow> False
      | Some assign \<Rightarrow>
          (case child_by_field_name LEFT_FIELD assign of
             None \<Rightarrow> False
           | Some left \<Rightarrow> map_option place_id (write_target left) = Some (place_id ident)))"

definition ident_default_or_hint_kind :: "place \<Rightarrow> default_or_hint_kind option" where
  "ident_default_or_hint_kind ident =
     Option.bind (parent_place ident) (\<lambda>up.
       Option.bind
         (if kind_of up \<in> {MEMBER_DEFAULT_VAL, MEMBER_DEFAULT_VAL_BLOCK_ASSIGN} then Some Default
          else if kind_of up = MEMBER_HINT then Some Hint else None)
         (\<lambda>k. if map_option place_id (child_by_field_name MEMBER_FIELD up) = Some (place_id ident)
              then Some k else None))"

definition is_constant_literal :: "place \<Rightarrow> bool" where
  "is_constant_literal p \<longleftrightarrow>
     kind_of p \<in> {LITERAL_INT, LITERAL_HEX, LITERAL_FLOAT, LITERAL_STRING, LITERAL_NAME,
               LITERAL_BOOL, LITERAL_NULL}"

subsection \<open>Branches of an if statement\<close>

datatype if_branch = InBody | InElse

definition if_branch_of :: "place \<Rightarrow> place \<Rightarrow> if_branch option" where
  "if_branch_of if_stmt p =
     (let within = (\<lambda>f. case child_by_field_name f if_stmt of
                          None \<Rightarrow> False
                        | Some c \<Rightarrow> from_byte c \<le> from_byte p \<and> to_byte p \<le> to_byte c)
      in if within BODY_FIELD then Some InBody
         else if within ELSE_FIELD then Some InElse else None)"

definition mutually_exclusive_branches :: "place \<Rightarrow> place \<Rightarrow> bool" where
  "mutually_exclusive_branches a b =
     list_ex (\<lambda>if_stmt. case (if_branch_of if_stmt a, if_branch_of if_stmt b) of
                          (Some x, Some y) \<Rightarrow> x \<noteq> y | _ \<Rightarrow> False)
       (filter (\<lambda>n. kind_of n = IF_STMT) (node_and_ancestors a))"

fun if_chain_loop :: "place list \<Rightarrow> place \<Rightarrow> place list \<Rightarrow> place \<times> place list" where
  "if_chain_loop [] head conds = (head, conds)"
| "if_chain_loop (up # ups) head conds =
     (if kind_of up \<noteq> IF_STMT then (head, conds)
      else if map_option place_id (child_by_field_name ELSE_FIELD up) \<noteq> Some (place_id head)
      then (head, conds)
      else if_chain_loop ups up
        (case child_by_field_name COND_FIELD up of None \<Rightarrow> conds | Some c \<Rightarrow> conds @ [c]))"

definition if_chain_above :: "place \<Rightarrow> (place \<times> place list) option" where
  "if_chain_above statement =
     (case if_chain_loop (tl (node_and_ancestors statement)) statement [] of
        (head, conds) \<Rightarrow> if conds = [] then None else Some (head, conds))"

subsection \<open>Nodes at an offset\<close>

text \<open>\<open>Node::descendant_for_byte_range\<close>, the smallest node spanning a byte range.\<close>

type_synonym descend = "place \<Rightarrow> nat \<Rightarrow> nat \<Rightarrow> place option"

definition nodes_at_offset :: "descend \<Rightarrow> place \<Rightarrow> nat \<Rightarrow> place list" where
  "nodes_at_offset descend root byte_offset =
     List.map_filter (\<lambda>off. descend root off off)
       (byte_offset # (if byte_offset = 0 then [] else [byte_offset - 1]))"

definition offset_in_comment :: "descend \<Rightarrow> place \<Rightarrow> nat \<Rightarrow> bool" where
  "offset_in_comment descend root byte_offset =
     (if byte_offset = 0 then False
      else case descend root (byte_offset - 1) (byte_offset - 1) of
             None \<Rightarrow> False | Some n \<Rightarrow> kind_of n = COMMENT)"

definition is_ascii_whitespace :: "char \<Rightarrow> bool" where
  "is_ascii_whitespace c \<longleftrightarrow> c \<in> {CHR 0x20, CHR 0x09, newline, CHR 0x0C, carriage_return}"

definition rposition :: "('a \<Rightarrow> bool) \<Rightarrow> 'a list \<Rightarrow> nat option" where
  "rposition P xs = map_option (\<lambda>i. length xs - Suc i) (find (\<lambda>i. P (rev xs ! i)) [0..<length xs])"

partial_function (option) significant_loop ::
  "descend \<Rightarrow> place \<Rightarrow> string \<Rightarrow> nat \<Rightarrow> place option outcome option" where
  "significant_loop descend root source end' =
     (if length source < end' then Some Panic
      else case rposition (\<lambda>b. \<not> is_ascii_whitespace b) (take end' source) of
             None \<Rightarrow> Some (Returns None)
           | Some p \<Rightarrow>
               (case descend root p (p + 1) of
                  None \<Rightarrow> Some (Returns None)
                | Some n \<Rightarrow>
                    if kind_of n \<noteq> COMMENT then Some (Returns (Some n))
                    else significant_loop descend root source (from_byte n)))"

definition significant_node_before_byte :: "descend \<Rightarrow> place \<Rightarrow> string \<Rightarrow> nat \<Rightarrow> place option outcome" where
  "significant_node_before_byte descend root source byte_offset =
     obind (of_loop (significant_loop descend root source byte_offset)) id"

definition is_statement_boundary :: "place \<Rightarrow> bool" where
  "is_statement_boundary p =
     (if has_error (info (here p)) then False
      else if kind_of p \<in> {''{'', ''}'', '';''} then True
      else case parent_place p of
             None \<Rightarrow> False
           | Some up \<Rightarrow>
               if kind_of p = '')'' \<and> kind_of up = IF_STMT then True
               else if kind_of up = ''else_stmt'' then True
               else kind_of p = '':'' \<and> kind_of up \<in> {SWITCH_CASE_LABEL, SWITCH_DEFAULT_LABEL})"

definition is_type_annotation_boundary :: "place \<Rightarrow> bool" where
  "is_type_annotation_boundary p =
     (if has_error (info (here p)) then False
      else kind_of p = '':'' \<and>
        \<not> (case parent_place p of
             None \<Rightarrow> False
           | Some up \<Rightarrow> kind_of up \<in> {SWITCH_CASE_LABEL, SWITCH_DEFAULT_LABEL, TERNARY_COND_EXPR}))"

definition is_kind_or_error_wrapped_kind :: "place \<Rightarrow> string list \<Rightarrow> bool" where
  "is_kind_or_error_wrapped_kind p ks =
     (let effective = (if is_error (info (here p)) \<and> length (children (here p)) = 1
                       then nth_child p 0 else p)
      in kind_of effective \<in> set ks)"

definition identifier_at :: "descend \<Rightarrow> place \<Rightarrow> nat \<Rightarrow> place option" where
  "identifier_at descend root byte_offset =
     vfirst (List.map_filter (\<lambda>n. find (\<lambda>q. kind_of q = IDENT) (node_and_ancestors n))
       (nodes_at_offset descend root byte_offset))"

end
