(* ===== verification/Outward_Keys.thy ===== *)
theory Outward_Keys
  imports Script_Symbols Cst
begin

text \<open>
  \<^verbatim>\<open>src/resolve/workspace_index/subscribers.rs\<close>: the keys a document exposes to others, the
  hashes that tell whether what is behind a key has changed, and the identifier scan.  The
  standard library's \<open>DefaultHasher\<close> is unspecified; it is the parameter \<open>finish\<close>, a function of
  the sequence of values written to it.
\<close>

unbundle bit_operations_syntax

datatype ObservedKey = TopLevel string | MemberKey string string | EnumMemberKey string

datatype hash_item =
    HStr string | HOptStr "string option" | HOptType "ty option" | HOptFlavour "func_flavour option"
  | HU8 nat | HUsize nat | HU64 u64 | HSpecifiers specifiers

type_synonym hasher = "hash_item list \<Rightarrow> u64"

subsection \<open>Hashes of symbols\<close>

text \<open>\<open>kind as u8\<close> and \<open>access as u8\<close>: the declaration order.\<close>

fun kind_as_u8 :: "symbol_kind \<Rightarrow> nat" where
  "kind_as_u8 Class = 0"
| "kind_as_u8 NativeType = 1"
| "kind_as_u8 Struct = 2"
| "kind_as_u8 Enum = 3"
| "kind_as_u8 EnumMember = 4"
| "kind_as_u8 Function = 5"
| "kind_as_u8 Method = 6"
| "kind_as_u8 Field = 7"
| "kind_as_u8 Variable = 8"
| "kind_as_u8 Parameter = 9"
| "kind_as_u8 State = 10"
| "kind_as_u8 Event = 11"

definition hash_symbol_fields :: "symbol \<Rightarrow> hash_item list" where
  "hash_symbol_fields s =
     [HStr (sym_name s), HU8 (kind_as_u8 (sym_kind s)), HOptStr (container_name s),
      HOptType (type_annotation s), HOptStr (base_class s), HOptStr (owner_class s),
      HOptFlavour (flavour s), HUsize (length (annotations s))]
     @ concat (map (\<lambda>a. [HStr (annot_name a), HOptStr (annot_argument a)]) (annotations s))
     @ [HU8 (access_rank (access s)), HSpecifiers (specifiers s)]"

definition outward_symbol_hash :: "hasher \<Rightarrow> symbol \<Rightarrow> u64" where
  "outward_symbol_hash finish s = finish (hash_symbol_fields s)"

definition outward_parameter_hash :: "hasher \<Rightarrow> symbol \<Rightarrow> u64 \<Rightarrow> u64" where
  "outward_parameter_hash finish s ordinal = finish (HU64 ordinal # hash_symbol_fields s)"

definition doc_surface_hash :: "hasher \<Rightarrow> string \<Rightarrow> symbol list \<Rightarrow> u64" where
  "doc_surface_hash finish uri syms =
     (let externally_visible = filter (\<lambda>s. sym_kind s \<noteq> Variable) syms
      in finish (HStr uri # HUsize (length externally_visible)
           # concat (map hash_symbol_fields externally_visible)))"

subsection \<open>Outward keys\<close>

definition is_outward_visible :: "symbol \<Rightarrow> bool" where
  "is_outward_visible s \<longleftrightarrow> sym_kind s \<notin> {Variable, Parameter}"

definition outward_key_for :: "symbol \<Rightarrow> ObservedKey" where
  "outward_key_for s =
     (if container s = None then TopLevel (sym_name s)
      else if sym_kind s = EnumMember then EnumMemberKey (sym_name s)
      else MemberKey (case container_name s of None \<Rightarrow> [] | Some c \<Rightarrow> c) (sym_name s))"

text \<open>\<open>out.entry(key).and_modify(|h| *h ^= hash).or_insert(hash)\<close>.\<close>

definition xor_entry :: "'k \<Rightarrow> u64 \<Rightarrow> ('k, u64) hmap \<Rightarrow> ('k, u64) hmap" where
  "xor_entry k hash m = hput k (case hget m k of None \<Rightarrow> hash | Some h \<Rightarrow> h XOR hash) m"

definition fold_parameter ::
  "hasher \<Rightarrow> symbol list \<Rightarrow> symbol \<Rightarrow> (ObservedKey, u64) hmap \<times> (symbol_id, u64) hmap
   \<Rightarrow> (ObservedKey, u64) hmap \<times> (symbol_id, u64) hmap" where
  "fold_parameter finish syms s st =
     (case Option.bind (container s) (vget syms) of
        None \<Rightarrow> st
      | Some callable \<Rightarrow>
          (let (out, ordinals) = st;
               ordinal = (case hget ordinals (sym_id callable) of None \<Rightarrow> 0 | Some n \<Rightarrow> n);
               hash = outward_parameter_hash finish s ordinal
           in (xor_entry (outward_key_for callable) hash out,
               hput (sym_id callable) (ordinal + 1) ordinals)))"

definition outward_hash_map :: "hasher \<Rightarrow> symbol list \<Rightarrow> (ObservedKey, u64) hmap" where
  "outward_hash_map finish syms =
     (let out = fold (\<lambda>s. xor_entry (outward_key_for s) (outward_symbol_hash finish s))
                  (filter is_outward_visible syms) []
      in fst (fold (fold_parameter finish syms)
                (filter (\<lambda>s. sym_kind s = Parameter) syms) (out, [])))"

definition diff_outward_keys ::
  "(ObservedKey, u64) hmap option \<Rightarrow> (ObservedKey, u64) hmap \<Rightarrow> ObservedKey list" where
  "diff_outward_keys prev next' =
     (case prev of
        None \<Rightarrow> hkeys next'
      | Some prev \<Rightarrow>
          map fst (filter (\<lambda>(k, v). hget prev k \<noteq> Some v) next')
          @ filter (\<lambda>k. hget next' k = None) (hkeys prev))"

subsection \<open>Identifier occurrences\<close>

function collect_all_idents ::
  "string \<Rightarrow> node \<Rightarrow> (string, byte_range) buckets \<Rightarrow> (string, byte_range) buckets outcome"
and collect_child_idents ::
  "string \<Rightarrow> node list \<Rightarrow> (string, byte_range) buckets \<Rightarrow> (string, byte_range) buckets outcome" where
  "collect_all_idents source n m =
     (if node_kind (info n) = IDENT
      then obind (utf8_text source n) (\<lambda>r.
             case r of
               None \<Rightarrow> Returns m
             | Some name \<Rightarrow>
                 Returns (entry_push name
                   \<lparr>br_start = start_byte (info n), br_end = end_byte (info n)\<rparr> m))
      else collect_child_idents source (children n) m)"
| "collect_child_idents source [] m = Returns m"
| "collect_child_idents source (c # cs) m =
     obind (collect_all_idents source c m) (collect_child_idents source cs)"
  by pat_completeness auto
termination
  by (relation "measure (\<lambda>x. case x of Inl (_, n, _) \<Rightarrow> size n | Inr (_, ns, _) \<Rightarrow> size_list size ns)")
    (auto simp: size_children)

declare collect_all_idents.simps [simp del]

definition scan_ident_occurrences :: "string \<Rightarrow> node \<Rightarrow> (string, byte_range) buckets outcome" where
  "scan_ident_occurrences source root = collect_all_idents source root []"

subsection \<open>What the hash map of a document holds\<close>

definition xor_all :: "u64 list \<Rightarrow> u64 option" where
  "xor_all hs = (if hs = [] then None else Some (fold (XOR) hs 0))"

lemma fold_xor: "fold (XOR) hs (h :: u64) = h XOR fold (XOR) hs 0"
proof (induction hs arbitrary: h)
  case (Cons x hs)
  show ?case
    using Cons [of "x XOR h"] Cons [of x] by (simp add: xor.assoc xor.commute xor.left_commute)
qed simp

lemma xor_all_snoc:
  "xor_all (hs @ [h]) = Some (case xor_all hs of None \<Rightarrow> h | Some g \<Rightarrow> g XOR h)"
  by (simp add: xor_all_def xor.commute)

lemma hget_xor_entry:
  "hget (xor_entry k h m) k' =
     (if k' = k then Some (case hget m k of None \<Rightarrow> h | Some g \<Rightarrow> g XOR h) else hget m k')"
  by (simp add: xor_entry_def)

lemma xor_entries_value:
  assumes "\<And>k. hget m k = xor_all (contrib ds k)"
  shows "hget (fold (\<lambda>c. xor_entry (fst c) (snd c)) cs m) k = xor_all (contrib (ds @ cs) k)"
  using assms
proof (induction cs arbitrary: m ds)
  case (Cons c cs)
  have "hget (xor_entry (fst c) (snd c) m) k = xor_all (contrib (ds @ [c]) k)" for k
    using Cons.prems by (auto simp: hget_xor_entry contrib_def xor_all_snoc)
  then show ?case
    using Cons.IH [of "xor_entry (fst c) (snd c) m" "ds @ [c]"] by simp
qed simp

lemma distinct_xor_entries:
  "distinct (hkeys m) \<Longrightarrow> distinct (hkeys (fold (\<lambda>c. xor_entry (fst c) (snd c)) cs m))"
  by (induction cs arbitrary: m) (simp_all add: xor_entry_def distinct_update)

text \<open>Each parameter contributes to the key of its callable, with its position among the
  parameters of that callable.\<close>

definition param_callable :: "symbol list \<Rightarrow> symbol \<Rightarrow> symbol option" where
  "param_callable syms s = Option.bind (container s) (vget syms)"

definition ordinal_in :: "symbol list \<Rightarrow> symbol list \<Rightarrow> symbol \<Rightarrow> nat" where
  "ordinal_in syms earlier c =
     length (filter (\<lambda>p. \<exists>d. param_callable syms p = Some d \<and> sym_id d = sym_id c) earlier)"

fun param_contrib :: "hasher \<Rightarrow> symbol list \<Rightarrow> symbol list \<Rightarrow> symbol list \<Rightarrow> (ObservedKey \<times> u64) list" where
  "param_contrib finish syms earlier [] = []"
| "param_contrib finish syms earlier (p # ps) =
     (case param_callable syms p of
        None \<Rightarrow> []
      | Some c \<Rightarrow> [(outward_key_for c,
                    outward_parameter_hash finish p (of_nat (ordinal_in syms earlier c)))])
     @ param_contrib finish syms (earlier @ [p]) ps"

definition outward_contrib :: "hasher \<Rightarrow> symbol list \<Rightarrow> (ObservedKey \<times> u64) list" where
  "outward_contrib finish syms =
     map (\<lambda>s. (outward_key_for s, outward_symbol_hash finish s)) (filter is_outward_visible syms)
     @ param_contrib finish syms [] (filter (\<lambda>s. sym_kind s = Parameter) syms)"

lemma fold_parameter_value:
  assumes "\<And>c. (case hget ords (sym_id c) of None \<Rightarrow> 0 | Some n \<Rightarrow> n) = of_nat (ordinal_in syms earlier c)"
  shows "fst (fold (fold_parameter finish syms) ps (out, ords)) =
    fold (\<lambda>c. xor_entry (fst c) (snd c)) (param_contrib finish syms earlier ps) out"
  using assms
proof (induction ps arbitrary: out ords earlier)
  case (Cons p ps)
  show ?case
  proof (cases "param_callable syms p")
    case None
    then have "ordinal_in syms (earlier @ [p]) c = ordinal_in syms earlier c" for c
      by (simp add: ordinal_in_def)
    with None Cons.prems Cons.IH [of ords "earlier @ [p]" out] show ?thesis
      by (simp add: fold_parameter_def param_callable_def)
  next
    case (Some c)
    let ?n = "of_nat (ordinal_in syms earlier c) :: u64"
    have now: "(case hget ords (sym_id c) of None \<Rightarrow> 0 | Some n \<Rightarrow> n) = ?n" by (rule Cons.prems)
    have "(case hget (hput (sym_id c) (?n + 1) ords) (sym_id d) of None \<Rightarrow> 0 | Some n \<Rightarrow> n) =
        of_nat (ordinal_in syms (earlier @ [p]) d)" for d
      using Cons.prems [of d] Cons.prems [of c] Some
      by (auto simp: ordinal_in_def)
    from Cons.IH [OF this] show ?thesis
      using Some now by (simp add: fold_parameter_def param_callable_def Let_def)
  qed
qed simp

lemma outward_hash_map_fold:
  "outward_hash_map finish syms =
     fold (\<lambda>c. xor_entry (fst c) (snd c)) (outward_contrib finish syms) []"
proof -
  have "fold (\<lambda>s. xor_entry (outward_key_for s) (outward_symbol_hash finish s)) xs m =
      fold (\<lambda>c. xor_entry (fst c) (snd c))
        (map (\<lambda>s. (outward_key_for s, outward_symbol_hash finish s)) xs) m" for xs m
    by (induction xs arbitrary: m) simp_all
  then show ?thesis
    by (simp add: outward_hash_map_def outward_contrib_def fold_parameter_value ordinal_in_def)
qed

lemma outward_hash_map_value:
  "hget (outward_hash_map finish syms) k = xor_all (contrib (outward_contrib finish syms) k)"
  unfolding outward_hash_map_fold using xor_entries_value [of "[]" "[]" "outward_contrib finish syms" k]
  by (simp add: xor_all_def)

lemma distinct_outward_hash_map: "distinct (hkeys (outward_hash_map finish syms))"
  unfolding outward_hash_map_fold by (rule distinct_xor_entries) simp

lemma set_diff_outward_keys:
  assumes "distinct (hkeys prev)" "distinct (hkeys new)"
  shows "set (diff_outward_keys (Some prev) new) = {k. hget prev k \<noteq> hget new k}"
    and "distinct (diff_outward_keys (Some prev) new)"
proof -
  let ?changed = "map fst (filter (\<lambda>(k, v). hget prev k \<noteq> Some v) new)"
  have changed: "k \<in> set ?changed \<longleftrightarrow> hget new k \<noteq> None \<and> hget prev k \<noteq> hget new k" for k
    using assms(2) by (force simp: map_of_eq_Some_iff)
  show "set (diff_outward_keys (Some prev) new) = {k. hget prev k \<noteq> hget new k}"
    using changed hkeys_iff_hget [of _ prev] by (auto simp: diff_outward_keys_def simp del: set_map)
  have "distinct ?changed"
    using assms(2) by (simp add: distinct_map inj_on_filter_key_eq inj_on_def) 
  moreover have "set ?changed \<inter> set (filter (\<lambda>k. hget new k = None) (hkeys prev)) = {}"
    using changed by (auto simp del: set_map)
  ultimately show "distinct (diff_outward_keys (Some prev) new)"
    using assms(1) by (simp add: diff_outward_keys_def)
qed

subsection \<open>What the identifier scan collects\<close>

fun ident_nodes :: "node \<Rightarrow> node list" where
  "ident_nodes (Node i cs) =
     (if node_kind i = IDENT then [Node i cs] else concat (map ident_nodes cs))"

definition node_range :: "node \<Rightarrow> byte_range" where
  "node_range n = \<lparr>br_start = start_byte (info n), br_end = end_byte (info n)\<rparr>"

text \<open>The nodes of a tree parsed from the text lie in the text.\<close>

definition in_source :: "string \<Rightarrow> node \<Rightarrow> bool" where
  "in_source source n \<longleftrightarrow> start_byte (info n) \<le> end_byte (info n) \<and> end_byte (info n) \<le> length source"

definition node_str :: "string \<Rightarrow> node \<Rightarrow> string option" where
  "node_str source n =
     (let a = start_byte (info n); b = end_byte (info n)
      in if a = b then Some [] else slice source a b)"

lemma utf8_text_in_source: "in_source source n \<Longrightarrow> utf8_text source n = Returns (node_str source n)"
  by (simp add: in_source_def utf8_text_def node_str_def Let_def)

definition ident_contrib :: "string \<Rightarrow> node list \<Rightarrow> (string \<times> byte_range) list" where
  "ident_contrib source ns =
     concat (map (\<lambda>n. if node_str source n \<noteq> None
                      then [(the (node_str source n), node_range n)] else []) ns)"

lemma ident_contrib_append [simp]:
  "ident_contrib source (ns @ ms) = ident_contrib source ns @ ident_contrib source ms"
  by (simp add: ident_contrib_def)

lemma collect_idents_value:
  "list_all (in_source source) (ident_nodes n) \<Longrightarrow>
    collect_all_idents source n m =
      Returns (fold (\<lambda>c. entry_push (fst c) (snd c)) (ident_contrib source (ident_nodes n)) m)"
  "list_all (in_source source) (concat (map ident_nodes ns)) \<Longrightarrow>
    collect_child_idents source ns m =
      Returns (fold (\<lambda>c. entry_push (fst c) (snd c))
        (ident_contrib source (concat (map ident_nodes ns))) m)"
proof (induction source n m and source ns m rule: collect_all_idents_collect_child_idents.induct)
  case (1 source n m)
  obtain i cs where n: "n = Node i cs" by (cases n)
  show ?case
  proof (cases "node_kind i = IDENT")
    case True
    with "1.prems" n show ?thesis
      by (auto simp: collect_all_idents.simps utf8_text_in_source ident_contrib_def node_range_def
          split: option.splits)
  next
    case False
    with "1" n show ?thesis by (simp add: collect_all_idents.simps)
  qed
next
  case (2 source m)
  then show ?case by (simp add: ident_contrib_def)
next
  case (3 source c cs m)
  then show ?case by simp
qed

subsection \<open>Properties\<close>

text \<open>
  C22: the identifier scan of a tree whose identifiers lie in the text returns, and lists under
  every name exactly the byte ranges of the identifiers spelled so, in document order; no name
  has an empty list.
\<close>

theorem scan_idents_exact:
  assumes "list_all (in_source source) (ident_nodes root)"
  shows "\<exists>m. scan_ident_occurrences source root = Returns m \<and> buckets_ok m \<and>
    (\<forall>name. bucket m name =
       map node_range (filter (\<lambda>n. node_str source n = Some name) (ident_nodes root)))"
proof -
  let ?m = "fold (\<lambda>c. entry_push (fst c) (snd c)) (ident_contrib source (ident_nodes root)) []"
  have "scan_ident_occurrences source root = Returns ?m"
    unfolding scan_ident_occurrences_def using assms by (rule collect_idents_value)
  moreover have "buckets_ok ?m" by (rule flat.ok_push_all) simp
  moreover have "bucket ?m name =
      map node_range (filter (\<lambda>n. node_str source n = Some name) (ident_nodes root))" for name
    unfolding flat.view_push_all ident_contrib_def contrib_singleton_map
    by (auto intro!: arg_cong [of _ _ "map node_range"] filter_cong)
  ultimately show ?thesis by blast
qed

theorem scan_idents_exact_witness:
  "\<exists>m. scan_ident_occurrences ''x = x;''
         (sample_node ''expr'' 0 6 [sample_node IDENT 0 1 [], sample_node IDENT 4 5 []]) = Returns m \<and>
     bucket m ''x'' = [\<lparr>br_start = 0, br_end = 1\<rparr>, \<lparr>br_start = 4, br_end = 5\<rparr>]"
proof -
  let ?root = "sample_node ''expr'' 0 6 [sample_node IDENT 0 1 [], sample_node IDENT 4 5 []]"
  have nodes: "ident_nodes ?root = [sample_node IDENT 0 1 [], sample_node IDENT 4 5 []]"
    by (simp add: sample_node_def sample_info_def IDENT_def)
  have "list_all (in_source ''x = x;'') (ident_nodes ?root)"
    unfolding nodes by (simp add: in_source_def sample_node_def sample_info_def)
  moreover have "node_str ''x = x;'' (sample_node IDENT 0 1 []) = Some ''x''"
    "node_str ''x = x;'' (sample_node IDENT 4 5 []) = Some ''x''"
    by code_simp+
  moreover have "node_range (sample_node IDENT 0 1 []) = \<lparr>br_start = 0, br_end = 1\<rparr>"
    "node_range (sample_node IDENT 4 5 []) = \<lparr>br_start = 4, br_end = 5\<rparr>"
    by (simp_all add: node_range_def sample_node_def sample_info_def)
  ultimately show ?thesis
    using scan_idents_exact [of "''x = x;''" ?root] unfolding nodes by force
qed

text \<open>
  C23: the keys reported as changed between two versions of a document are exactly those whose
  hash differs, each once.  The hash behind a key is the exclusive or of the hashes of the
  declarations exposed under it and of their parameters, each parameter with its position, so
  declarations may be reordered freely but a reordered parameter list is seen.
\<close>

theorem changed_keys_exact:
  "set (diff_outward_keys (Some (outward_hash_map finish old)) (outward_hash_map finish new)) =
     {k. xor_all (contrib (outward_contrib finish old) k) \<noteq> xor_all (contrib (outward_contrib finish new) k)} \<and>
   distinct (diff_outward_keys (Some (outward_hash_map finish old)) (outward_hash_map finish new)) \<and>
   set (diff_outward_keys None (outward_hash_map finish new)) = fst ` set (outward_contrib finish new)"
proof -
  have "k \<in> set (hkeys (outward_hash_map finish new)) \<longleftrightarrow> k \<in> fst ` set (outward_contrib finish new)" for k
    unfolding hkeys_iff_hget outward_hash_map_value by (force simp: xor_all_def contrib_def filter_empty_conv)
  then show ?thesis
    using set_diff_outward_keys [OF distinct_outward_hash_map distinct_outward_hash_map, of finish old finish new]
    by (auto simp: outward_hash_map_value diff_outward_keys_def simp del: set_map)
qed

end
