(* ===== verification/Workspace_Index.thy ===== *)
theory Workspace_Index
  imports Outward_Keys
begin

text \<open>
  \<^verbatim>\<open>src/resolve/workspace_index/\<close> and \<^verbatim>\<open>src/resolve/completion_catalog.rs\<close>: the index of
  the declarations of all documents, its lookups, and the completion catalog derived from it.
\<close>

unbundle bit_operations_syntax

record definition_site =
  def_uri :: string
  def_symbol :: symbol

subsection \<open>Completion catalog\<close>

record completion_catalog =
  callables :: "definition_site list"
  types :: "definition_site list"
  enum_members :: "definition_site list"

definition CompletionCatalog_default :: completion_catalog where
  "CompletionCatalog_default = \<lparr>callables = [], types = [], enum_members = []\<rparr>"

definition global_catalog_changed :: "ObservedKey list \<Rightarrow> bool" where
  "global_catalog_changed keys \<longleftrightarrow>
     (\<exists>k \<in> set keys. case k of TopLevel _ \<Rightarrow> True | EnumMemberKey _ \<Rightarrow> True | MemberKey _ _ \<Rightarrow> False)"

definition build_callables :: "(string, definition_site) buckets \<Rightarrow> definition_site list" where
  "build_callables top_level =
     filter (\<lambda>d. sym_kind (def_symbol d) = Function \<and>
                 flavour (def_symbol d) \<notin> {Some Exec, Some Quest})
       (concat (hvalues top_level))"

definition build_types :: "(string, definition_site) buckets \<Rightarrow> definition_site list" where
  "build_types top_level = filter (\<lambda>d. is_type (sym_kind (def_symbol d))) (concat (hvalues top_level))"

definition build_enum_members :: "(string, definition_site) buckets \<Rightarrow> definition_site list" where
  "build_enum_members by_name = List.map_filter vlast (hvalues by_name)"

definition merge_ws_base :: "definition_site list \<Rightarrow> definition_site list \<Rightarrow> definition_site list" where
  "merge_ws_base ws base =
     (if base = [] then ws
      else if ws = [] then base
      else let shadowed = map (\<lambda>d. type_name (def_symbol d)) ws;
               extra = length (filter (\<lambda>d. type_name (def_symbol d) \<notin> set shadowed) base)
           in if extra = 0 then ws
              else ws @ filter (\<lambda>d. type_name (def_symbol d) \<notin> set shadowed) base)"

fun merge_fresh :: "string list \<Rightarrow> definition_site list \<Rightarrow> definition_site list" where
  "merge_fresh shadowed [] = []"
| "merge_fresh shadowed (d # ds) =
     (if type_name (def_symbol d) \<in> set shadowed then merge_fresh shadowed ds
      else d # merge_fresh (type_name (def_symbol d) # shadowed) ds)"

definition merge_ws_base_three ::
  "definition_site list \<Rightarrow> definition_site list \<Rightarrow> definition_site list \<Rightarrow> definition_site list" where
  "merge_ws_base_three ws base builtins =
     ws @ merge_fresh (map (\<lambda>d. type_name (def_symbol d)) ws) (base @ builtins)"

subsection \<open>State\<close>

record workspace_index =
  documents :: "(string, symbol list) hmap"
  wi_top_level_by_name :: "(string, definition_site) buckets"
  enum_member_by_name :: "(string, definition_site) buckets"
  superclass_by_name :: "(string, string \<times> string) buckets"
  subclasses_by_name :: "(string, string \<times> string) buckets"
  states_by_owner :: "(string, string, definition_site) nested_buckets"
  member_by_type :: "(string, string, definition_site) nested_buckets"
  annotated_members_by_type :: "(string, string, definition_site) nested_buckets"
  native_functions_by_name :: "(string, definition_site) buckets"
  native_member_by_type :: "(string, string, definition_site) nested_buckets"
  doc_idents :: "(string, (string, byte_range) buckets) hmap"
  doc_surface_hashes :: "(string, u64) hmap"
  surface_hash :: u64
  generation :: u64
  doc_outward_hashes :: "(string, (ObservedKey, u64) hmap) hmap"
  catalog :: completion_catalog
  completion_catalog_dirty :: bool
  catalog_rebuild_suppressed :: u32

definition WorkspaceIndex_default :: workspace_index where
  "WorkspaceIndex_default =
     \<lparr>documents = [], wi_top_level_by_name = [], enum_member_by_name = [], superclass_by_name = [],
      subclasses_by_name = [], states_by_owner = [], member_by_type = [],
      annotated_members_by_type = [], native_functions_by_name = [], native_member_by_type = [],
      doc_idents = [], doc_surface_hashes = [], surface_hash = 0, generation = 0,
      doc_outward_hashes = [], catalog = CompletionCatalog_default,
      completion_catalog_dirty = False, catalog_rebuild_suppressed = 0\<rparr>"

record doc_contribution =
  dc_symbols :: "symbol list"
  dc_idents :: "(string, byte_range) buckets"
  dc_surface_hash :: u64
  dc_outward :: "(ObservedKey, u64) hmap"

subsection \<open>Entries of one document\<close>

definition remove_native :: "string \<Rightarrow> symbol \<Rightarrow> workspace_index \<Rightarrow> workspace_index" where
  "remove_native uri s idx =
     (case container_name s of
        None \<Rightarrow> idx\<lparr>native_functions_by_name :=
                  retain_and_prune (\<lambda>d. def_uri d \<noteq> uri) (sym_name s) (native_functions_by_name idx)\<rparr>
      | Some c \<Rightarrow> idx\<lparr>native_member_by_type :=
                  retain_and_prune_nested (\<lambda>d. def_uri d \<noteq> uri) (c, sym_name s)
                    (native_member_by_type idx)\<rparr>)"

definition insert_native :: "string \<Rightarrow> symbol \<Rightarrow> workspace_index \<Rightarrow> workspace_index" where
  "insert_native uri s idx =
     (let d = \<lparr>def_uri = uri, def_symbol = s\<rparr>
      in case container_name s of
           None \<Rightarrow> idx\<lparr>native_functions_by_name :=
                     entry_push (sym_name s) d (native_functions_by_name idx)\<rparr>
         | Some c \<Rightarrow> idx\<lparr>native_member_by_type :=
                     nested_push (c, sym_name s) d (native_member_by_type idx)\<rparr>)"

text \<open>The body of the loop of \<open>remove_from_indices\<close>.\<close>

definition remove_symbol :: "string \<Rightarrow> symbol \<Rightarrow> workspace_index \<Rightarrow> workspace_index" where
  "remove_symbol uri s idx =
     (if requires_import s then remove_native uri s idx
      else if container s = None then
        (let idx1 = idx\<lparr>wi_top_level_by_name :=
               retain_and_prune (\<lambda>d. def_uri d \<noteq> uri) (type_name s) (wi_top_level_by_name idx)\<rparr>;
             idx2 =
               (if extends_by_type_name (sym_kind s)
                then let i = idx1\<lparr>superclass_by_name :=
                           retain_and_prune (\<lambda>(u, _). u \<noteq> uri) (sym_name s) (superclass_by_name idx1)\<rparr>
                     in (case base_class s of
                           None \<Rightarrow> i
                         | Some base \<Rightarrow> i\<lparr>subclasses_by_name :=
                             retain_and_prune (\<lambda>(u, d). u \<noteq> uri \<or> d \<noteq> sym_name s) base
                               (subclasses_by_name i)\<rparr>)
                else idx1);
             idx3 =
               (if sym_kind s = State
                then (case owner_class s of
                        None \<Rightarrow> idx2
                      | Some own \<Rightarrow> idx2\<lparr>states_by_owner :=
                          retain_and_prune_nested (\<lambda>d. def_uri d \<noteq> uri) (own, sym_name s)
                            (states_by_owner idx2)\<rparr>)
                else idx2)
         in (case annotation_target_class_safe s of
               None \<Rightarrow> idx3
             | Some target \<Rightarrow> idx3\<lparr>annotated_members_by_type :=
                 retain_and_prune_nested (\<lambda>d. def_uri d \<noteq> uri) (target, sym_name s)
                   (annotated_members_by_type idx3)\<rparr>))
      else
        (case container_name s of
           None \<Rightarrow> idx
         | Some cn \<Rightarrow>
             (let idx1 = idx\<lparr>member_by_type :=
                    retain_and_prune_nested (\<lambda>d. def_uri d \<noteq> uri) (cn, sym_name s) (member_by_type idx)\<rparr>
              in if sym_kind s = EnumMember
                 then idx1\<lparr>enum_member_by_name :=
                   retain_and_prune (\<lambda>d. def_uri d \<noteq> uri) (sym_name s) (enum_member_by_name idx1)\<rparr>
                 else idx1)))"

definition remove_from_indices :: "string \<Rightarrow> workspace_index \<Rightarrow> workspace_index" where
  "remove_from_indices uri idx =
     (case hget (documents idx) uri of
        None \<Rightarrow> idx
      | Some old_symbols \<Rightarrow> fold (remove_symbol uri) old_symbols idx)"

text \<open>The body of the loop of \<open>insert_into_indices\<close>.\<close>

definition insert_symbol :: "string \<Rightarrow> symbol \<Rightarrow> workspace_index \<Rightarrow> workspace_index" where
  "insert_symbol uri s idx =
     (let d = \<lparr>def_uri = uri, def_symbol = s\<rparr>
      in if requires_import s then insert_native uri s idx
         else (case annotation_target_class_safe s of
           Some target \<Rightarrow> idx\<lparr>annotated_members_by_type :=
             nested_push (target, sym_name s) d (annotated_members_by_type idx)\<rparr>
         | None \<Rightarrow>
             if container s = None then
               (let idx1 = idx\<lparr>wi_top_level_by_name :=
                      entry_push (type_name s) d (wi_top_level_by_name idx)\<rparr>;
                    idx2 =
                      (if extends_by_type_name (sym_kind s)
                       then (case base_class s of
                               None \<Rightarrow> idx1
                             | Some superclass \<Rightarrow> idx1\<lparr>
                                 superclass_by_name :=
                                   entry_push (sym_name s) (uri, superclass) (superclass_by_name idx1),
                                 subclasses_by_name :=
                                   entry_push superclass (uri, sym_name s) (subclasses_by_name idx1)\<rparr>)
                       else idx1)
                in if sym_kind s = State
                   then (case owner_class s of
                           None \<Rightarrow> idx2
                         | Some own \<Rightarrow> idx2\<lparr>states_by_owner :=
                             nested_push (own, sym_name s) d (states_by_owner idx2)\<rparr>)
                   else idx2)
             else
               (case container_name s of
                  None \<Rightarrow> idx
                | Some cn \<Rightarrow>
                    (let idx1 = idx\<lparr>member_by_type :=
                           nested_push (cn, sym_name s) d (member_by_type idx)\<rparr>
                     in if sym_kind s = EnumMember
                        then idx1\<lparr>enum_member_by_name :=
                          entry_push (sym_name s) d (enum_member_by_name idx1)\<rparr>
                        else idx1))))"

definition insert_into_indices :: "string \<Rightarrow> symbol list \<Rightarrow> workspace_index \<Rightarrow> workspace_index" where
  "insert_into_indices uri syms idx = fold (insert_symbol uri) syms idx"

subsection \<open>Updates\<close>

definition rebuild_completion_catalog :: "workspace_index \<Rightarrow> workspace_index" where
  "rebuild_completion_catalog idx =
     idx\<lparr>catalog :=
           \<lparr>callables = build_callables (wi_top_level_by_name idx),
            types = build_types (wi_top_level_by_name idx),
            enum_members = build_enum_members (enum_member_by_name idx)\<rparr>,
         completion_catalog_dirty := False\<rparr>"

definition maybe_rebuild_completion_catalog :: "workspace_index \<Rightarrow> workspace_index" where
  "maybe_rebuild_completion_catalog idx =
     (if completion_catalog_dirty idx \<and> catalog_rebuild_suppressed idx = 0
      then rebuild_completion_catalog idx else idx)"

definition begin_bulk_catalog_update :: "workspace_index \<Rightarrow> workspace_index" where
  "begin_bulk_catalog_update idx =
     idx\<lparr>catalog_rebuild_suppressed :=
       (if catalog_rebuild_suppressed idx = 0xFFFFFFFF then 0xFFFFFFFF
        else catalog_rebuild_suppressed idx + 1)\<rparr>"

definition end_bulk_catalog_update :: "workspace_index \<Rightarrow> workspace_index" where
  "end_bulk_catalog_update idx =
     maybe_rebuild_completion_catalog (idx\<lparr>catalog_rebuild_suppressed :=
       (if catalog_rebuild_suppressed idx = 0 then 0 else catalog_rebuild_suppressed idx - 1)\<rparr>)"

text \<open>The end of both updates: the catalog is rebuilt when a global key changed.\<close>

definition catalog_after :: "ObservedKey list \<Rightarrow> workspace_index \<Rightarrow> workspace_index" where
  "catalog_after changed_keys idx =
     (if global_catalog_changed changed_keys
      then maybe_rebuild_completion_catalog (idx\<lparr>completion_catalog_dirty := True\<rparr>)
      else idx)"

definition apply_contribution ::
  "string \<Rightarrow> doc_contribution \<Rightarrow> workspace_index \<Rightarrow> ObservedKey list \<times> workspace_index" where
  "apply_contribution uri dc idx =
     (let idx = remove_from_indices uri idx;
          idx = idx\<lparr>doc_idents := hdel uri (doc_idents idx)\<rparr>;
          idx = insert_into_indices uri (dc_symbols dc) idx;
          idx = idx\<lparr>doc_idents := hput uri (dc_idents dc) (doc_idents idx)\<rparr>;
          idx = idx\<lparr>doc_surface_hashes := hput uri (dc_surface_hash dc) (doc_surface_hashes idx),
                    surface_hash := (case hget (doc_surface_hashes idx) uri of
                       None \<Rightarrow> surface_hash idx
                     | Some old_hash \<Rightarrow> surface_hash idx XOR old_hash)\<rparr>;
          idx = idx\<lparr>surface_hash := surface_hash idx XOR dc_surface_hash dc\<rparr>;
          changed_keys = diff_outward_keys (hget (doc_outward_hashes idx) uri) (dc_outward dc);
          idx = idx\<lparr>doc_outward_hashes := hput uri (dc_outward dc) (doc_outward_hashes idx),
                    documents := hput uri (dc_symbols dc) (documents idx),
                    generation := generation idx + 1\<rparr>
      in (changed_keys, catalog_after changed_keys idx))"

definition remove_document :: "string \<Rightarrow> workspace_index \<Rightarrow> ObservedKey list \<times> workspace_index" where
  "remove_document uri idx =
     (let idx = remove_from_indices uri idx;
          idx = idx\<lparr>doc_idents := hdel uri (doc_idents idx),
                    documents := hdel uri (documents idx)\<rparr>;
          idx = idx\<lparr>doc_surface_hashes := hdel uri (doc_surface_hashes idx),
                    surface_hash := (case hget (doc_surface_hashes idx) uri of
                       None \<Rightarrow> surface_hash idx
                     | Some old_hash \<Rightarrow> surface_hash idx XOR old_hash)\<rparr>;
          changed_keys = (case hget (doc_outward_hashes idx) uri of None \<Rightarrow> [] | Some m \<Rightarrow> hkeys m);
          idx = idx\<lparr>doc_outward_hashes := hdel uri (doc_outward_hashes idx),
                    generation := generation idx + 1\<rparr>
      in (changed_keys, catalog_after changed_keys idx))"

text \<open>A parsed document, as the index sees it: its symbols, its text and its tree.\<close>

definition compute_contribution ::
  "hasher \<Rightarrow> string \<Rightarrow> symbol list \<Rightarrow> string \<Rightarrow> node \<Rightarrow> doc_contribution outcome" where
  "compute_contribution finish uri syms source root =
     obind (scan_ident_occurrences source root) (\<lambda>idents.
       Returns \<lparr>dc_symbols = syms, dc_idents = idents,
                dc_surface_hash = doc_surface_hash finish uri syms,
                dc_outward = outward_hash_map finish syms\<rparr>)"

definition update_document ::
  "hasher \<Rightarrow> string \<Rightarrow> symbol list \<Rightarrow> string \<Rightarrow> node \<Rightarrow> workspace_index
   \<Rightarrow> (ObservedKey list \<times> workspace_index) outcome" where
  "update_document finish uri syms source root idx =
     obind (compute_contribution finish uri syms source root)
       (\<lambda>dc. Returns (apply_contribution uri dc idx))"

definition insert_synthetic ::
  "hasher \<Rightarrow> string \<Rightarrow> symbol list \<Rightarrow> workspace_index \<Rightarrow> ObservedKey list \<times> workspace_index" where
  "insert_synthetic finish uri syms idx =
     apply_contribution uri
       \<lparr>dc_symbols = syms, dc_idents = [], dc_surface_hash = doc_surface_hash finish uri syms,
        dc_outward = outward_hash_map finish syms\<rparr> idx"

subsection \<open>Lookups\<close>

definition is_indexed :: "workspace_index \<Rightarrow> string \<Rightarrow> bool" where
  "is_indexed idx uri \<longleftrightarrow> hget (doc_idents idx) uri \<noteq> None"

definition ident_ranges_in_doc :: "workspace_index \<Rightarrow> string \<Rightarrow> string \<Rightarrow> byte_range list option" where
  "ident_ranges_in_doc idx uri name = Option.bind (hget (doc_idents idx) uri) (\<lambda>m. hget m name)"

definition find_top_level :: "workspace_index \<Rightarrow> string \<Rightarrow> definition_site option" where
  "find_top_level idx name =
     Option.bind (hget (wi_top_level_by_name idx) name) (\<lambda>defs.
       or_else (find (\<lambda>d. sym_kind (def_symbol d) \<noteq> State) defs) (vfirst defs))"

datatype name_context = TypeCtx | StateExtends string | Callable | Value

fun accepts :: "name_context \<Rightarrow> symbol_kind \<Rightarrow> bool" where
  "accepts TypeCtx kind = is_type kind"
| "accepts (StateExtends _) kind = (kind = State)"
| "accepts Callable kind = (kind \<in> {Function, Event, Struct})"
| "accepts Value kind = True"

definition find_top_level_filtered ::
  "workspace_index \<Rightarrow> string \<Rightarrow> name_context \<Rightarrow> definition_site option" where
  "find_top_level_filtered idx name ctx =
     Option.bind (hget (wi_top_level_by_name idx) name)
       (find (\<lambda>d. accepts ctx (sym_kind (def_symbol d))))"

definition all_top_level_with_name :: "workspace_index \<Rightarrow> string \<Rightarrow> definition_site list" where
  "all_top_level_with_name idx name = bucket (wi_top_level_by_name idx) name"

definition find_state_in_owner :: "workspace_index \<Rightarrow> string \<Rightarrow> string \<Rightarrow> definition_site option" where
  "find_state_in_owner idx own name =
     Option.bind (hget (states_by_owner idx) own) (\<lambda>m. Option.bind (hget m name) vlast)"

definition states_named :: "workspace_index \<Rightarrow> string \<Rightarrow> definition_site list" where
  "states_named idx name =
     List.map_filter (\<lambda>m. Option.bind (hget m name) vlast) (hvalues (states_by_owner idx))"

definition find_enum_member :: "workspace_index \<Rightarrow> string \<Rightarrow> definition_site option" where
  "find_enum_member idx name = Option.bind (hget (enum_member_by_name idx) name) vlast"

definition all_enum_members :: "workspace_index \<Rightarrow> definition_site list" where
  "all_enum_members idx = enum_members (catalog idx)"

definition all_types :: "workspace_index \<Rightarrow> definition_site list" where
  "all_types idx = types (catalog idx)"

definition all_top_level_callables :: "workspace_index \<Rightarrow> definition_site list" where
  "all_top_level_callables idx = callables (catalog idx)"

definition all_top_level :: "workspace_index \<Rightarrow> (string \<times> symbol) list" where
  "all_top_level idx =
     concat (map (\<lambda>(uri, syms). map (\<lambda>s. (uri, s)) (filter (\<lambda>s. container s = None) syms))
       (documents idx))"

definition class_body_member_of :: "workspace_index \<Rightarrow> string \<Rightarrow> string \<Rightarrow> definition_site option" where
  "class_body_member_of idx c name =
     Option.bind (Option.bind (hget (member_by_type idx) c) (\<lambda>m. hget m name)) vlast"

definition direct_member_of ::
  "workspace_index \<Rightarrow> string \<Rightarrow> string \<Rightarrow> access_level \<Rightarrow> definition_site option" where
  "direct_member_of idx c name min_access =
     filter_option (\<lambda>d. min_access \<le> access (def_symbol d))
       (or_else (Option.bind (Option.bind (hget (member_by_type idx) c) (\<lambda>m. hget m name)) vlast)
         (Option.bind (Option.bind (hget (annotated_members_by_type idx) c) (\<lambda>m. hget m name)) vfirst))"

definition class_body_members_of :: "workspace_index \<Rightarrow> string \<Rightarrow> definition_site list" where
  "class_body_members_of idx c =
     (case hget (member_by_type idx) c of None \<Rightarrow> [] | Some m \<Rightarrow> List.map_filter vlast (hvalues m))"

definition direct_members_of :: "workspace_index \<Rightarrow> string \<Rightarrow> access_level \<Rightarrow> definition_site list" where
  "direct_members_of idx c min_access =
     filter (\<lambda>d. min_access \<le> access (def_symbol d))
       (class_body_members_of idx c @
        (case hget (annotated_members_by_type idx) c of None \<Rightarrow> [] | Some m \<Rightarrow> concat (hvalues m)))"

definition annotated_members :: "workspace_index \<Rightarrow> string \<Rightarrow> string \<Rightarrow> definition_site list" where
  "annotated_members idx c name = nested_bucket (annotated_members_by_type idx) (c, name)"

definition find_native_top_level :: "workspace_index \<Rightarrow> string \<Rightarrow> definition_site option" where
  "find_native_top_level idx name =
     or_else (Option.bind (hget (native_functions_by_name idx) name) vlast)
       (Option.bind (hget (wi_top_level_by_name idx) name)
          (find (\<lambda>d. origin (def_symbol d) = Native)))"

definition direct_native_member_of :: "workspace_index \<Rightarrow> string \<Rightarrow> string \<Rightarrow> definition_site option" where
  "direct_native_member_of idx c name =
     Option.bind (Option.bind (hget (native_member_by_type idx) c) (\<lambda>m. hget m name)) vlast"

definition wi_superclass_of :: "workspace_index \<Rightarrow> string \<Rightarrow> string option" where
  "wi_superclass_of idx class_name =
     map_option snd (Option.bind (hget (superclass_by_name idx) class_name) vlast)"

definition direct_subclasses_of :: "workspace_index \<Rightarrow> string \<Rightarrow> string list" where
  "direct_subclasses_of idx base = map snd (bucket (subclasses_by_name idx) base)"

definition find_symbol_at_selection :: "workspace_index \<Rightarrow> string \<Rightarrow> byte_range \<Rightarrow> symbol option" where
  "find_symbol_at_selection idx uri selection =
     Option.bind (hget (documents idx) uri) (find (\<lambda>s. selection_byte_range s = selection))"

definition find_symbol_by_name :: "workspace_index \<Rightarrow> string \<Rightarrow> string \<Rightarrow> symbol option" where
  "find_symbol_by_name idx uri name =
     Option.bind (hget (documents idx) uri) (find (\<lambda>s. sym_name s = name))"

definition full_parameters_of :: "workspace_index \<Rightarrow> string \<Rightarrow> symbol_id \<Rightarrow> symbol list" where
  "full_parameters_of idx uri callable_id =
     (case hget (documents idx) uri of
        None \<Rightarrow> []
      | Some syms \<Rightarrow> filter (\<lambda>s. sym_kind s = Parameter \<and> container s = Some callable_id) syms)"

end
