(* ===== verification/Index_Invariant.thy ===== *)
theory Index_Invariant
  imports Workspace_Index
begin

text \<open>
  The workspace index stays a mirror of the documents it holds: what an update does to each of
  the nine indexes, the invariant of every reachable index, and what the lookups then return.
\<close>

unbundle bit_operations_syntax

subsection \<open>What a symbol contributes to each index\<close>

abbreviation site :: "string \<Rightarrow> symbol \<Rightarrow> definition_site" where
  "site u s \<equiv> \<lparr>def_uri = u, def_symbol = s\<rparr>"

text \<open>Indexed as a top-level declaration, as a class-body member, or through its annotation.\<close>

definition at_top_level :: "symbol \<Rightarrow> bool" where
  "at_top_level s \<longleftrightarrow>
     \<not> requires_import s \<and> annotation_target_class_safe s = None \<and> container s = None"

definition in_class_body :: "symbol \<Rightarrow> bool" where
  "in_class_body s \<longleftrightarrow>
     \<not> requires_import s \<and> annotation_target_class_safe s = None \<and> container s \<noteq> None \<and>
     container_name s \<noteq> None"

definition is_injected :: "symbol \<Rightarrow> bool" where
  "is_injected s \<longleftrightarrow> \<not> requires_import s \<and> annotation_target_class_safe s \<noteq> None"

definition top_contrib :: "string \<Rightarrow> symbol \<Rightarrow> (string \<times> definition_site) list" where
  "top_contrib u s = (if at_top_level s then [(type_name s, site u s)] else [])"

definition super_contrib :: "string \<Rightarrow> symbol \<Rightarrow> (string \<times> string \<times> string) list" where
  "super_contrib u s =
     (if at_top_level s \<and> extends_by_type_name (sym_kind s) \<and> base_class s \<noteq> None
      then [(sym_name s, u, the (base_class s))] else [])"

definition sub_contrib :: "string \<Rightarrow> symbol \<Rightarrow> (string \<times> string \<times> string) list" where
  "sub_contrib u s =
     (if at_top_level s \<and> extends_by_type_name (sym_kind s) \<and> base_class s \<noteq> None
      then [(the (base_class s), u, sym_name s)] else [])"

definition state_contrib :: "string \<Rightarrow> symbol \<Rightarrow> ((string \<times> string) \<times> definition_site) list" where
  "state_contrib u s =
     (if at_top_level s \<and> sym_kind s = State \<and> owner_class s \<noteq> None
      then [((the (owner_class s), sym_name s), site u s)] else [])"

definition member_contrib :: "string \<Rightarrow> symbol \<Rightarrow> ((string \<times> string) \<times> definition_site) list" where
  "member_contrib u s =
     (if in_class_body s then [((the (container_name s), sym_name s), site u s)] else [])"

definition enum_contrib :: "string \<Rightarrow> symbol \<Rightarrow> (string \<times> definition_site) list" where
  "enum_contrib u s =
     (if in_class_body s \<and> sym_kind s = EnumMember then [(sym_name s, site u s)] else [])"

definition annotated_contrib :: "string \<Rightarrow> symbol \<Rightarrow> ((string \<times> string) \<times> definition_site) list" where
  "annotated_contrib u s =
     (if is_injected s then [((the (annotation_target_class_safe s), sym_name s), site u s)] else [])"

definition native_fn_contrib :: "string \<Rightarrow> symbol \<Rightarrow> (string \<times> definition_site) list" where
  "native_fn_contrib u s =
     (if requires_import s \<and> container_name s = None then [(sym_name s, site u s)] else [])"

definition native_member_contrib ::
  "string \<Rightarrow> symbol \<Rightarrow> ((string \<times> string) \<times> definition_site) list" where
  "native_member_contrib u s =
     (if requires_import s \<and> container_name s \<noteq> None
      then [((the (container_name s), sym_name s), site u s)] else [])"

lemmas contrib_defs =
  top_contrib_def super_contrib_def sub_contrib_def state_contrib_def member_contrib_def
  enum_contrib_def annotated_contrib_def native_fn_contrib_def native_member_contrib_def
  at_top_level_def in_class_body_def is_injected_def

text \<open>What removing a symbol takes out of each index.\<close>

definition others :: "string \<Rightarrow> definition_site \<Rightarrow> bool" where
  "others u d \<longleftrightarrow> def_uri d \<noteq> u"

definition top_level_old :: "symbol \<Rightarrow> bool" where
  "top_level_old s \<longleftrightarrow> \<not> requires_import s \<and> container s = None"

definition top_removal :: "string \<Rightarrow> symbol \<Rightarrow> (string \<times> (definition_site \<Rightarrow> bool)) list" where
  "top_removal u s = (if top_level_old s then [(type_name s, others u)] else [])"

definition super_removal :: "string \<Rightarrow> symbol \<Rightarrow> (string \<times> (string \<times> string \<Rightarrow> bool)) list" where
  "super_removal u s =
     (if top_level_old s \<and> extends_by_type_name (sym_kind s)
      then [(sym_name s, \<lambda>(w, _). w \<noteq> u)] else [])"

definition sub_removal :: "string \<Rightarrow> symbol \<Rightarrow> (string \<times> (string \<times> string \<Rightarrow> bool)) list" where
  "sub_removal u s =
     (if top_level_old s \<and> extends_by_type_name (sym_kind s) \<and> base_class s \<noteq> None
      then [(the (base_class s), \<lambda>(w, d). w \<noteq> u \<or> d \<noteq> sym_name s)] else [])"

definition state_removal :: "string \<Rightarrow> symbol \<Rightarrow> ((string \<times> string) \<times> (definition_site \<Rightarrow> bool)) list" where
  "state_removal u s =
     (if top_level_old s \<and> sym_kind s = State \<and> owner_class s \<noteq> None
      then [((the (owner_class s), sym_name s), others u)] else [])"

definition member_removal :: "string \<Rightarrow> symbol \<Rightarrow> ((string \<times> string) \<times> (definition_site \<Rightarrow> bool)) list" where
  "member_removal u s =
     (if \<not> requires_import s \<and> container s \<noteq> None \<and> container_name s \<noteq> None
      then [((the (container_name s), sym_name s), others u)] else [])"

definition enum_removal :: "string \<Rightarrow> symbol \<Rightarrow> (string \<times> (definition_site \<Rightarrow> bool)) list" where
  "enum_removal u s =
     (if \<not> requires_import s \<and> container s \<noteq> None \<and> container_name s \<noteq> None \<and> sym_kind s = EnumMember
      then [(sym_name s, others u)] else [])"

definition annotated_removal ::
  "string \<Rightarrow> symbol \<Rightarrow> ((string \<times> string) \<times> (definition_site \<Rightarrow> bool)) list" where
  "annotated_removal u s =
     (if top_level_old s \<and> annotation_target_class_safe s \<noteq> None
      then [((the (annotation_target_class_safe s), sym_name s), others u)] else [])"

definition native_fn_removal :: "string \<Rightarrow> symbol \<Rightarrow> (string \<times> (definition_site \<Rightarrow> bool)) list" where
  "native_fn_removal u s =
     (if requires_import s \<and> container_name s = None then [(sym_name s, others u)] else [])"

definition native_member_removal ::
  "string \<Rightarrow> symbol \<Rightarrow> ((string \<times> string) \<times> (definition_site \<Rightarrow> bool)) list" where
  "native_member_removal u s =
     (if requires_import s \<and> container_name s \<noteq> None
      then [((the (container_name s), sym_name s), others u)] else [])"

lemmas removal_defs =
  top_removal_def super_removal_def sub_removal_def state_removal_def member_removal_def
  enum_removal_def annotated_removal_def native_fn_removal_def native_member_removal_def
  top_level_old_def others_def [abs_def]

abbreviation push_flat where
  "push_flat cs m \<equiv> fold (\<lambda>c. entry_push (fst c) (snd c)) cs m"

abbreviation push_nested where
  "push_nested cs m \<equiv> fold (\<lambda>c. nested_push (fst c) (snd c)) cs m"

abbreviation retain_flat where
  "retain_flat rs m \<equiv> fold (\<lambda>r. retain_and_prune (snd r) (fst r)) rs m"

abbreviation retain_nested where
  "retain_nested rs m \<equiv> fold (\<lambda>r. retain_and_prune_nested (snd r) (fst r)) rs m"

lemma insert_symbol_fields:
  "wi_top_level_by_name (insert_symbol u s idx) = push_flat (top_contrib u s) (wi_top_level_by_name idx)"
  "superclass_by_name (insert_symbol u s idx) = push_flat (super_contrib u s) (superclass_by_name idx)"
  "subclasses_by_name (insert_symbol u s idx) = push_flat (sub_contrib u s) (subclasses_by_name idx)"
  "states_by_owner (insert_symbol u s idx) = push_nested (state_contrib u s) (states_by_owner idx)"
  "member_by_type (insert_symbol u s idx) = push_nested (member_contrib u s) (member_by_type idx)"
  "enum_member_by_name (insert_symbol u s idx) = push_flat (enum_contrib u s) (enum_member_by_name idx)"
  "annotated_members_by_type (insert_symbol u s idx) =
     push_nested (annotated_contrib u s) (annotated_members_by_type idx)"
  "native_functions_by_name (insert_symbol u s idx) =
     push_flat (native_fn_contrib u s) (native_functions_by_name idx)"
  "native_member_by_type (insert_symbol u s idx) =
     push_nested (native_member_contrib u s) (native_member_by_type idx)"
  by (auto simp: insert_symbol_def insert_native_def contrib_defs Let_def split: option.splits)

lemma remove_symbol_fields:
  "wi_top_level_by_name (remove_symbol u s idx) = retain_flat (top_removal u s) (wi_top_level_by_name idx)"
  "superclass_by_name (remove_symbol u s idx) = retain_flat (super_removal u s) (superclass_by_name idx)"
  "subclasses_by_name (remove_symbol u s idx) = retain_flat (sub_removal u s) (subclasses_by_name idx)"
  "states_by_owner (remove_symbol u s idx) = retain_nested (state_removal u s) (states_by_owner idx)"
  "member_by_type (remove_symbol u s idx) = retain_nested (member_removal u s) (member_by_type idx)"
  "enum_member_by_name (remove_symbol u s idx) = retain_flat (enum_removal u s) (enum_member_by_name idx)"
  "annotated_members_by_type (remove_symbol u s idx) =
     retain_nested (annotated_removal u s) (annotated_members_by_type idx)"
  "native_functions_by_name (remove_symbol u s idx) =
     retain_flat (native_fn_removal u s) (native_functions_by_name idx)"
  "native_member_by_type (remove_symbol u s idx) =
     retain_nested (native_member_removal u s) (native_member_by_type idx)"
  by (auto simp: remove_symbol_def remove_native_def removal_defs Let_def split: option.splits)

lemma insert_symbol_frame [simp]:
  "documents (insert_symbol u s idx) = documents idx"
  "doc_idents (insert_symbol u s idx) = doc_idents idx"
  "doc_surface_hashes (insert_symbol u s idx) = doc_surface_hashes idx"
  "surface_hash (insert_symbol u s idx) = surface_hash idx"
  "doc_outward_hashes (insert_symbol u s idx) = doc_outward_hashes idx"
  "generation (insert_symbol u s idx) = generation idx"
  "catalog (insert_symbol u s idx) = catalog idx"
  "completion_catalog_dirty (insert_symbol u s idx) = completion_catalog_dirty idx"
  "catalog_rebuild_suppressed (insert_symbol u s idx) = catalog_rebuild_suppressed idx"
  by (auto simp: insert_symbol_def insert_native_def Let_def split: option.splits)

lemma remove_symbol_frame [simp]:
  "documents (remove_symbol u s idx) = documents idx"
  "doc_idents (remove_symbol u s idx) = doc_idents idx"
  "doc_surface_hashes (remove_symbol u s idx) = doc_surface_hashes idx"
  "surface_hash (remove_symbol u s idx) = surface_hash idx"
  "doc_outward_hashes (remove_symbol u s idx) = doc_outward_hashes idx"
  "generation (remove_symbol u s idx) = generation idx"
  "catalog (remove_symbol u s idx) = catalog idx"
  "completion_catalog_dirty (remove_symbol u s idx) = completion_catalog_dirty idx"
  "catalog_rebuild_suppressed (remove_symbol u s idx) = catalog_rebuild_suppressed idx"
  by (auto simp: remove_symbol_def remove_native_def Let_def split: option.splits)

subsection \<open>The update loops\<close>

definition doc_syms :: "workspace_index \<Rightarrow> string \<Rightarrow> symbol list" where
  "doc_syms idx u = (case hget (documents idx) u of None \<Rightarrow> [] | Some syms \<Rightarrow> syms)"

lemma remove_from_indices_fold:
  "remove_from_indices u idx = fold (remove_symbol u) (doc_syms idx u) idx"
  by (simp add: remove_from_indices_def doc_syms_def split: option.splits)

lemmas remove_from_indices_fields =
  fold_project [of wi_top_level_by_name, OF remove_symbol_fields(1)]
  fold_project [of superclass_by_name, OF remove_symbol_fields(2)]
  fold_project [of subclasses_by_name, OF remove_symbol_fields(3)]
  fold_project [of states_by_owner, OF remove_symbol_fields(4)]
  fold_project [of member_by_type, OF remove_symbol_fields(5)]
  fold_project [of enum_member_by_name, OF remove_symbol_fields(6)]
  fold_project [of annotated_members_by_type, OF remove_symbol_fields(7)]
  fold_project [of native_functions_by_name, OF remove_symbol_fields(8)]
  fold_project [of native_member_by_type, OF remove_symbol_fields(9)]

lemmas insert_into_indices_fields =
  fold_project [of wi_top_level_by_name, OF insert_symbol_fields(1)]
  fold_project [of superclass_by_name, OF insert_symbol_fields(2)]
  fold_project [of subclasses_by_name, OF insert_symbol_fields(3)]
  fold_project [of states_by_owner, OF insert_symbol_fields(4)]
  fold_project [of member_by_type, OF insert_symbol_fields(5)]
  fold_project [of enum_member_by_name, OF insert_symbol_fields(6)]
  fold_project [of annotated_members_by_type, OF insert_symbol_fields(7)]
  fold_project [of native_functions_by_name, OF insert_symbol_fields(8)]
  fold_project [of native_member_by_type, OF insert_symbol_fields(9)]

lemmas remove_from_indices_frame =
  fold_frame [of documents, OF remove_symbol_frame(1)]
  fold_frame [of doc_idents, OF remove_symbol_frame(2)]
  fold_frame [of doc_surface_hashes, OF remove_symbol_frame(3)]
  fold_frame [of surface_hash, OF remove_symbol_frame(4)]
  fold_frame [of doc_outward_hashes, OF remove_symbol_frame(5)]
  fold_frame [of generation, OF remove_symbol_frame(6)]
  fold_frame [of catalog, OF remove_symbol_frame(7)]
  fold_frame [of completion_catalog_dirty, OF remove_symbol_frame(8)]
  fold_frame [of catalog_rebuild_suppressed, OF remove_symbol_frame(9)]

lemmas insert_into_indices_frame =
  fold_frame [of documents, OF insert_symbol_frame(1)]
  fold_frame [of doc_idents, OF insert_symbol_frame(2)]
  fold_frame [of doc_surface_hashes, OF insert_symbol_frame(3)]
  fold_frame [of surface_hash, OF insert_symbol_frame(4)]
  fold_frame [of doc_outward_hashes, OF insert_symbol_frame(5)]
  fold_frame [of generation, OF insert_symbol_frame(6)]
  fold_frame [of catalog, OF insert_symbol_frame(7)]
  fold_frame [of completion_catalog_dirty, OF insert_symbol_frame(8)]
  fold_frame [of catalog_rebuild_suppressed, OF insert_symbol_frame(9)]

lemma catalog_after_frame [simp]:
  "documents (catalog_after ks idx) = documents idx"
  "wi_top_level_by_name (catalog_after ks idx) = wi_top_level_by_name idx"
  "superclass_by_name (catalog_after ks idx) = superclass_by_name idx"
  "subclasses_by_name (catalog_after ks idx) = subclasses_by_name idx"
  "states_by_owner (catalog_after ks idx) = states_by_owner idx"
  "member_by_type (catalog_after ks idx) = member_by_type idx"
  "enum_member_by_name (catalog_after ks idx) = enum_member_by_name idx"
  "annotated_members_by_type (catalog_after ks idx) = annotated_members_by_type idx"
  "native_functions_by_name (catalog_after ks idx) = native_functions_by_name idx"
  "native_member_by_type (catalog_after ks idx) = native_member_by_type idx"
  "doc_idents (catalog_after ks idx) = doc_idents idx"
  "doc_surface_hashes (catalog_after ks idx) = doc_surface_hashes idx"
  "surface_hash (catalog_after ks idx) = surface_hash idx"
  "doc_outward_hashes (catalog_after ks idx) = doc_outward_hashes idx"
  "generation (catalog_after ks idx) = generation idx"
  "catalog_rebuild_suppressed (catalog_after ks idx) = catalog_rebuild_suppressed idx"
  by (auto simp: catalog_after_def maybe_rebuild_completion_catalog_def rebuild_completion_catalog_def)

text \<open>What an update does to each index, and to the tables kept per document.  A removal is an
  update with no symbols, as far as the indexes are concerned.\<close>

definition updated :: "string \<Rightarrow> symbol list \<Rightarrow> workspace_index \<Rightarrow> workspace_index \<Rightarrow> bool" where
  "updated u new idx idx' \<longleftrightarrow>
     doc_syms idx' = (doc_syms idx)(u := new) \<and>
     wi_top_level_by_name idx' = push_flat (concat (map (top_contrib u) new))
       (retain_flat (concat (map (top_removal u) (doc_syms idx u))) (wi_top_level_by_name idx)) \<and>
     superclass_by_name idx' = push_flat (concat (map (super_contrib u) new))
       (retain_flat (concat (map (super_removal u) (doc_syms idx u))) (superclass_by_name idx)) \<and>
     subclasses_by_name idx' = push_flat (concat (map (sub_contrib u) new))
       (retain_flat (concat (map (sub_removal u) (doc_syms idx u))) (subclasses_by_name idx)) \<and>
     states_by_owner idx' = push_nested (concat (map (state_contrib u) new))
       (retain_nested (concat (map (state_removal u) (doc_syms idx u))) (states_by_owner idx)) \<and>
     member_by_type idx' = push_nested (concat (map (member_contrib u) new))
       (retain_nested (concat (map (member_removal u) (doc_syms idx u))) (member_by_type idx)) \<and>
     enum_member_by_name idx' = push_flat (concat (map (enum_contrib u) new))
       (retain_flat (concat (map (enum_removal u) (doc_syms idx u))) (enum_member_by_name idx)) \<and>
     annotated_members_by_type idx' = push_nested (concat (map (annotated_contrib u) new))
       (retain_nested (concat (map (annotated_removal u) (doc_syms idx u))) (annotated_members_by_type idx)) \<and>
     native_functions_by_name idx' = push_flat (concat (map (native_fn_contrib u) new))
       (retain_flat (concat (map (native_fn_removal u) (doc_syms idx u))) (native_functions_by_name idx)) \<and>
     native_member_by_type idx' = push_nested (concat (map (native_member_contrib u) new))
       (retain_nested (concat (map (native_member_removal u) (doc_syms idx u))) (native_member_by_type idx))"

lemma apply_contribution_updated:
  "updated u (dc_symbols dc) idx (snd (apply_contribution u dc idx))"
  by (simp add: updated_def apply_contribution_def Let_def remove_from_indices_fold insert_into_indices_def
      remove_from_indices_fields insert_into_indices_fields remove_from_indices_frame
      insert_into_indices_frame)
    (auto simp: doc_syms_def fun_eq_iff)

lemma remove_document_updated: "updated u [] idx (snd (remove_document u idx))"
  by (simp add: updated_def remove_document_def Let_def remove_from_indices_fold
      remove_from_indices_fields remove_from_indices_frame)
    (auto simp: doc_syms_def fun_eq_iff)

lemma apply_contribution_tables:
  fixes u dc idx
  defines "idx' \<equiv> snd (apply_contribution u dc idx)"
  shows "documents idx' = hput u (dc_symbols dc) (documents idx)"
    and "doc_idents idx' = hput u (dc_idents dc) (hdel u (doc_idents idx))"
    and "doc_surface_hashes idx' = hput u (dc_surface_hash dc) (doc_surface_hashes idx)"
    and "surface_hash idx' =
      (case hget (doc_surface_hashes idx) u of None \<Rightarrow> surface_hash idx | Some h \<Rightarrow> surface_hash idx XOR h)
        XOR dc_surface_hash dc"
    and "doc_outward_hashes idx' = hput u (dc_outward dc) (doc_outward_hashes idx)"
    and "generation idx' = generation idx + 1"
    and "fst (apply_contribution u dc idx) =
      diff_outward_keys (hget (doc_outward_hashes idx) u) (dc_outward dc)"
  by (simp_all add: idx'_def apply_contribution_def Let_def remove_from_indices_fold
      insert_into_indices_def remove_from_indices_frame insert_into_indices_frame
      cong: option.case_cong)

lemma remove_document_tables:
  fixes u idx
  defines "idx' \<equiv> snd (remove_document u idx)"
  shows "documents idx' = hdel u (documents idx)"
    and "doc_idents idx' = hdel u (doc_idents idx)"
    and "doc_surface_hashes idx' = hdel u (doc_surface_hashes idx)"
    and "surface_hash idx' =
      (case hget (doc_surface_hashes idx) u of None \<Rightarrow> surface_hash idx | Some h \<Rightarrow> surface_hash idx XOR h)"
    and "doc_outward_hashes idx' = hdel u (doc_outward_hashes idx)"
    and "generation idx' = generation idx + 1"
    and "fst (remove_document u idx) =
      (case hget (doc_outward_hashes idx) u of None \<Rightarrow> [] | Some m \<Rightarrow> hkeys m)"
  by (simp_all add: idx'_def remove_document_def Let_def remove_from_indices_fold
      remove_from_indices_frame cong: option.case_cong)

subsection \<open>The indexes reflect the documents\<close>

interpretation flat_defs: owned_store bucket entry_push retain_and_prune buckets_ok def_uri
  by unfold_locales

interpretation flat_pairs: owned_store bucket entry_push retain_and_prune buckets_ok fst
  by unfold_locales

interpretation nested_defs: owned_store nested_bucket nested_push retain_and_prune_nested nested_ok def_uri
  by unfold_locales

text \<open>Removal looks for injected members at the top level only.\<close>

definition injected_at_top :: "symbol \<Rightarrow> bool" where
  "injected_at_top s \<longleftrightarrow> (is_injected s \<longrightarrow> container s = None)"

abbreviation gathered :: "(string \<Rightarrow> symbol \<Rightarrow> 'c list) \<Rightarrow> workspace_index \<Rightarrow> string \<Rightarrow> 'c list" where
  "gathered con idx \<equiv> \<lambda>u. concat (map (con u) (doc_syms idx u))"

definition index_reflects :: "workspace_index \<Rightarrow> bool" where
  "index_reflects idx \<longleftrightarrow>
     (\<forall>u. list_all injected_at_top (doc_syms idx u)) \<and>
     flat_defs.reflects (wi_top_level_by_name idx) (gathered top_contrib idx) \<and>
     flat_pairs.reflects (superclass_by_name idx) (gathered super_contrib idx) \<and>
     flat_pairs.reflects (subclasses_by_name idx) (gathered sub_contrib idx) \<and>
     nested_defs.reflects (states_by_owner idx) (gathered state_contrib idx) \<and>
     nested_defs.reflects (member_by_type idx) (gathered member_contrib idx) \<and>
     flat_defs.reflects (enum_member_by_name idx) (gathered enum_contrib idx) \<and>
     nested_defs.reflects (annotated_members_by_type idx) (gathered annotated_contrib idx) \<and>
     flat_defs.reflects (native_functions_by_name idx) (gathered native_fn_contrib idx) \<and>
     nested_defs.reflects (native_member_by_type idx) (gathered native_member_contrib idx)"

lemma updated_reflects:
  assumes "index_reflects idx" "updated u new idx idx'" "list_all injected_at_top new"
  shows "index_reflects idx'"
proof -
  have inj: "injected_at_top x" if "x \<in> set (doc_syms idx u)" for x
    using assms(1) that by (auto simp: index_reflects_def list_all_iff)
  note refl = assms(1) [unfolded index_reflects_def]
  note upd = assms(2) [unfolded updated_def]
  show ?thesis
    unfolding index_reflects_def
  proof (intro conjI)
    show "\<forall>w. list_all injected_at_top (doc_syms idx' w)"
      using refl assms(3) by (simp add: upd)
    show "flat_defs.reflects (wi_top_level_by_name idx') (gathered top_contrib idx')"
      by (simp only: upd, rule flat_defs.reflects_update, simp add: refl)
        (auto simp: contrib_defs removal_defs split: if_splits)
    show "flat_pairs.reflects (superclass_by_name idx') (gathered super_contrib idx')"
      by (simp only: upd, rule flat_pairs.reflects_update, simp add: refl)
        (auto simp: contrib_defs removal_defs split: if_splits)
    show "flat_pairs.reflects (subclasses_by_name idx') (gathered sub_contrib idx')"
      by (simp only: upd, rule flat_pairs.reflects_update, simp add: refl)
        (auto simp: contrib_defs removal_defs split: if_splits)
    show "nested_defs.reflects (states_by_owner idx') (gathered state_contrib idx')"
      by (simp only: upd, rule nested_defs.reflects_update, simp add: refl)
        (auto simp: contrib_defs removal_defs split: if_splits)
    show "nested_defs.reflects (member_by_type idx') (gathered member_contrib idx')"
      by (simp only: upd, rule nested_defs.reflects_update, simp add: refl)
        (auto simp: contrib_defs removal_defs split: if_splits)
    show "flat_defs.reflects (enum_member_by_name idx') (gathered enum_contrib idx')"
      by (simp only: upd, rule flat_defs.reflects_update, simp add: refl)
        (auto simp: contrib_defs removal_defs split: if_splits)
    show "nested_defs.reflects (annotated_members_by_type idx') (gathered annotated_contrib idx')"
      by (simp only: upd, rule nested_defs.reflects_update, simp add: refl)
        (use inj in \<open>auto simp: contrib_defs removal_defs injected_at_top_def split: if_splits\<close>)
    show "flat_defs.reflects (native_functions_by_name idx') (gathered native_fn_contrib idx')"
      by (simp only: upd, rule flat_defs.reflects_update, simp add: refl)
        (auto simp: contrib_defs removal_defs split: if_splits)
    show "nested_defs.reflects (native_member_by_type idx') (gathered native_member_contrib idx')"
      by (simp only: upd, rule nested_defs.reflects_update, simp add: refl)
        (auto simp: contrib_defs removal_defs split: if_splits)
  qed
qed

subsection \<open>The tables kept per document\<close>

definition xor_values :: "('k, u64) hmap \<Rightarrow> u64" where
  "xor_values m = fold (XOR) (hvalues m) 0"

lemma xor_values_Cons: "xor_values ((k, v) # m) = v XOR xor_values m"
  using fold_xor [of "hvalues m" v] by (simp add: xor_values_def)

lemma xor_values_hput:
  "distinct (hkeys m) \<Longrightarrow> xor_values (hput u h m) =
    (case hget m u of None \<Rightarrow> xor_values m | Some g \<Rightarrow> xor_values m XOR g) XOR h"
proof (induction m)
  case Nil
  then show ?case by (simp add: xor_values_def)
next
  case (Cons kv m)
  obtain k v where kv: "kv = (k, v)" by (cases kv)
  show ?case
  proof (cases "k = u")
    case True
    then show ?thesis
      by (simp add: kv xor_values_Cons xor.assoc xor.commute xor.left_commute)
  next
    case False
    with Cons show ?thesis
      by (simp add: kv xor_values_Cons xor.assoc xor.commute xor.left_commute split: option.splits)
  qed
qed

lemma xor_values_hdel:
  "distinct (hkeys m) \<Longrightarrow> xor_values (hdel u m) =
    (case hget m u of None \<Rightarrow> xor_values m | Some g \<Rightarrow> xor_values m XOR g)"
proof (induction m)
  case Nil
  then show ?case by (simp add: xor_values_def)
next
  case (Cons kv m)
  obtain k v where kv: "kv = (k, v)" by (cases kv)
  show ?case
  proof (cases "k = u")
    case True
    with Cons.prems have "hdel u m = m"
      using delete_notin_dom by (simp add: kv)
    with True show ?thesis by (simp add: kv xor_values_Cons xor.commute xor.left_commute)
  next
    case False
    with Cons show ?thesis
      by (simp add: kv xor_values_Cons xor.assoc xor.commute xor.left_commute split: option.splits)
  qed
qed

definition tables_ok :: "workspace_index \<Rightarrow> bool" where
  "tables_ok idx \<longleftrightarrow>
     distinct (hkeys (documents idx)) \<and> distinct (hkeys (doc_surface_hashes idx)) \<and>
     (\<forall>u. (hget (doc_idents idx) u \<noteq> None) = (hget (documents idx) u \<noteq> None) \<and>
          (hget (doc_surface_hashes idx) u \<noteq> None) = (hget (documents idx) u \<noteq> None) \<and>
          (hget (doc_outward_hashes idx) u \<noteq> None) = (hget (documents idx) u \<noteq> None)) \<and>
     surface_hash idx = xor_values (doc_surface_hashes idx) \<and>
     (completion_catalog_dirty idx \<longrightarrow> catalog_rebuild_suppressed idx \<noteq> 0)"

definition no_empty_bucket :: "workspace_index \<Rightarrow> bool" where
  "no_empty_bucket idx \<longleftrightarrow>
     buckets_ok (wi_top_level_by_name idx) \<and> buckets_ok (superclass_by_name idx) \<and>
     buckets_ok (subclasses_by_name idx) \<and> nested_ok (states_by_owner idx) \<and>
     nested_ok (member_by_type idx) \<and> buckets_ok (enum_member_by_name idx) \<and>
     nested_ok (annotated_members_by_type idx) \<and> buckets_ok (native_functions_by_name idx) \<and>
     nested_ok (native_member_by_type idx)"

lemma updated_no_empty_bucket:
  "no_empty_bucket idx \<Longrightarrow> updated u new idx idx' \<Longrightarrow> no_empty_bucket idx'"
  by (simp add: no_empty_bucket_def updated_def flat.ok_push_all flat.ok_retain_all
      nested.ok_push_all nested.ok_retain_all)

lemma catalog_after_dirty:
  "completion_catalog_dirty (catalog_after ks idx) \<Longrightarrow>
   completion_catalog_dirty idx \<or> catalog_rebuild_suppressed idx \<noteq> 0"
  by (auto simp: catalog_after_def maybe_rebuild_completion_catalog_def rebuild_completion_catalog_def
      split: if_splits)

lemma update_dirty:
  "completion_catalog_dirty (snd (apply_contribution u dc idx)) \<Longrightarrow>
     completion_catalog_dirty idx \<or> catalog_rebuild_suppressed idx \<noteq> 0"
  "completion_catalog_dirty (snd (remove_document u idx)) \<Longrightarrow>
     completion_catalog_dirty idx \<or> catalog_rebuild_suppressed idx \<noteq> 0"
  "catalog_rebuild_suppressed (snd (apply_contribution u dc idx)) = catalog_rebuild_suppressed idx"
  "catalog_rebuild_suppressed (snd (remove_document u idx)) = catalog_rebuild_suppressed idx"
  by (auto simp: apply_contribution_def remove_document_def Let_def remove_from_indices_fold
      insert_into_indices_def remove_from_indices_frame insert_into_indices_frame
      dest!: catalog_after_dirty)

lemma tables_ok_apply: "tables_ok idx \<Longrightarrow> tables_ok (snd (apply_contribution u dc idx))"
  unfolding tables_ok_def apply_contribution_tables
  by (auto simp: xor_values_hput distinct_update update_dirty(3) simp del: map_of_eq_Some_iff
      dest: update_dirty(1) split: option.splits)

lemma tables_ok_remove: "tables_ok idx \<Longrightarrow> tables_ok (snd (remove_document u idx))"
  unfolding tables_ok_def remove_document_tables
  by (auto simp: xor_values_hdel distinct_delete update_dirty(4) simp del: map_of_eq_Some_iff
      dest: update_dirty(2) split: option.splits)

subsection \<open>Reachable indexes\<close>

text \<open>The operations other components perform on an index, in any order.\<close>

inductive index_reachable :: "workspace_index \<Rightarrow> bool" where
  start: "index_reachable WorkspaceIndex_default"
| apply': "index_reachable idx \<Longrightarrow> list_all injected_at_top (dc_symbols dc) \<Longrightarrow>
    index_reachable (snd (apply_contribution u dc idx))"
| remove: "index_reachable idx \<Longrightarrow> index_reachable (snd (remove_document u idx))"
| begin_bulk: "index_reachable idx \<Longrightarrow> index_reachable (begin_bulk_catalog_update idx)"
| end_bulk: "index_reachable idx \<Longrightarrow> index_reachable (end_bulk_catalog_update idx)"
| rebuild: "index_reachable idx \<Longrightarrow> index_reachable (rebuild_completion_catalog idx)"

lemma default_ok:
  "index_reflects WorkspaceIndex_default" "no_empty_bucket WorkspaceIndex_default"
  "tables_ok WorkspaceIndex_default"
  by (simp_all add: index_reflects_def no_empty_bucket_def tables_ok_def WorkspaceIndex_default_def
      doc_syms_def flat_defs.reflects_def flat_pairs.reflects_def nested_defs.reflects_def xor_values_def)

definition same_but_catalog :: "workspace_index \<Rightarrow> workspace_index \<Rightarrow> bool" where
  "same_but_catalog idx idx' \<longleftrightarrow>
     idx' = idx\<lparr>catalog := catalog idx', completion_catalog_dirty := completion_catalog_dirty idx',
                catalog_rebuild_suppressed := catalog_rebuild_suppressed idx'\<rparr>"

lemma same_but_catalog_ops:
  "same_but_catalog idx (begin_bulk_catalog_update idx)"
  "same_but_catalog idx (end_bulk_catalog_update idx)"
  "same_but_catalog idx (rebuild_completion_catalog idx)"
  by (simp_all add: same_but_catalog_def begin_bulk_catalog_update_def end_bulk_catalog_update_def
      maybe_rebuild_completion_catalog_def rebuild_completion_catalog_def)

lemma same_but_catalog_ok:
  assumes "same_but_catalog idx idx'"
  shows "index_reflects idx \<Longrightarrow> index_reflects idx'"
    and "no_empty_bucket idx \<Longrightarrow> no_empty_bucket idx'"
    and "tables_ok idx \<Longrightarrow> (completion_catalog_dirty idx' \<longrightarrow> catalog_rebuild_suppressed idx' \<noteq> 0) \<Longrightarrow>
      tables_ok idx'"
proof -
  obtain c d r where idx': "idx' = idx\<lparr>catalog := c, completion_catalog_dirty := d,
      catalog_rebuild_suppressed := r\<rparr>"
    using assms unfolding same_but_catalog_def by blast
  show "index_reflects idx \<Longrightarrow> index_reflects idx'"
    by (simp add: idx' index_reflects_def doc_syms_def)
  show "no_empty_bucket idx \<Longrightarrow> no_empty_bucket idx'"
    by (simp add: idx' no_empty_bucket_def)
  show "tables_ok idx \<Longrightarrow> (completion_catalog_dirty idx' \<longrightarrow> catalog_rebuild_suppressed idx' \<noteq> 0) \<Longrightarrow>
      tables_ok idx'"
    by (simp add: idx' tables_ok_def del: map_of_eq_Some_iff)
qed

lemma tables_ok_dirty:
  "tables_ok idx \<Longrightarrow> completion_catalog_dirty idx \<longrightarrow> catalog_rebuild_suppressed idx \<noteq> 0"
  by (simp add: tables_ok_def)

lemma bulk_dirty:
  "catalog_rebuild_suppressed (begin_bulk_catalog_update idx) \<noteq> 0"
  "completion_catalog_dirty (end_bulk_catalog_update idx) \<Longrightarrow>
    catalog_rebuild_suppressed (end_bulk_catalog_update idx) \<noteq> 0"
proof -
  show "catalog_rebuild_suppressed (begin_bulk_catalog_update idx) \<noteq> 0"
    using eq_neg_iff_add_eq_0 [of "catalog_rebuild_suppressed idx" 1]
    by (auto simp: begin_bulk_catalog_update_def)
  show "completion_catalog_dirty (end_bulk_catalog_update idx) \<Longrightarrow>
    catalog_rebuild_suppressed (end_bulk_catalog_update idx) \<noteq> 0"
    by (auto simp: end_bulk_catalog_update_def maybe_rebuild_completion_catalog_def
        rebuild_completion_catalog_def split: if_splits)
qed

lemma reachable_ok:
  "index_reachable idx \<Longrightarrow> index_reflects idx \<and> no_empty_bucket idx \<and> tables_ok idx"
proof (induction rule: index_reachable.induct)
  case start
  then show ?case by (simp add: default_ok)
next
  case (apply' idx dc u)
  then show ?case
    using updated_reflects [OF _ apply_contribution_updated] tables_ok_apply
      updated_no_empty_bucket [OF _ apply_contribution_updated] by blast
next
  case (remove idx u)
  then show ?case
    using updated_reflects [OF _ remove_document_updated] tables_ok_remove
      updated_no_empty_bucket [OF _ remove_document_updated] by simp
next
  case (begin_bulk idx)
  then show ?case
    using same_but_catalog_ok [OF same_but_catalog_ops(1)] bulk_dirty(1) tables_ok_dirty by blast
next
  case (end_bulk idx)
  then show ?case
    using same_but_catalog_ok [OF same_but_catalog_ops(2)] bulk_dirty(2) by blast
next
  case (rebuild idx)
  then show ?case
    using same_but_catalog_ok [OF same_but_catalog_ops(3)]
    by (simp add: rebuild_completion_catalog_def)
qed

subsection \<open>Lookups as views of the indexes\<close>

lemma bind_hget_bucket: "f [] = None \<Longrightarrow> Option.bind (hget m k) f = f (bucket m k)"
  by (simp add: bucket_def split: option.splits bind_splits)

lemma bind_hget_nested:
  "f [] = None \<Longrightarrow> Option.bind (Option.bind (hget m a) (\<lambda>i. hget i b)) f = f (nested_bucket m (a, b))"
  by (cases "hget m a") (simp_all add: nested_bucket_def bind_hget_bucket)

lemma find_top_level_view:
  "find_top_level idx n =
     (let defs = all_top_level_with_name idx n
      in or_else (find (\<lambda>d. sym_kind (def_symbol d) \<noteq> State) defs) (vfirst defs))"
  unfolding find_top_level_def all_top_level_with_name_def Let_def
  by (rule bind_hget_bucket) (simp add: vfirst_def)

lemma lookup_views:
  "find_enum_member idx n = vlast (bucket (enum_member_by_name idx) n)"
  "class_body_member_of idx c n = vlast (nested_bucket (member_by_type idx) (c, n))"
  "direct_native_member_of idx c n = vlast (nested_bucket (native_member_by_type idx) (c, n))"
  "wi_superclass_of idx c = map_option snd (vlast (bucket (superclass_by_name idx) c))"
  "find_state_in_owner idx own n = vlast (nested_bucket (states_by_owner idx) (own, n))"
proof -
  have v: "vlast [] = None" by (simp add: vlast_def)
  show "find_enum_member idx n = vlast (bucket (enum_member_by_name idx) n)"
    unfolding find_enum_member_def by (rule bind_hget_bucket) (simp add: v)
  show "class_body_member_of idx c n = vlast (nested_bucket (member_by_type idx) (c, n))"
    unfolding class_body_member_of_def by (rule bind_hget_nested) (simp add: v)
  show "direct_native_member_of idx c n = vlast (nested_bucket (native_member_by_type idx) (c, n))"
    unfolding direct_native_member_of_def by (rule bind_hget_nested) (simp add: v)
  show "wi_superclass_of idx c = map_option snd (vlast (bucket (superclass_by_name idx) c))"
    unfolding wi_superclass_of_def by (subst bind_hget_bucket) (simp_all add: v)
  show "find_state_in_owner idx own n = vlast (nested_bucket (states_by_owner idx) (own, n))"
    unfolding find_state_in_owner_def nested_bucket_def
    by (cases "hget (states_by_owner idx) own") (simp_all add: bind_hget_bucket v)
qed

lemma direct_member_view:
  "direct_member_of idx c n a =
     filter_option (\<lambda>d. a \<le> access (def_symbol d))
       (or_else (vlast (nested_bucket (member_by_type idx) (c, n)))
          (vfirst (nested_bucket (annotated_members_by_type idx) (c, n))))"
proof -
  have v: "vlast [] = None" "vfirst [] = None" by simp_all
  show ?thesis
    unfolding direct_member_of_def
    by (simp only: bind_hget_nested [of vlast, OF v(1)] bind_hget_nested [of vfirst, OF v(2)])
qed

lemma gathered_set: "c \<in> set (gathered con idx u) \<longleftrightarrow> (\<exists>s \<in> set (doc_syms idx u). c \<in> set (con u s))"
  by simp

lemma site_set_eq:
  assumes "\<And>u s. site u s \<in> A \<longleftrightarrow> P u s"
  shows "A = {site u s | u s. P u s}"
proof (rule set_eqI)
  fix d :: definition_site
  obtain u s where "d = site u s" by (cases d) auto
  with assms show "d \<in> A \<longleftrightarrow> d \<in> {site u s | u s. P u s}" by auto
qed

lemma super_contrib_iff:
  "(k, w, b) \<in> set (super_contrib u s) \<longleftrightarrow>
     at_top_level s \<and> extends_by_type_name (sym_kind s) \<and> k = sym_name s \<and> w = u \<and> base_class s = Some b"
  by (auto simp: super_contrib_def)

lemma sub_contrib_iff:
  "(k, w, n) \<in> set (sub_contrib u s) \<longleftrightarrow>
     at_top_level s \<and> extends_by_type_name (sym_kind s) \<and> n = sym_name s \<and> w = u \<and> base_class s = Some k"
  by (auto simp: sub_contrib_def)

lemma reflected_sets:
  assumes "index_reflects idx"
  shows "set (bucket (wi_top_level_by_name idx) n) =
      {site u s | u s. s \<in> set (doc_syms idx u) \<and> at_top_level s \<and> type_name s = n}"
    and "set (nested_bucket (member_by_type idx) (c, n)) =
      {site u s | u s. s \<in> set (doc_syms idx u) \<and> in_class_body s \<and>
         container_name s = Some c \<and> sym_name s = n}"
    and "set (nested_bucket (annotated_members_by_type idx) (c, n)) =
      {site u s | u s. s \<in> set (doc_syms idx u) \<and> is_injected s \<and>
         annotation_target_class_safe s = Some c \<and> sym_name s = n}"
    and "set (nested_bucket (states_by_owner idx) (c, n)) =
      {site u s | u s. s \<in> set (doc_syms idx u) \<and> at_top_level s \<and> sym_kind s = State \<and>
         owner_class s = Some c \<and> sym_name s = n}"
    and "set (bucket (enum_member_by_name idx) n) =
      {site u s | u s. s \<in> set (doc_syms idx u) \<and> in_class_body s \<and> sym_kind s = EnumMember \<and>
         sym_name s = n}"
    and "set (bucket (native_functions_by_name idx) n) =
      {site u s | u s. s \<in> set (doc_syms idx u) \<and> requires_import s \<and> container_name s = None \<and>
         sym_name s = n}"
    and "set (nested_bucket (native_member_by_type idx) (c, n)) =
      {site u s | u s. s \<in> set (doc_syms idx u) \<and> requires_import s \<and> container_name s = Some c \<and>
         sym_name s = n}"
    and "set (bucket (superclass_by_name idx) n) =
      {(u, b) | u b. \<exists>s \<in> set (doc_syms idx u). at_top_level s \<and> extends_by_type_name (sym_kind s) \<and>
         sym_name s = n \<and> base_class s = Some b}"
    and "set (bucket (subclasses_by_name idx) b) =
      {(u, n) | u n. \<exists>s \<in> set (doc_syms idx u). at_top_level s \<and> extends_by_type_name (sym_kind s) \<and>
         sym_name s = n \<and> base_class s = Some b}"
proof -
  note r = assms [unfolded index_reflects_def]
  show "set (bucket (wi_top_level_by_name idx) n) =
      {site u s | u s. s \<in> set (doc_syms idx u) \<and> at_top_level s \<and> type_name s = n}"
    by (rule site_set_eq) (use flat_defs.reflects_member [of "wi_top_level_by_name idx" "gathered top_contrib idx"] r in
      \<open>auto simp: top_contrib_def in_class_body_def is_injected_def split: if_splits\<close>)
  show "set (nested_bucket (member_by_type idx) (c, n)) =
      {site u s | u s. s \<in> set (doc_syms idx u) \<and> in_class_body s \<and>
         container_name s = Some c \<and> sym_name s = n}"
    by (rule site_set_eq) (use nested_defs.reflects_member [of "member_by_type idx" "gathered member_contrib idx"] r in
      \<open>auto simp: member_contrib_def in_class_body_def is_injected_def split: if_splits\<close>)
  show "set (nested_bucket (annotated_members_by_type idx) (c, n)) =
      {site u s | u s. s \<in> set (doc_syms idx u) \<and> is_injected s \<and>
         annotation_target_class_safe s = Some c \<and> sym_name s = n}"
    by (rule site_set_eq) (use nested_defs.reflects_member [of "annotated_members_by_type idx" "gathered annotated_contrib idx"] r in
      \<open>auto simp: annotated_contrib_def in_class_body_def is_injected_def split: if_splits\<close>)
  show "set (nested_bucket (states_by_owner idx) (c, n)) =
      {site u s | u s. s \<in> set (doc_syms idx u) \<and> at_top_level s \<and> sym_kind s = State \<and>
         owner_class s = Some c \<and> sym_name s = n}"
    by (rule site_set_eq) (use nested_defs.reflects_member [of "states_by_owner idx" "gathered state_contrib idx"] r in
      \<open>auto simp: state_contrib_def in_class_body_def is_injected_def split: if_splits\<close>)
  show "set (bucket (enum_member_by_name idx) n) =
      {site u s | u s. s \<in> set (doc_syms idx u) \<and> in_class_body s \<and> sym_kind s = EnumMember \<and>
         sym_name s = n}"
    by (rule site_set_eq) (use flat_defs.reflects_member [of "enum_member_by_name idx" "gathered enum_contrib idx"] r in
      \<open>auto simp: enum_contrib_def in_class_body_def is_injected_def split: if_splits\<close>)
  show "set (bucket (native_functions_by_name idx) n) =
      {site u s | u s. s \<in> set (doc_syms idx u) \<and> requires_import s \<and> container_name s = None \<and>
         sym_name s = n}"
    by (rule site_set_eq) (use flat_defs.reflects_member [of "native_functions_by_name idx" "gathered native_fn_contrib idx"] r in
      \<open>auto simp: native_fn_contrib_def in_class_body_def is_injected_def split: if_splits\<close>)
  show "set (nested_bucket (native_member_by_type idx) (c, n)) =
      {site u s | u s. s \<in> set (doc_syms idx u) \<and> requires_import s \<and> container_name s = Some c \<and>
         sym_name s = n}"
    by (rule site_set_eq) (use nested_defs.reflects_member [of "native_member_by_type idx" "gathered native_member_contrib idx"] r in
      \<open>auto simp: native_member_contrib_def in_class_body_def is_injected_def split: if_splits\<close>)
  show "set (bucket (superclass_by_name idx) n) =
      {(u, b) | u b. \<exists>s \<in> set (doc_syms idx u). at_top_level s \<and> extends_by_type_name (sym_kind s) \<and>
         sym_name s = n \<and> base_class s = Some b}"
    by (auto simp: flat_pairs.reflects_member [of "superclass_by_name idx" "gathered super_contrib idx"] r gathered_set
        super_contrib_iff)
  show "set (bucket (subclasses_by_name idx) b) =
      {(u, n) | u n. \<exists>s \<in> set (doc_syms idx u). at_top_level s \<and> extends_by_type_name (sym_kind s) \<and>
         sym_name s = n \<and> base_class s = Some b}"
    by (auto simp: flat_pairs.reflects_member [of "subclasses_by_name idx" "gathered sub_contrib idx"] r gathered_set
        sub_contrib_iff)
qed

subsection \<open>Properties\<close>


text \<open>Two documents: one declares a class, the other is added and removed again.\<close>

definition sample_contribution :: "symbol list \<Rightarrow> doc_contribution" where
  "sample_contribution syms =
     \<lparr>dc_symbols = syms, dc_idents = [], dc_surface_hash = 7,
      dc_outward = map (\<lambda>s. (outward_key_for s, 1)) syms\<rparr>"

definition sample_index :: workspace_index where
  "sample_index =
     snd (remove_document ''b.ws''
       (snd (apply_contribution ''b.ws'' (sample_contribution [sample_symbol 0 ''D'' Class 0 9 None])
         (snd (apply_contribution ''a.ws''
            (sample_contribution [(sample_symbol 0 ''C'' Class 0 9 None)\<lparr>base_class := Some ''B''\<rparr>])
            WorkspaceIndex_default)))))"

lemma sample_injected:
  "injected_at_top (sample_symbol i n k a b None)"
  "injected_at_top ((sample_symbol i n k a b None)\<lparr>base_class := Some c\<rparr>)"
  by (simp_all add: injected_at_top_def sample_symbol_def)

lemma sample_index_reachable: "index_reachable sample_index"
  unfolding sample_index_def
  by (intro index_reachable.intros) (simp_all add: sample_contribution_def sample_injected)

lemma sample_index_docs:
  "doc_syms sample_index =
     (\<lambda>u. if u = ''a.ws'' then [(sample_symbol 0 ''C'' Class 0 9 None)\<lparr>base_class := Some ''B''\<rparr>] else [])"
  by (auto simp: sample_index_def doc_syms_def remove_document_tables apply_contribution_tables
      sample_contribution_def WorkspaceIndex_default_def fun_eq_iff)




lemma contrib_values:
  "contrib (concat (map (member_contrib u) xs)) (c, n) =
     map (site u) (filter (\<lambda>s. in_class_body s \<and> container_name s = Some c \<and> sym_name s = n) xs)"
  "contrib (concat (map (enum_contrib u) xs)) n =
     map (site u) (filter (\<lambda>s. in_class_body s \<and> sym_kind s = EnumMember \<and> sym_name s = n) xs)"
  "contrib (concat (map (native_member_contrib u) xs)) (c, n) =
     map (site u) (filter (\<lambda>s. requires_import s \<and> container_name s = Some c \<and> sym_name s = n) xs)"
  "contrib (concat (map (state_contrib u) xs)) (c, n) =
     map (site u) (filter (\<lambda>s. at_top_level s \<and> sym_kind s = State \<and> owner_class s = Some c \<and>
       sym_name s = n) xs)"
  "contrib (concat (map (super_contrib u) xs)) n =
     map (\<lambda>s. (u, the (base_class s))) (filter (\<lambda>s. at_top_level s \<and> extends_by_type_name (sym_kind s) \<and>
       base_class s \<noteq> None \<and> sym_name s = n) xs)"
  by (induction xs) (auto simp: contrib_def member_contrib_def enum_contrib_def native_member_contrib_def
      state_contrib_def super_contrib_def in_class_body_def)

lemma vlast_pushed: "xs = [] \<or> vlast (older @ map f xs) = Some (f (last xs))"
  by (cases xs rule: rev_cases) simp_all

lemma superclass_pushed:
  assumes "\<forall>s \<in> set xs. base_class s \<noteq> None"
  shows "xs = [] \<or> map_option snd (vlast (older @ map (\<lambda>s. (u, the (base_class s))) xs)) = base_class (last xs)"
  using assms by (cases xs rule: rev_cases) auto

text \<open>
  C24: after a document is applied its declarations win.  A class-body member, an enum member, a
  native member, a state or a superclass that the new version of the document declares is the one
  the lookup returns, the last of them when it declares several; and the update advances the
  generation and reports exactly the difference of the outward hashes.
\<close>

theorem latest_declaration_wins:
  fixes u dc idx
  defines "idx' \<equiv> snd (apply_contribution u dc idx)"
  shows "generation idx' = generation idx + 1 \<and>
    fst (apply_contribution u dc idx) = diff_outward_keys (hget (doc_outward_hashes idx) u) (dc_outward dc) \<and>
    (let new = filter (\<lambda>s. in_class_body s \<and> container_name s = Some c \<and> sym_name s = n) (dc_symbols dc)
     in new = [] \<or> class_body_member_of idx' c n = Some (site u (last new))) \<and>
    (let new = filter (\<lambda>s. in_class_body s \<and> sym_kind s = EnumMember \<and> sym_name s = n) (dc_symbols dc)
     in new = [] \<or> find_enum_member idx' n = Some (site u (last new))) \<and>
    (let new = filter (\<lambda>s. requires_import s \<and> container_name s = Some c \<and> sym_name s = n) (dc_symbols dc)
     in new = [] \<or> direct_native_member_of idx' c n = Some (site u (last new))) \<and>
    (let new = filter (\<lambda>s. at_top_level s \<and> sym_kind s = State \<and> owner_class s = Some c \<and> sym_name s = n)
                 (dc_symbols dc)
     in new = [] \<or> find_state_in_owner idx' c n = Some (site u (last new))) \<and>
    (let new = filter (\<lambda>s. at_top_level s \<and> extends_by_type_name (sym_kind s) \<and> base_class s \<noteq> None \<and>
                           sym_name s = n) (dc_symbols dc)
     in new = [] \<or> wi_superclass_of idx' n = base_class (last new))"
proof -
  note upd = apply_contribution_updated [of u dc idx, folded idx'_def, unfolded updated_def]
  have "generation idx' = generation idx + 1"
    "fst (apply_contribution u dc idx) = diff_outward_keys (hget (doc_outward_hashes idx) u) (dc_outward dc)"
    by (simp_all add: idx'_def apply_contribution_tables)
  then show ?thesis
    by (simp only: Let_def lookup_views upd nested.view_push_all flat.view_push_all contrib_values)
      (intro conjI TrueI vlast_pushed superclass_pushed, auto)
qed

text \<open>
  C25: the index insertion and the index removal disagree about an injected member declared inside
  a class body: the entry that inserting a document makes for it stays after the document is
  removed, so that lookups keep returning a declaration of a file that is gone.
\<close>

definition nested_injected_field :: symbol where
  "nested_injected_field =
     (sample_symbol 1 ''f'' Field 12 20 (Some 0))
       \<lparr>container_name := Some ''C'',
        annotations := [\<lparr>annot_name = ''addField'', annot_argument = Some ''X''\<rparr>]\<rparr>"

theorem stale_injected_member:
  fixes finish :: hasher
  defines "idx \<equiv> snd (insert_synthetic finish ''a.ws''
      [sample_symbol 0 ''C'' Class 0 30 None, nested_injected_field] WorkspaceIndex_default)"
  defines "idx' \<equiv> snd (remove_document ''a.ws'' idx)"
  shows "hget (documents idx') ''a.ws'' = None \<and>
    direct_member_of idx' ''X'' ''f'' Private = Some (site ''a.ws'' nested_injected_field)"
proof -
  let ?syms = "[sample_symbol 0 ''C'' Class 0 30 None, nested_injected_field]"
  have "updated ''a.ws'' ?syms WorkspaceIndex_default idx" "hget (documents idx) ''a.ws'' = Some ?syms"
    using apply_contribution_updated [of "''a.ws''" _ WorkspaceIndex_default]
    by (auto simp: idx_def insert_synthetic_def apply_contribution_tables) (metis doc_contribution.select_convs(1))
  then have idx: "doc_syms idx ''a.ws'' = ?syms"
    "member_by_type idx = push_nested (concat (map (member_contrib ''a.ws'') ?syms)) []"
    "annotated_members_by_type idx = push_nested (concat (map (annotated_contrib ''a.ws'') ?syms)) []"
    by (simp_all add: updated_def doc_syms_def WorkspaceIndex_default_def)
  have idx': "member_by_type idx' =
        retain_nested (concat (map (member_removal ''a.ws'') ?syms)) (member_by_type idx)"
      "annotated_members_by_type idx' =
        retain_nested (concat (map (annotated_removal ''a.ws'') ?syms)) (annotated_members_by_type idx)"
    using remove_document_updated [of "''a.ws''" idx, folded idx'_def] idx(1)
    by (simp_all add: updated_def)
  have sym: "requires_import nested_injected_field = False"
    "annotation_target_class_safe nested_injected_field = Some ''X''"
    "container nested_injected_field = Some 0" "container_name nested_injected_field = Some ''C''"
    "sym_name nested_injected_field = ''f''" "access nested_injected_field = Public"
    by (simp_all add: nested_injected_field_def sample_symbol_def requires_import_def
        annotation_target_class_safe_def annotation_target_class_def injecting_annotation_def
        MEMBER_INJECTING_ANNOTATIONS_def)
  have c: "member_contrib u (sample_symbol 0 ''C'' Class 0 30 None) = []"
    "annotated_contrib u (sample_symbol 0 ''C'' Class 0 30 None) = []"
    "annotated_removal u (sample_symbol 0 ''C'' Class 0 30 None) = []"
    "member_removal u (sample_symbol 0 ''C'' Class 0 30 None) = []" for u
    by (simp_all add: contrib_defs removal_defs sample_symbol_def requires_import_def
        annotation_target_class_safe_def)
  have f: "member_contrib u nested_injected_field = []"
    "annotated_contrib u nested_injected_field = [((''X'', ''f''), site u nested_injected_field)]"
    "annotated_removal u nested_injected_field = []"
    "member_removal u nested_injected_field = [((''C'', ''f''), others u)]" for u
    by (simp_all add: contrib_defs removal_defs sym)
  have "nested_bucket (annotated_members_by_type idx') (''X'', ''f'') = [site ''a.ws'' nested_injected_field]"
    unfolding idx' idx by (simp add: c f nested.view_push)
  moreover have "nested_bucket (member_by_type idx') (''X'', ''f'') = []"
    unfolding idx' idx by (simp add: c f nested.view_retain)
  ultimately have "direct_member_of idx' ''X'' ''f'' Private = Some (site ''a.ws'' nested_injected_field)"
    by (simp add: direct_member_view sym vfirst_def vlast_def less_eq_access_level_def)
  then show ?thesis by (simp add: idx'_def remove_document_tables)
qed

end
