(* ===== verification/Subscriptions.thy ===== *)
theory Subscriptions
  imports Outward_Keys
begin

text \<open>
  \<^verbatim>\<open>src/resolve/subscription_registry.rs\<close> and \<open>ObservationSet\<close> of \<^verbatim>\<open>src/resolve/mod.rs\<close>:
  which documents looked which keys up, and hence must be re-examined when a key changes.  A
  \<open>HashSet\<close> is a list without repetitions.
\<close>

record observation_set =
  os_top_level :: "string list"
  os_members :: "(string \<times> string) list"
  os_enum_members :: "string list"

definition ObservationSet_default :: observation_set where
  "ObservationSet_default = \<lparr>os_top_level = [], os_members = [], os_enum_members = []\<rparr>"

definition observations_is_empty :: "observation_set \<Rightarrow> bool" where
  "observations_is_empty o' \<longleftrightarrow> os_top_level o' = [] \<and> os_members o' = [] \<and> os_enum_members o' = []"

record subscription_registry =
  sr_top_level :: "(string, string) buckets"
  sr_members :: "(string \<times> string, string) buckets"
  sr_enum_members :: "(string, string) buckets"
  keys_by_subscriber :: "(string, observation_set) hmap"

definition SubscriptionRegistry_default :: subscription_registry where
  "SubscriptionRegistry_default =
     \<lparr>sr_top_level = [], sr_members = [], sr_enum_members = [], keys_by_subscriber = []\<rparr>"

definition bucket_insert :: "'k \<Rightarrow> string \<Rightarrow> ('k, string) buckets \<Rightarrow> ('k, string) buckets" where
  "bucket_insert key uri m = hput key (List.insert uri (bucket m key)) m"

definition bucket_remove :: "'k \<Rightarrow> string \<Rightarrow> ('k, string) buckets \<Rightarrow> ('k, string) buckets" where
  "bucket_remove key uri m =
     (case hget m key of
        None \<Rightarrow> m
      | Some uris \<Rightarrow>
          (let uris' = removeAll uri uris in if uris' = [] then hdel key m else hput key uris' m))"

definition unregister :: "string \<Rightarrow> subscription_registry \<Rightarrow> subscription_registry" where
  "unregister uri reg =
     (case hget (keys_by_subscriber reg) uri of
        None \<Rightarrow> reg
      | Some prev \<Rightarrow>
          reg\<lparr>keys_by_subscriber := hdel uri (keys_by_subscriber reg),
              sr_top_level := fold (\<lambda>k. bucket_remove k uri) (os_top_level prev) (sr_top_level reg),
              sr_members := fold (\<lambda>k. bucket_remove k uri) (os_members prev) (sr_members reg),
              sr_enum_members := fold (\<lambda>k. bucket_remove k uri) (os_enum_members prev) (sr_enum_members reg)\<rparr>)"

definition register :: "string \<Rightarrow> observation_set \<Rightarrow> subscription_registry \<Rightarrow> subscription_registry" where
  "register uri obs reg =
     (let reg = unregister uri reg
      in reg\<lparr>sr_top_level := fold (\<lambda>k. bucket_insert k uri) (os_top_level obs) (sr_top_level reg),
             sr_members := fold (\<lambda>k. bucket_insert k uri) (os_members obs) (sr_members reg),
             sr_enum_members := fold (\<lambda>k. bucket_insert k uri) (os_enum_members obs) (sr_enum_members reg),
             keys_by_subscriber := hput uri obs (keys_by_subscriber reg)\<rparr>)"

definition key_bucket :: "subscription_registry \<Rightarrow> ObservedKey \<Rightarrow> string list" where
  "key_bucket reg key =
     (case key of
        TopLevel n \<Rightarrow> bucket (sr_top_level reg) n
      | MemberKey c n \<Rightarrow> bucket (sr_members reg) (c, n)
      | EnumMemberKey n \<Rightarrow> bucket (sr_enum_members reg) n)"

definition subscribers_of :: "ObservedKey list \<Rightarrow> subscription_registry \<Rightarrow> string list" where
  "subscribers_of keys reg = fold (\<lambda>key out. fold List.insert (key_bucket reg key) out) keys []"

subsection \<open>The registry is the inverse of the recorded observations\<close>

fun observed_in :: "observation_set \<Rightarrow> ObservedKey \<Rightarrow> bool" where
  "observed_in obs (TopLevel n) \<longleftrightarrow> n \<in> set (os_top_level obs)"
| "observed_in obs (MemberKey c n) \<longleftrightarrow> (c, n) \<in> set (os_members obs)"
| "observed_in obs (EnumMemberKey n) \<longleftrightarrow> n \<in> set (os_enum_members obs)"

definition observes :: "subscription_registry \<Rightarrow> string \<Rightarrow> ObservedKey \<Rightarrow> bool" where
  "observes reg uri key \<longleftrightarrow>
     (case hget (keys_by_subscriber reg) uri of None \<Rightarrow> False | Some obs \<Rightarrow> observed_in obs key)"

definition registry_ok :: "subscription_registry \<Rightarrow> bool" where
  "registry_ok reg \<longleftrightarrow> (\<forall>uri key. uri \<in> set (key_bucket reg key) \<longleftrightarrow> observes reg uri key)"

lemma set_bucket_insert:
  "set (bucket (bucket_insert k u m) k') = (if k' = k then insert u (set (bucket m k)) else set (bucket m k'))"
  by (auto simp: bucket_insert_def bucket_def)

lemma set_bucket_remove:
  "set (bucket (bucket_remove k u m) k') = (if k' = k then set (bucket m k) - {u} else set (bucket m k'))"
proof (cases "hget m k")
  case None
  then show ?thesis by (simp add: bucket_remove_def bucket_def)
next
  case (Some uris)
  have "removeAll u uris = [] \<Longrightarrow> set uris - {u} = {}" by (metis list.set(1) set_removeAll)
  with Some show ?thesis by (auto simp: bucket_remove_def bucket_def Let_def)
qed

lemma set_bucket_insert_all:
  "set (bucket (fold (\<lambda>k. bucket_insert k u) ks m) k) =
     (if k \<in> set ks then insert u (set (bucket m k)) else set (bucket m k))"
  by (induction ks arbitrary: m) (auto simp: set_bucket_insert)

lemma set_bucket_remove_all:
  "set (bucket (fold (\<lambda>k. bucket_remove k u) ks m) k) =
     (if k \<in> set ks then set (bucket m k) - {u} else set (bucket m k))"
  by (induction ks arbitrary: m) (auto simp: set_bucket_remove)

lemma unregister_buckets:
  "set (key_bucket (unregister u reg) key) =
     (if observes reg u key then set (key_bucket reg key) - {u} else set (key_bucket reg key))"
  by (cases key)
    (auto simp: unregister_def key_bucket_def observes_def set_bucket_remove_all split: option.splits)

lemma unregister_observes: "observes (unregister u reg) v key \<longleftrightarrow> v \<noteq> u \<and> observes reg v key"
  by (auto simp: observes_def unregister_def split: option.splits)

lemma unregister_ok: "registry_ok reg \<Longrightarrow> registry_ok (unregister u reg)"
  by (auto simp: registry_ok_def unregister_buckets unregister_observes split: if_splits)

lemma register_buckets:
  "set (key_bucket (register u obs reg) key) =
     (if observed_in obs key then insert u (set (key_bucket (unregister u reg) key))
      else set (key_bucket (unregister u reg) key))"
  by (cases key) (auto simp: register_def Let_def key_bucket_def set_bucket_insert_all)

lemma register_observes:
  "observes (register u obs reg) v key \<longleftrightarrow> (if v = u then observed_in obs key else observes reg v key)"
  using unregister_observes [of u reg v key]
  by (auto simp: observes_def register_def Let_def split: option.splits)

lemma register_ok: "registry_ok reg \<Longrightarrow> registry_ok (register u obs reg)"
  using unregister_ok [of reg u] unregister_observes [of u reg]
  by (auto simp: registry_ok_def register_buckets register_observes split: if_splits)

lemma set_insert_all: "set (fold List.insert xs out) = set xs \<union> set out"
  by (induction xs arbitrary: out) auto

lemma set_subscribers_of: "set (subscribers_of keys reg) = (\<Union>key \<in> set keys. set (key_bucket reg key))"
proof -
  have "set (fold (\<lambda>key out. fold List.insert (key_bucket reg key) out) keys out) =
      (\<Union>key \<in> set keys. set (key_bucket reg key)) \<union> set out" for out
    by (induction keys arbitrary: out) (auto simp: set_insert_all)
  then show ?thesis by (simp add: subscribers_of_def)
qed

subsection \<open>Properties\<close>

datatype registry_op = Register string observation_set | Unregister string

fun run_registry :: "registry_op list \<Rightarrow> subscription_registry \<Rightarrow> subscription_registry" where
  "run_registry [] reg = reg"
| "run_registry (Register u obs # ops) reg = run_registry ops (register u obs reg)"
| "run_registry (Unregister u # ops) reg = run_registry ops (unregister u reg)"

text \<open>What the operations mean: each subscriber has the observations it registered last.\<close>

fun spec_registry :: "registry_op list \<Rightarrow> (string \<rightharpoonup> observation_set) \<Rightarrow> (string \<rightharpoonup> observation_set)" where
  "spec_registry [] latest = latest"
| "spec_registry (Register u obs # ops) latest = spec_registry ops (latest(u \<mapsto> obs))"
| "spec_registry (Unregister u # ops) latest = spec_registry ops (latest(u := None))"

lemma run_registry_spec:
  assumes "registry_ok reg"
  shows "registry_ok (run_registry ops reg) \<and>
    map_of (keys_by_subscriber (run_registry ops reg)) = spec_registry ops (map_of (keys_by_subscriber reg))"
  using assms
proof (induction ops arbitrary: reg)
  case (Cons op ops)
  show ?case
  proof (cases op)
    case (Register u obs)
    have "map_of (keys_by_subscriber (register u obs reg)) = (map_of (keys_by_subscriber reg))(u \<mapsto> obs)"
      by (auto simp: register_def unregister_def Let_def fun_eq_iff split: option.splits)
    with Cons.IH [OF register_ok [OF Cons.prems]] Register show ?thesis
      by (metis run_registry.simps(2) spec_registry.simps(2))
  next
    case (Unregister u)
    have "map_of (keys_by_subscriber (unregister u reg)) = (map_of (keys_by_subscriber reg))(u := None)"
      by (auto simp: unregister_def fun_eq_iff split: option.splits)
    with Cons.IH [OF unregister_ok [OF Cons.prems]] Unregister show ?thesis
      by (metis run_registry.simps(3) spec_registry.simps(3))
  qed
qed simp

text \<open>
  C26: after any sequence of registrations and withdrawals, the subscribers reported for a list
  of changed keys are exactly the documents whose latest registration observed one of them.
\<close>

theorem subscribers_exact:
  "u \<in> set (subscribers_of keys (run_registry ops SubscriptionRegistry_default)) \<longleftrightarrow>
     (\<exists>obs key. spec_registry ops Map.empty u = Some obs \<and> key \<in> set keys \<and> observed_in obs key)"
proof -
  have "registry_ok SubscriptionRegistry_default"
    by (auto simp: registry_ok_def SubscriptionRegistry_default_def key_bucket_def observes_def
        split: ObservedKey.splits)
  then have "registry_ok (run_registry ops SubscriptionRegistry_default)"
    "hget (keys_by_subscriber (run_registry ops SubscriptionRegistry_default)) u =
      spec_registry ops Map.empty u"
    using run_registry_spec [of SubscriptionRegistry_default ops]
    by (simp_all add: SubscriptionRegistry_default_def)
  then show ?thesis
    by (auto simp: set_subscribers_of registry_ok_def observes_def split: option.splits)
qed

end
