(* ===== verification/Symbol_Db.thy ===== *)
theory Symbol_Db
  imports Subscriptions Workspace_Index Script_Env
begin

text \<open>
  \<^verbatim>\<open>src/resolve/symbol_db/\<close> and \<^verbatim>\<open>src/resolve/shadowed_base.rs\<close>: the symbol database, which
  layers the workspace over the base scripts (less the files the workspace shadows) over the
  builtins, and walks the inheritance chain.

  A lookup records the keys it depends on in an observer.  The model returns them next to the
  value, in order; \<open>record_keys\<close> puts them into an \<open>ObservationSet\<close>.  The functions
  \<open>superclass_of\<close>, \<open>implicit_superclass\<close>, \<open>state_superclass\<close> and \<open>find_state_in_owner_chain\<close> call
  each other without a bound; the model counts the nested calls, and \<open>None\<close> means that the given
  number of them was not enough.
\<close>

subsection \<open>Recording what is looked up\<close>

type_synonym 'a observed = "'a \<times> ObservedKey list"
type_synonym 'a run = "'a observed option"

definition run_return :: "'a \<Rightarrow> 'a run" where
  "run_return x = Some (x, [])"

definition run_tell :: "ObservedKey \<Rightarrow> unit run" where
  "run_tell k = Some ((), [k])"

definition run_bind :: "'a run \<Rightarrow> ('a \<Rightarrow> 'b run) \<Rightarrow> 'b run" where
  "run_bind m f =
     (case m of
        None \<Rightarrow> None
      | Some (x, ks) \<Rightarrow> (case f x of None \<Rightarrow> None | Some (y, ls) \<Rightarrow> Some (y, ks @ ls)))"

definition record_top_level :: "string \<Rightarrow> observation_set \<Rightarrow> observation_set" where
  "record_top_level name o' =
     (if name \<in> set (os_top_level o') then o'
      else o'\<lparr>os_top_level := os_top_level o' @ [name]\<rparr>)"

definition record_member :: "string \<Rightarrow> string \<Rightarrow> observation_set \<Rightarrow> observation_set" where
  "record_member c name o' =
     (if (c, name) \<in> set (os_members o') then o'
      else o'\<lparr>os_members := os_members o' @ [(c, name)]\<rparr>)"

definition record_enum_member :: "string \<Rightarrow> observation_set \<Rightarrow> observation_set" where
  "record_enum_member name o' =
     (if name \<in> set (os_enum_members o') then o'
      else o'\<lparr>os_enum_members := os_enum_members o' @ [name]\<rparr>)"

fun record_key :: "ObservedKey \<Rightarrow> observation_set \<Rightarrow> observation_set" where
  "record_key (TopLevel n) o' = record_top_level n o'"
| "record_key (MemberKey c n) o' = record_member c n o'"
| "record_key (EnumMemberKey n) o' = record_enum_member n o'"

text \<open>With no observer nothing is recorded.\<close>

definition record_keys :: "ObservedKey list \<Rightarrow> observation_set option \<Rightarrow> observation_set option" where
  "record_keys ks observer = map_option (fold record_key ks) observer"

definition merge_observations :: "observation_set \<Rightarrow> observation_set option \<Rightarrow> observation_set option" where
  "merge_observations other observer =
     map_option (\<lambda>outer. outer\<lparr>
       os_top_level := fold List.insert (os_top_level other) (os_top_level outer),
       os_members := fold List.insert (os_members other) (os_members outer),
       os_enum_members := fold List.insert (os_enum_members other) (os_enum_members outer)\<rparr>) observer"

subsection \<open>The shadowed base\<close>

record shadowed_base =
  sb_index :: workspace_index
  sb_suppressed :: "string list option"

definition uri_visible :: "shadowed_base \<Rightarrow> string \<Rightarrow> bool" where
  "uri_visible sb uri = (case sb_suppressed sb of Some super \<Rightarrow> uri \<notin> set super | None \<Rightarrow> True)"

definition def_visible :: "shadowed_base \<Rightarrow> definition_site \<Rightarrow> bool" where
  "def_visible sb d = uri_visible sb (def_uri d)"

definition sb_find_top_level :: "shadowed_base \<Rightarrow> string \<Rightarrow> definition_site option" where
  "sb_find_top_level sb name = filter_option (def_visible sb) (find_top_level (sb_index sb) name)"

definition sb_find_top_level_filtered ::
  "shadowed_base \<Rightarrow> string \<Rightarrow> name_context \<Rightarrow> definition_site option" where
  "sb_find_top_level_filtered sb name ctx =
     find (\<lambda>d. accepts ctx (sym_kind (def_symbol d)) \<and> def_visible sb d)
       (all_top_level_with_name (sb_index sb) name)"

definition sb_find_state_in_owner :: "shadowed_base \<Rightarrow> string \<Rightarrow> string \<Rightarrow> definition_site option" where
  "sb_find_state_in_owner sb own name =
     filter_option (def_visible sb) (find_state_in_owner (sb_index sb) own name)"

definition sb_find_enum_member :: "shadowed_base \<Rightarrow> string \<Rightarrow> definition_site option" where
  "sb_find_enum_member sb name = filter_option (def_visible sb) (find_enum_member (sb_index sb) name)"

definition sb_superclass_of :: "shadowed_base \<Rightarrow> string \<Rightarrow> string option" where
  "sb_superclass_of sb class_name =
     (case sb_find_top_level sb class_name of
        None \<Rightarrow> None
      | Some _ \<Rightarrow> wi_superclass_of (sb_index sb) class_name)"

definition sb_direct_member_of ::
  "shadowed_base \<Rightarrow> string \<Rightarrow> string \<Rightarrow> access_level \<Rightarrow> definition_site option" where
  "sb_direct_member_of sb c name min_access =
     filter_option (def_visible sb) (direct_member_of (sb_index sb) c name min_access)"

definition sb_class_body_member_of :: "shadowed_base \<Rightarrow> string \<Rightarrow> string \<Rightarrow> definition_site option" where
  "sb_class_body_member_of sb c name =
     filter_option (def_visible sb) (class_body_member_of (sb_index sb) c name)"

definition sb_class_body_members_of :: "shadowed_base \<Rightarrow> string \<Rightarrow> definition_site list" where
  "sb_class_body_members_of sb c = filter (def_visible sb) (class_body_members_of (sb_index sb) c)"

definition sb_direct_members_of :: "shadowed_base \<Rightarrow> string \<Rightarrow> access_level \<Rightarrow> definition_site list" where
  "sb_direct_members_of sb c min_access =
     filter (def_visible sb) (direct_members_of (sb_index sb) c min_access)"

definition sb_annotated_members :: "shadowed_base \<Rightarrow> string \<Rightarrow> string \<Rightarrow> definition_site list" where
  "sb_annotated_members sb c name = filter (def_visible sb) (annotated_members (sb_index sb) c name)"

definition filter_catalog :: "definition_site list \<Rightarrow> string list option \<Rightarrow> definition_site list" where
  "filter_catalog cat suppressed =
     (case suppressed of
        None \<Rightarrow> cat
      | Some super \<Rightarrow> if super = [] then cat else filter (\<lambda>d. def_uri d \<notin> set super) cat)"

definition sb_callables_catalog :: "shadowed_base \<Rightarrow> definition_site list" where
  "sb_callables_catalog sb = filter_catalog (callables (catalog (sb_index sb))) (sb_suppressed sb)"

definition sb_types_catalog :: "shadowed_base \<Rightarrow> definition_site list" where
  "sb_types_catalog sb = filter_catalog (types (catalog (sb_index sb))) (sb_suppressed sb)"

definition sb_enum_members_catalog :: "shadowed_base \<Rightarrow> definition_site list" where
  "sb_enum_members_catalog sb = filter_catalog (enum_members (catalog (sb_index sb))) (sb_suppressed sb)"

definition sb_full_parameters_of :: "shadowed_base \<Rightarrow> string \<Rightarrow> symbol_id \<Rightarrow> symbol list" where
  "sb_full_parameters_of sb uri callable_id =
     (if \<not> uri_visible sb uri then [] else full_parameters_of (sb_index sb) uri callable_id)"

subsection \<open>Generic containers\<close>

definition GENERIC_ELEMENT_PLACEHOLDER :: string where
  "GENERIC_ELEMENT_PLACEHOLDER = ''T''"

definition MAP_KEY_PLACEHOLDER :: string where
  "MAP_KEY_PLACEHOLDER = ''K''"

definition MAP_VALUE_PLACEHOLDER :: string where
  "MAP_VALUE_PLACEHOLDER = ''V''"

definition is_generic_instance :: "string \<Rightarrow> bool" where
  "is_generic_instance c \<longleftrightarrow> parse_generic_type c \<noteq> None"

definition parse_generic_instance :: "string \<Rightarrow> ty option" where
  "parse_generic_instance c = (if is_generic_instance c then Some (from_annotation c) else None)"

fun placeholder_binding :: "string \<Rightarrow> ty \<Rightarrow> ty option" where
  "placeholder_binding placeholder (Array element) =
     (if placeholder = GENERIC_ELEMENT_PLACEHOLDER then Some element else None)"
| "placeholder_binding placeholder (Map key val) =
     (if placeholder = MAP_KEY_PLACEHOLDER then Some key
      else if placeholder = MAP_VALUE_PLACEHOLDER then Some val else None)"
| "placeholder_binding placeholder _ = None"

fun substitute_generics :: "ty \<Rightarrow> ty \<Rightarrow> ty" where
  "substitute_generics (Named name) c =
     (case placeholder_binding name c of None \<Rightarrow> Named name | Some t \<Rightarrow> t)"
| "substitute_generics (Array element) c = Array (substitute_generics element c)"
| "substitute_generics (Map key val) c = Map (substitute_generics key c) (substitute_generics val c)"
| "substitute_generics t c = t"

definition substitute_in_definition :: "definition_site \<Rightarrow> string \<Rightarrow> ty \<Rightarrow> definition_site" where
  "substitute_in_definition d container_instance c =
     (let s = def_symbol d;
          s = (case type_annotation s of
                 None \<Rightarrow> s
               | Some t \<Rightarrow> s\<lparr>type_annotation := Some (substitute_generics t c)\<rparr>);
          s = (if container_name s \<noteq> None then s\<lparr>container_name := Some container_instance\<rparr> else s)
      in d\<lparr>def_symbol := s\<rparr>)"

subsection \<open>The database\<close>

record filtered_base_catalogs =
  fb_callables :: "definition_site list"
  fb_types :: "definition_site list"
  fb_enum_members :: "definition_site list"

definition FilteredBaseCatalogs_build :: "workspace_index \<Rightarrow> string list \<Rightarrow> filtered_base_catalogs" where
  "FilteredBaseCatalogs_build base suppressed =
     \<lparr>fb_callables = filter_catalog (callables (catalog base)) (Some suppressed),
      fb_types = filter_catalog (types (catalog base)) (Some suppressed),
      fb_enum_members = filter_catalog (enum_members (catalog base)) (Some suppressed)\<rparr>"

record symbol_db =
  workspace :: workspace_index
  base :: workspace_index
  builtins :: "workspace_index option"
  script_env :: "script_environment option"
  suppressed_base_uris :: "string list option"
  prefiltered_base :: "filtered_base_catalogs option"

definition SymbolDb_new :: "workspace_index \<Rightarrow> workspace_index \<Rightarrow> symbol_db" where
  "SymbolDb_new ws bs =
     \<lparr>workspace = ws, base = bs, builtins = None, script_env = None,
      suppressed_base_uris = None, prefiltered_base = None\<rparr>"

definition the_shadowed_base :: "symbol_db \<Rightarrow> shadowed_base" where
  "the_shadowed_base db = \<lparr>sb_index = base db, sb_suppressed = suppressed_base_uris db\<rparr>"

definition base_callables_for_merge :: "symbol_db \<Rightarrow> definition_site list" where
  "base_callables_for_merge db =
     (case prefiltered_base db of
        Some p \<Rightarrow> fb_callables p | None \<Rightarrow> sb_callables_catalog (the_shadowed_base db))"

definition base_types_for_merge :: "symbol_db \<Rightarrow> definition_site list" where
  "base_types_for_merge db =
     (case prefiltered_base db of
        Some p \<Rightarrow> fb_types p | None \<Rightarrow> sb_types_catalog (the_shadowed_base db))"

definition base_enum_members_for_merge :: "symbol_db \<Rightarrow> definition_site list" where
  "base_enum_members_for_merge db =
     (case prefiltered_base db of
        Some p \<Rightarrow> fb_enum_members p | None \<Rightarrow> sb_enum_members_catalog (the_shadowed_base db))"

definition OBJECT_BASE_CLASS :: string where
  "OBJECT_BASE_CLASS = ''CObject''"

definition STATE_BASE_CLASS :: string where
  "STATE_BASE_CLASS = ''CScriptableState''"

definition OBJECT_ROOT_CHAIN :: "string list" where
  "OBJECT_ROOT_CHAIN = [''CObject'', ''IScriptable'', ''ISerializable'']"

definition MAX_INHERITANCE_DEPTH :: nat where
  "MAX_INHERITANCE_DEPTH = 32"

subsection \<open>Names\<close>

text \<open>The value of a lookup without its recording is the same function of the three layers.\<close>

definition top_level_value :: "symbol_db \<Rightarrow> string \<Rightarrow> definition_site option" where
  "top_level_value db name =
     or_else (find_top_level (workspace db) name)
       (or_else (sb_find_top_level (the_shadowed_base db) name)
          (Option.bind (builtins db) (\<lambda>b. find_top_level b name)))"

definition db_find_top_level :: "symbol_db \<Rightarrow> string \<Rightarrow> definition_site option observed" where
  "db_find_top_level db name = (top_level_value db name, [TopLevel name])"

definition db_find_top_level_filtered ::
  "symbol_db \<Rightarrow> string \<Rightarrow> name_context \<Rightarrow> definition_site option observed" where
  "db_find_top_level_filtered db name ctx =
     (or_else (find_top_level_filtered (workspace db) name ctx)
        (or_else (sb_find_top_level_filtered (the_shadowed_base db) name ctx)
           (Option.bind (builtins db) (\<lambda>b. find_top_level_filtered b name ctx))),
      [TopLevel name])"

definition find_script_global :: "symbol_db \<Rightarrow> string \<Rightarrow> definition_site option observed" where
  "find_script_global db name =
     (case Option.bind (script_env db) (\<lambda>env. env_find env name) of
        None \<Rightarrow> (None, [])
      | Some g \<Rightarrow>
          (case db_find_top_level db (sg_type_name g) of
             (Some class_def, ks) \<Rightarrow> (Some class_def, ks)
           | (None, ks) \<Rightarrow> (Some \<lparr>def_uri = sg_ini_uri g, def_symbol = sg_symbol g\<rparr>, ks)))"

definition script_global_type :: "symbol_db \<Rightarrow> string \<Rightarrow> ty option" where
  "script_global_type db name =
     Option.bind (Option.bind (script_env db) (\<lambda>env. env_find env name)) (\<lambda>g. type_annotation (sg_symbol g))"

definition script_global_type_name :: "symbol_db \<Rightarrow> string \<Rightarrow> string option" where
  "script_global_type_name db name =
     map_option sg_type_name (Option.bind (script_env db) (\<lambda>env. env_find env name))"

definition all_script_globals :: "symbol_db \<Rightarrow> definition_site list" where
  "all_script_globals db =
     (case script_env db of
        None \<Rightarrow> []
      | Some env \<Rightarrow> map (\<lambda>g. \<lparr>def_uri = sg_ini_uri g, def_symbol = sg_symbol g\<rparr>) (globals env))"

definition db_find_enum_member :: "symbol_db \<Rightarrow> string \<Rightarrow> definition_site option observed" where
  "db_find_enum_member db name =
     (or_else (find_enum_member (workspace db) name)
        (or_else (sb_find_enum_member (the_shadowed_base db) name)
           (Option.bind (builtins db) (\<lambda>b. find_enum_member b name))),
      [EnumMemberKey name])"

text \<open>\<open>filter(|def| seen.insert(..))\<close>: the first definition of each type name.\<close>

fun first_by_type_name :: "string list \<Rightarrow> definition_site list \<Rightarrow> definition_site list" where
  "first_by_type_name seen [] = []"
| "first_by_type_name seen (d # ds) =
     (if type_name (def_symbol d) \<in> set seen then first_by_type_name seen ds
      else d # first_by_type_name (type_name (def_symbol d) # seen) ds)"

definition db_states_named :: "symbol_db \<Rightarrow> string \<Rightarrow> definition_site list" where
  "db_states_named db name =
     first_by_type_name [] (states_named (workspace db) name @ states_named (base db) name)"

subsection \<open>Superclasses\<close>

definition state_value :: "symbol_db \<Rightarrow> string \<Rightarrow> string \<Rightarrow> definition_site option" where
  "state_value db own name =
     or_else (find_state_in_owner (workspace db) own name)
       (or_else (sb_find_state_in_owner (the_shadowed_base db) own name)
          (Option.bind (builtins db) (\<lambda>b. find_state_in_owner b own name)))"

text \<open>The loop of \<open>find_state_in_owner_chain\<close>, given \<open>superclass_of\<close>.\<close>

function state_chain_loop ::
  "(string \<Rightarrow> string option run) \<Rightarrow> symbol_db \<Rightarrow> string \<Rightarrow> nat \<Rightarrow> string \<Rightarrow> definition_site option run" where
  "state_chain_loop super db name depth current =
     (if MAX_INHERITANCE_DEPTH < depth then run_return None
      else run_bind (run_tell (TopLevel current)) (\<lambda>_.
           run_bind (run_tell (TopLevel (state_class_name current name))) (\<lambda>_.
           case state_value db current name of
             Some d \<Rightarrow> run_return (Some d)
           | None \<Rightarrow>
               run_bind (super current) (\<lambda>p.
                 case p of
                   None \<Rightarrow> run_return None
                 | Some parent \<Rightarrow> state_chain_loop super db name (Suc depth) parent))))"
  by pat_completeness auto
termination
  by (relation "measure (\<lambda>(_, _, _, depth, _). Suc MAX_INHERITANCE_DEPTH - depth)") auto

declare state_chain_loop.simps [simp del]

text \<open>\<open>state_superclass\<close> and \<open>implicit_superclass\<close>, given \<open>find_state_in_owner_chain\<close>.\<close>

definition state_superclass ::
  "(string \<Rightarrow> string \<Rightarrow> definition_site option run) \<Rightarrow> symbol \<Rightarrow> string run" where
  "state_superclass find_chain s =
     (case (owner_class s, base_class s) of
        (Some own, Some b) \<Rightarrow>
          run_bind (find_chain own b) (\<lambda>r.
            case r of
              None \<Rightarrow> run_return STATE_BASE_CLASS
            | Some base_state \<Rightarrow> run_return (type_name (def_symbol base_state)))
      | _ \<Rightarrow> run_return STATE_BASE_CLASS)"

definition implicit_superclass ::
  "(string \<Rightarrow> string \<Rightarrow> definition_site option run) \<Rightarrow> symbol_db \<Rightarrow> string \<Rightarrow> string option run" where
  "implicit_superclass find_chain db class_name =
     run_bind (Some (db_find_top_level db class_name)) (\<lambda>r.
       case r of
         None \<Rightarrow> run_return None
       | Some d \<Rightarrow>
           (case sym_kind (def_symbol d) of
              State \<Rightarrow> run_bind (state_superclass find_chain (def_symbol d)) (\<lambda>c. run_return (Some c))
            | Class \<Rightarrow>
                if class_name \<notin> set OBJECT_ROOT_CHAIN then run_return (Some OBJECT_BASE_CLASS)
                else run_return None
            | _ \<Rightarrow> run_return None))"

definition explicit_superclass :: "symbol_db \<Rightarrow> string \<Rightarrow> string option" where
  "explicit_superclass db class_name =
     or_else (wi_superclass_of (workspace db) class_name)
       (or_else (sb_superclass_of (the_shadowed_base db) class_name)
          (Option.bind (builtins db) (\<lambda>b. wi_superclass_of b class_name)))"

definition superclass_step ::
  "(string \<Rightarrow> string \<Rightarrow> definition_site option run) \<Rightarrow> symbol_db \<Rightarrow> string \<Rightarrow> string option run" where
  "superclass_step find_chain db class_name =
     run_bind (run_tell (TopLevel class_name)) (\<lambda>_.
       case explicit_superclass db class_name of
         Some b \<Rightarrow> run_return (Some b)
       | None \<Rightarrow> implicit_superclass find_chain db class_name)"

text \<open>\<open>superclass_of\<close> with at most the given number of \<open>find_state_in_owner_chain\<close> calls nested.\<close>

primrec superclass_of :: "nat \<Rightarrow> symbol_db \<Rightarrow> string \<Rightarrow> string option run" where
  "superclass_of 0 db class_name = superclass_step (\<lambda>_ _. None) db class_name"
| "superclass_of (Suc n) db class_name =
     superclass_step (\<lambda>own name. state_chain_loop (superclass_of n db) db name 0 own) db class_name"

definition find_state_in_owner_chain ::
  "nat \<Rightarrow> symbol_db \<Rightarrow> string \<Rightarrow> string \<Rightarrow> definition_site option run" where
  "find_state_in_owner_chain n db start_owner name =
     state_chain_loop (superclass_of n db) db name 0 start_owner"

subsection \<open>Walking the inheritance chain\<close>

text \<open>\<open>try_in_chain\<close>; \<open>visit\<close> may update a state of its caller and records keys of its own.\<close>

function chain_loop ::
  "(string \<Rightarrow> string option run) \<Rightarrow> (string \<Rightarrow> nat \<Rightarrow> 's \<Rightarrow> ('t option \<times> 's) observed)
   \<Rightarrow> nat \<Rightarrow> string \<Rightarrow> 's \<Rightarrow> ('t option \<times> 's) run" where
  "chain_loop super visit depth current st =
     (if MAX_INHERITANCE_DEPTH < depth then run_return (None, st)
      else run_bind (run_tell (TopLevel current)) (\<lambda>_.
           run_bind (Some (visit current depth st)) (\<lambda>r.
             case fst r of
               Some found \<Rightarrow> run_return (Some found, snd r)
             | None \<Rightarrow>
                 run_bind (super current) (\<lambda>p.
                   case p of
                     None \<Rightarrow> run_return (None, snd r)
                   | Some superclass \<Rightarrow> chain_loop super visit (Suc depth) superclass (snd r)))))"
  by pat_completeness auto
termination
  by (relation "measure (\<lambda>(_, _, depth, _, _). Suc MAX_INHERITANCE_DEPTH - depth)") auto

declare chain_loop.simps [simp del]

definition try_in_chain ::
  "nat \<Rightarrow> symbol_db \<Rightarrow> (string \<Rightarrow> nat \<Rightarrow> 's \<Rightarrow> ('t option \<times> 's) observed) \<Rightarrow> string \<Rightarrow> 's
   \<Rightarrow> ('t option \<times> 's) run" where
  "try_in_chain n db visit start st = chain_loop (superclass_of n db) visit 0 start st"

text \<open>A visitor without state that only looks.\<close>

definition looking :: "(string \<Rightarrow> 't option observed) \<Rightarrow> string \<Rightarrow> nat \<Rightarrow> unit \<Rightarrow> ('t option \<times> unit) observed" where
  "looking f current depth st = ((fst (f current), ()), snd (f current))"

definition look_in_chain :: "nat \<Rightarrow> symbol_db \<Rightarrow> (string \<Rightarrow> 't option observed) \<Rightarrow> string \<Rightarrow> 't option run" where
  "look_in_chain n db f start =
     run_bind (try_in_chain n db (looking f) start ()) (\<lambda>r. run_return (fst r))"

definition inherits_from :: "nat \<Rightarrow> symbol_db \<Rightarrow> string \<Rightarrow> string \<Rightarrow> bool run" where
  "inherits_from n db class_name ancestor =
     run_bind (look_in_chain n db (\<lambda>c. (if c = ancestor then Some () else None, [])) class_name)
       (\<lambda>r. run_return (r \<noteq> None))"

definition member_value :: "symbol_db \<Rightarrow> access_level \<Rightarrow> string \<Rightarrow> string \<Rightarrow> definition_site option" where
  "member_value db min_access c name =
     or_else (direct_member_of (workspace db) c name min_access)
       (or_else (sb_direct_member_of (the_shadowed_base db) c name min_access)
          (Option.bind (builtins db) (\<lambda>b. direct_member_of b c name min_access)))"

definition substitute_if_generic :: "string \<Rightarrow> definition_site \<Rightarrow> definition_site" where
  "substitute_if_generic c d =
     (case parse_generic_instance c of
        None \<Rightarrow> d
      | Some generic \<Rightarrow> substitute_in_definition d c generic)"

definition find_member ::
  "nat \<Rightarrow> symbol_db \<Rightarrow> string \<Rightarrow> string \<Rightarrow> access_level \<Rightarrow> definition_site option run" where
  "find_member n db c name min_access =
     run_bind (look_in_chain n db (\<lambda>k. (member_value db Private k name, [MemberKey k name])) (lookup_ctor c))
       (\<lambda>r. case r of
              None \<Rightarrow> run_return None
            | Some d \<Rightarrow>
                if access (def_symbol d) < min_access then run_return None
                else run_return (Some (substitute_if_generic c d)))"

definition class_body_value :: "symbol_db \<Rightarrow> string \<Rightarrow> string \<Rightarrow> definition_site option" where
  "class_body_value db c name =
     or_else (class_body_member_of (workspace db) c name)
       (or_else (sb_class_body_member_of (the_shadowed_base db) c name)
          (Option.bind (builtins db) (\<lambda>b. class_body_member_of b c name)))"

definition find_class_body_member :: "nat \<Rightarrow> symbol_db \<Rightarrow> string \<Rightarrow> string \<Rightarrow> definition_site option run" where
  "find_class_body_member n db c name =
     run_bind (look_in_chain n db (\<lambda>k. (class_body_value db k name, [])) (lookup_ctor c))
       (\<lambda>r. run_return (map_option (substitute_if_generic c) r))"

definition db_find_native_top_level :: "symbol_db \<Rightarrow> string \<Rightarrow> definition_site option" where
  "db_find_native_top_level db name = Option.bind (builtins db) (\<lambda>b. find_native_top_level b name)"

definition find_native_member :: "nat \<Rightarrow> symbol_db \<Rightarrow> string \<Rightarrow> string \<Rightarrow> definition_site option run" where
  "find_native_member n db c name =
     (case builtins db of
        None \<Rightarrow> run_return None
      | Some b \<Rightarrow> look_in_chain n db (\<lambda>k. (direct_native_member_of b k name, [])) c)"

definition native_counterpart_of :: "nat \<Rightarrow> symbol_db \<Rightarrow> symbol \<Rightarrow> definition_site option run" where
  "native_counterpart_of n db s =
     (case container_name s of
        None \<Rightarrow> run_return (filter_option (\<lambda>d. is_type (sym_kind (def_symbol d)) = is_type (sym_kind s))
                  (db_find_native_top_level db (sym_name s)))
      | Some c \<Rightarrow> find_native_member n db c (sym_name s))"

subsection \<open>Subclasses\<close>

definition direct_subclasses :: "symbol_db \<Rightarrow> string \<Rightarrow> string list" where
  "direct_subclasses db b =
     direct_subclasses_of (workspace db) b @ direct_subclasses_of (base db) b
     @ (case builtins db of None \<Rightarrow> [] | Some bi \<Rightarrow> direct_subclasses_of bi b)"

text \<open>One pass over the subclasses of a class: push those not seen yet.\<close>

fun visit_subs :: "string list \<Rightarrow> string list \<times> string list \<times> string list \<Rightarrow> string list \<times> string list \<times> string list"
where
  "visit_subs [] st = st"
| "visit_subs (sub # subs) (found, seen, stack) =
     (if sub \<in> set seen then visit_subs subs (found, seen, stack)
      else visit_subs subs (found @ [sub], sub # seen, stack @ [sub]))"

partial_function (option) subclasses_loop ::
  "symbol_db \<Rightarrow> string list \<Rightarrow> string list \<Rightarrow> string list \<Rightarrow> string list option" where
  "subclasses_loop db found seen stack =
     (if stack = [] then Some found
      else let b = last stack;
               (found', seen', stack') = visit_subs (direct_subclasses db b) (found, seen, butlast stack)
           in subclasses_loop db found' seen' stack')"

definition transitive_subclasses :: "symbol_db \<Rightarrow> string \<Rightarrow> string list outcome" where
  "transitive_subclasses db own = of_loop (subclasses_loop db [] [] [own])"

definition direct_member :: "symbol_db \<Rightarrow> string \<Rightarrow> string \<Rightarrow> definition_site option" where
  "direct_member db c name = member_value db Public c name"

definition virtual_parent_member_overrides :: "symbol_db \<Rightarrow> string \<Rightarrow> string \<Rightarrow> definition_site list outcome" where
  "virtual_parent_member_overrides db own name =
     obind (transitive_subclasses db own) (\<lambda>subs. Returns (List.map_filter (\<lambda>c. direct_member db c name) subs))"

subsection \<open>Member lists\<close>

text \<open>\<open>seen.entry(name).or_insert(def)\<close> and \<open>into_values()\<close>.\<close>

definition or_insert :: "'k \<Rightarrow> 'v \<Rightarrow> ('k, 'v) hmap \<Rightarrow> ('k, 'v) hmap" where
  "or_insert k v m = (if hget m k = None then hput k v m else m)"

definition dedup_by_name :: "definition_site list \<Rightarrow> definition_site list" where
  "dedup_by_name defs = hvalues (fold (\<lambda>d. or_insert (sym_name (def_symbol d)) d) defs [])"

fun dedup_loop ::
  "(string \<times> byte_range) list \<Rightarrow> definition_site list \<Rightarrow> definition_site list \<Rightarrow> definition_site list" where
  "dedup_loop seen result [] = result"
| "dedup_loop seen result (d # ds) =
     (let key = (def_uri d, selection_byte_range (def_symbol d))
      in if key \<in> set seen then dedup_loop seen result ds
         else dedup_loop (seen @ [key]) (result @ [d]) ds)"

definition dedup_definitions :: "definition_site list \<Rightarrow> definition_site list" where
  "dedup_definitions defs = dedup_loop [] [] defs"

definition from_builtins :: "symbol_db \<Rightarrow> (workspace_index \<Rightarrow> 'a list) \<Rightarrow> 'a list" where
  "from_builtins db f = (case builtins db of None \<Rightarrow> [] | Some b \<Rightarrow> f b)"

definition db_class_body_members_of :: "symbol_db \<Rightarrow> string \<Rightarrow> definition_site list" where
  "db_class_body_members_of db c =
     dedup_by_name
       (class_body_members_of (workspace db) c
        @ sb_class_body_members_of (the_shadowed_base db) c
        @ from_builtins db (\<lambda>b. class_body_members_of b c))"

definition layered_members :: "symbol_db \<Rightarrow> string \<Rightarrow> access_level \<Rightarrow> definition_site list" where
  "layered_members db c min_access =
     direct_members_of (workspace db) c min_access
     @ sb_direct_members_of (the_shadowed_base db) c min_access
     @ from_builtins db (\<lambda>b. direct_members_of b c min_access)"

definition db_direct_members_of :: "symbol_db \<Rightarrow> string \<Rightarrow> access_level \<Rightarrow> definition_site list" where
  "db_direct_members_of db c min_access =
     map (substitute_if_generic c) (dedup_by_name (layered_members db (lookup_ctor c) min_access))"

text \<open>The visitor of \<open>members_of_tiered\<close>: it keeps the first definition of each name with the
  tier it was seen at, own members 0 and inherited ones 1.\<close>

definition tier_visit ::
  "symbol_db \<Rightarrow> string \<Rightarrow> nat \<Rightarrow> (string, nat \<times> definition_site) hmap
   \<Rightarrow> (unit option \<times> (string, nat \<times> definition_site) hmap) observed" where
  "tier_visit db c depth seen =
     (let tier = (if depth \<noteq> 0 then 1 else 0)
      in ((None, fold (\<lambda>d. or_insert (sym_name (def_symbol d)) (tier, d)) (layered_members db c Private) seen),
          []))"

definition members_of_tiered ::
  "nat \<Rightarrow> symbol_db \<Rightarrow> string \<Rightarrow> access_level \<Rightarrow> (nat \<times> definition_site) list run" where
  "members_of_tiered n db c min_access =
     run_bind (try_in_chain n db (tier_visit db) (lookup_ctor c) []) (\<lambda>r.
       run_return (map (\<lambda>(t, d). (t, substitute_if_generic c d))
         (filter (\<lambda>(_, d). min_access \<le> access (def_symbol d)) (hvalues (snd r)))))"

definition members_of :: "nat \<Rightarrow> symbol_db \<Rightarrow> string \<Rightarrow> access_level \<Rightarrow> definition_site list run" where
  "members_of n db c min_access =
     run_bind (members_of_tiered n db c min_access) (\<lambda>ms. run_return (map snd ms))"

definition all_member_declarations :: "nat \<Rightarrow> symbol_db \<Rightarrow> string \<Rightarrow> string \<Rightarrow> definition_site list run" where
  "all_member_declarations n db c name =
     run_bind (find_class_body_member n db c name) (\<lambda>r.
       run_return (dedup_definitions
         ((case r of None \<Rightarrow> [] | Some d \<Rightarrow> [d])
          @ annotated_members (workspace db) c name
          @ sb_annotated_members (the_shadowed_base db) c name
          @ from_builtins db (\<lambda>b. annotated_members b c name))))"

subsection \<open>Catalogs and parameters\<close>

definition GENERIC_SOURCE_URIS :: "string list" where
  "GENERIC_SOURCE_URIS = [''witcherscript-builtin:/array.ws'', ''witcherscript-builtin:/map.ws'']"

definition is_non_type_builtin :: "string \<Rightarrow> bool" where
  "is_non_type_builtin uri \<longleftrightarrow> uri \<in> set GENERIC_SOURCE_URIS"

text \<open>\<open>types_completion_catalog\<close> of the process-wide builtins index.\<close>

definition types_completion_catalog :: "workspace_index \<Rightarrow> definition_site list" where
  "types_completion_catalog builtin_index =
     filter (\<lambda>d. \<not> is_non_type_builtin (def_uri d)) (types (catalog builtin_index))"

definition merged_callables_catalog :: "symbol_db \<Rightarrow> definition_site list" where
  "merged_callables_catalog db =
     merge_ws_base (callables (catalog (workspace db))) (base_callables_for_merge db)"

definition merged_types_catalog :: "workspace_index \<Rightarrow> symbol_db \<Rightarrow> definition_site list" where
  "merged_types_catalog builtin_index db =
     (let ws = types (catalog (workspace db)); bs = base_types_for_merge db
      in case builtins db of
           Some _ \<Rightarrow> merge_ws_base_three ws bs (types_completion_catalog builtin_index)
         | None \<Rightarrow> merge_ws_base ws bs)"

definition merged_enum_members_catalog :: "symbol_db \<Rightarrow> definition_site list" where
  "merged_enum_members_catalog db =
     (let ws = enum_members (catalog (workspace db)); bs = base_enum_members_for_merge db
      in case builtins db of
           Some b \<Rightarrow> merge_ws_base_three ws bs (enum_members (catalog b))
         | None \<Rightarrow> merge_ws_base ws bs)"

definition db_full_parameters_of :: "symbol_db \<Rightarrow> string \<Rightarrow> symbol_id \<Rightarrow> symbol list" where
  "db_full_parameters_of db uri callable_id =
     (let params = full_parameters_of (workspace db) uri callable_id
      in if params \<noteq> [] then params
         else let params = sb_full_parameters_of (the_shadowed_base db) uri callable_id
              in if params \<noteq> [] then params
                 else from_builtins db (\<lambda>b. full_parameters_of b uri callable_id))"

definition display_parameters_of :: "symbol_db \<Rightarrow> definition_site \<Rightarrow> symbol list" where
  "display_parameters_of db d =
     (let params = db_full_parameters_of db (def_uri d) (sym_id (def_symbol d))
      in case Option.bind (container_name (def_symbol d)) parse_generic_instance of
           None \<Rightarrow> params
         | Some generic \<Rightarrow>
             map (\<lambda>p. case type_annotation p of
                        None \<Rightarrow> p
                      | Some t \<Rightarrow> p\<lparr>type_annotation := Some (substitute_generics t generic)\<rparr>) params)"

definition definition_at_selection ::
  "nat \<Rightarrow> symbol_db \<Rightarrow> string \<Rightarrow> byte_range \<Rightarrow> string \<Rightarrow> string option \<Rightarrow> definition_site option run" where
  "definition_at_selection n db uri selection name cont =
     (let indexes = [workspace db, base db] @ (case builtins db of None \<Rightarrow> [] | Some b \<Rightarrow> [b]);
          find_map = (\<lambda>f. vfirst (List.map_filter f indexes));
          at = (\<lambda>s. \<lparr>def_uri = uri, def_symbol = s\<rparr>)
      in case filter_option is_generic_instance cont of
           Some c \<Rightarrow> find_member n db c name Private
         | None \<Rightarrow>
             (case find_map (\<lambda>index. find_symbol_at_selection index uri selection) of
                Some s \<Rightarrow> run_return (Some (at s))
              | None \<Rightarrow>
                  (case cont of
                     Some c \<Rightarrow> find_member n db c name Private
                   | None \<Rightarrow>
                       run_return (map_option at
                         (or_else (find_map (\<lambda>index. find_symbol_by_name index uri name))
                            (map_option sg_symbol
                               (Option.bind (script_env db) (\<lambda>env. env_find env name))))))))"

end
