(* ===== verification/Db_Lookup.thy ===== *)
theory Db_Lookup
  imports Symbol_Db Index_Invariant
begin

text \<open>
  What the symbol database returns: inheritance and member lookup, when the mutually recursive
  superclass lookup returns, and that a lookup depends only on the keys it records.
\<close>

subsection \<open>Runs\<close>

lemma run_bind_simps [simp]:
  "run_bind None f = None"
  "run_bind (Some (x, ks)) f = map_option (\<lambda>(y, ls). (y, ks @ ls)) (f x)"
  by (auto simp: run_bind_def split: option.splits)

lemma run_tell_bind [simp]: "run_bind (run_tell k) f = map_option (\<lambda>(y, ls). (y, k # ls)) (f ())"
  by (simp add: run_tell_def)

lemma run_return_bind [simp]: "run_bind (run_return x) f = f x"
  by (simp add: run_return_def option.map_ident_strong split_def)

lemma run_bind_None_iff: "run_bind m f = None \<longleftrightarrow> m = None \<or> (\<exists>x ks. m = Some (x, ks) \<and> f x = None)"
  by (cases m) auto

lemma run_return_iff [simp]:
  "run_return x \<noteq> None" "run_return x = Some (y, ks) \<longleftrightarrow> y = x \<and> ks = []"
  by (auto simp: run_return_def)

text \<open>The value of a run.\<close>

definition run_value :: "'a run \<Rightarrow> 'a option" where
  "run_value m = map_option fst m"

lemma run_value_bind:
  "run_value (run_bind m f) = Option.bind (run_value m) (\<lambda>x. run_value (f x))"
  by (cases m) (auto simp: run_value_def option.map_comp comp_def split_def)

lemma run_value_simps [simp]:
  "run_value (run_return x) = Some x" "run_value (run_tell k) = Some ()" "run_value None = None"
  "run_value (Some (x, ks)) = Some x"
  by (simp_all add: run_value_def run_return_def run_tell_def)

lemma run_value_None_iff [simp]: "run_value m = None \<longleftrightarrow> m = None"
  by (simp add: run_value_def)

subsection \<open>The inheritance line\<close>

text \<open>The classes visited from \<open>c\<close>, at most \<open>k\<close> of them, when \<open>g\<close> gives the superclass.\<close>

fun line :: "(string \<Rightarrow> string option) \<Rightarrow> nat \<Rightarrow> string \<Rightarrow> string list" where
  "line g 0 c = []"
| "line g (Suc k) c = c # (case g c of None \<Rightarrow> [] | Some p \<Rightarrow> line g k p)"

fun ancestor :: "(string \<Rightarrow> string option) \<Rightarrow> nat \<Rightarrow> string \<Rightarrow> string option" where
  "ancestor g 0 c = Some c"
| "ancestor g (Suc j) c = Option.bind (g c) (ancestor g j)"

lemma set_line: "x \<in> set (line g k c) \<longleftrightarrow> (\<exists>j < k. ancestor g j c = Some x)"
proof (induction k arbitrary: c)
  case (Suc k)
  have "(\<exists>j < Suc k. ancestor g j c = Some x) \<longleftrightarrow>
      c = x \<or> (\<exists>j < k. Option.bind (g c) (ancestor g j) = Some x)"
    by (metis Suc_less_eq ancestor.simps less_Suc_eq_0_disj option.inject)
  then show ?case by (cases "g c") (auto simp: Suc)
qed simp

text \<open>The first result a list of classes gives.\<close>

fun first_some :: "('a \<Rightarrow> 'b option) \<Rightarrow> 'a list \<Rightarrow> 'b option" where
  "first_some f [] = None"
| "first_some f (x # xs) = or_else (f x) (first_some f xs)"

lemma first_some_split:
  "first_some f xs = Some y \<Longrightarrow>
     \<exists>pre x post. xs = pre @ x # post \<and> (\<forall>p \<in> set pre. f p = None) \<and> f x = Some y"
proof (induction xs)
  case (Cons a xs)
  show ?case
  proof (cases "f a")
    case None
    with Cons obtain pre x post where "xs = pre @ x # post" "\<forall>p \<in> set pre. f p = None" "f x = Some y"
      by auto
    with None show ?thesis by (intro exI [of _ "a # pre"]) auto
  next
    case (Some z)
    with Cons.prems show ?thesis by (intro exI [of _ "[]"]) auto
  qed
qed simp

lemma first_some_None_iff: "first_some f xs = None \<longleftrightarrow> (\<forall>x \<in> set xs. f x = None)"
  by (induction xs) auto

definition parent :: "nat \<Rightarrow> symbol_db \<Rightarrow> string \<Rightarrow> string option" where
  "parent n db c = (case run_value (superclass_of n db c) of None \<Rightarrow> None | Some p \<Rightarrow> p)"

text \<open>\<open>n\<close> nested calls are enough for every superclass lookup.\<close>

definition superclasses_return :: "nat \<Rightarrow> symbol_db \<Rightarrow> bool" where
  "superclasses_return n db \<longleftrightarrow> (\<forall>c. superclass_of n db c \<noteq> None)"

lemma superclass_value:
  "superclasses_return n db \<Longrightarrow> \<exists>ks. superclass_of n db c = Some (parent n db c, ks)"
proof -
  assume "superclasses_return n db"
  then obtain r ks where "superclass_of n db c = Some (r, ks)"
    unfolding superclasses_return_def by (metis not_None_eq surj_pair)
  then show ?thesis by (simp add: parent_def)
qed

lemma chain_loop_value:
  assumes "superclasses_return n db" "depth + k = Suc MAX_INHERITANCE_DEPTH"
  shows "run_value (chain_loop (superclass_of n db) (looking f) depth c ()) =
    Some (first_some (\<lambda>x. fst (f x)) (line (parent n db) k c), ())"
  using assms(2)
proof (induction k arbitrary: depth c)
  case 0
  then show ?case by (simp add: chain_loop.simps)
next
  case (Suc k)
  obtain ks where ks: "superclass_of n db c = Some (parent n db c, ks)"
    using superclass_value [OF assms(1)] by blast
  from Suc.prems have d: "\<not> MAX_INHERITANCE_DEPTH < depth" by simp
  have IH: "run_value (chain_loop (superclass_of n db) (looking f) (Suc depth) p ()) =
      Some (first_some (\<lambda>x. fst (f x)) (line (parent n db) k p), ())" for p
    using Suc.prems by (intro Suc.IH) simp
  have look: "looking f c depth () = ((fst (f c), ()), snd (f c))" by (simp add: looking_def)
  show ?case
    using d ks IH
    by (simp add: chain_loop.simps [of _ _ depth] run_value_bind look del: run_bind_simps(2) run_tell_bind
        split: option.splits)
qed

definition lineage :: "nat \<Rightarrow> symbol_db \<Rightarrow> string \<Rightarrow> string list" where
  "lineage n db c = line (parent n db) (Suc MAX_INHERITANCE_DEPTH) c"

lemma look_in_chain_value:
  "superclasses_return n db \<Longrightarrow>
   run_value (look_in_chain n db f c) = Some (first_some (\<lambda>x. fst (f x)) (lineage n db c))"
  unfolding look_in_chain_def try_in_chain_def lineage_def
  by (simp add: run_value_bind chain_loop_value)

subsection \<open>Members\<close>

lemma find_member_value:
  assumes "superclasses_return n db"
  shows "run_value (find_member n db c name a) = Some
    (case first_some (\<lambda>k. member_value db Private k name) (lineage n db (lookup_ctor c)) of
       None \<Rightarrow> None
     | Some d \<Rightarrow> if access (def_symbol d) < a then None else Some (substitute_if_generic c d))"
  unfolding find_member_def
  by (simp add: run_value_bind look_in_chain_value [OF assms] split: option.splits)

subsection \<open>More nested calls change nothing\<close>

definition extends :: "'a run \<Rightarrow> 'a run \<Rightarrow> bool" where
  "extends m m' \<longleftrightarrow> m = None \<or> m' = m"

lemma extends_refl [simp]: "extends m m" "extends None m"
  by (simp_all add: extends_def)

lemma extends_bind:
  "extends m m' \<Longrightarrow> (\<And>x. extends (f x) (f' x)) \<Longrightarrow> extends (run_bind m f) (run_bind m' f')"
  by (cases m) (auto simp: extends_def, metis)

lemma extends_cases: "(\<And>x. extends (f x) (f' x)) \<Longrightarrow> extends m m' \<Longrightarrow>
    extends (case r of None \<Rightarrow> m | Some x \<Rightarrow> f x) (case r of None \<Rightarrow> m' | Some x \<Rightarrow> f' x)"
  by (cases r) auto

lemma state_chain_loop_extends:
  assumes "\<And>c. extends (super c) (super' c)"
  shows "extends (state_chain_loop super db name depth c) (state_chain_loop super' db name depth c)"
proof (induction "Suc MAX_INHERITANCE_DEPTH - depth" arbitrary: depth c)
  case 0
  then show ?case by (simp add: state_chain_loop.simps)
next
  case (Suc k)
  then have "extends (state_chain_loop super db name (Suc depth) p) (state_chain_loop super' db name (Suc depth) p)" for p
    by simp
  then show ?case
    using Suc.hyps(2)
    by (simp add: state_chain_loop.simps [of _ _ _ depth] assms del: run_bind_simps run_tell_bind)
      (intro impI extends_bind extends_cases assms extends_refl; simp)
qed

lemma superclass_step_extends:
  assumes "\<And>own name. extends (find_chain own name) (find_chain' own name)"
  shows "extends (superclass_step find_chain db c) (superclass_step find_chain' db c)"
  unfolding superclass_step_def implicit_superclass_def state_superclass_def
  by (intro extends_bind extends_cases extends_refl)
    (auto split: symbol_kind.splits option.splits intro!: extends_bind assms)

lemma superclass_of_extends: "extends (superclass_of n db c) (superclass_of (Suc n) db c)"
proof (induction n arbitrary: c)
  case 0
  show ?case unfolding superclass_of.simps by (rule superclass_step_extends) simp
next
  case (Suc n)
  show ?case
    unfolding superclass_of.simps(2) [of "Suc n"] superclass_of.simps(2) [of n db c]
    by (intro superclass_step_extends state_chain_loop_extends Suc)
qed

lemma superclass_of_stable:
  "superclass_of n db c = Some r \<Longrightarrow> superclass_of (n + k) db c = Some r"
proof (induction k)
  case (Suc k)
  then show ?case using superclass_of_extends [of "n + k" db c] by (simp add: extends_def)
qed simp

subsection \<open>When the superclass lookup returns\<close>

lemma state_chain_loop_returns:
  assumes "\<And>c. P c \<Longrightarrow> super c \<noteq> None"
    and "\<And>c p ks. P c \<Longrightarrow> super c = Some (Some p, ks) \<Longrightarrow> P p"
  shows "P c \<Longrightarrow> state_chain_loop super db name depth c \<noteq> None"
proof (induction "Suc MAX_INHERITANCE_DEPTH - depth" arbitrary: depth c)
  case 0
  then show ?case by (simp add: state_chain_loop.simps)
next
  case (Suc k)
  have IH: "P p \<Longrightarrow> state_chain_loop super db name (Suc depth) p \<noteq> None" for p
    using Suc.hyps(1) [of "Suc depth" p] Suc.hyps(2) by simp
  obtain r ks where r: "super c = Some (r, ks)" using assms(1) [OF Suc.prems] by auto
  show ?case
    using assms(2) [OF Suc.prems] r IH
    by (cases r) (auto simp: state_chain_loop.simps [of _ _ _ depth] split: option.splits)
qed

text \<open>The state a class name denotes, when its superclass is looked up through its owner.\<close>

definition inheriting_state :: "symbol_db \<Rightarrow> string \<Rightarrow> string \<Rightarrow> bool" where
  "inheriting_state db c own \<longleftrightarrow>
     explicit_superclass db c = None \<and>
     (\<exists>d b. top_level_value db c = Some d \<and> sym_kind (def_symbol d) = State \<and>
        owner_class (def_symbol d) = Some own \<and> base_class (def_symbol d) = Some b)"

lemma superclass_step_returns:
  assumes "\<And>own name. inheriting_state db c own \<Longrightarrow> find_chain own name \<noteq> None"
  shows "superclass_step find_chain db c \<noteq> None"
proof (cases "explicit_superclass db c")
  case (Some b)
  then show ?thesis by (simp add: superclass_step_def)
next
  case None
  show ?thesis
  proof (cases "top_level_value db c")
    case None
    then show ?thesis
      using \<open>explicit_superclass db c = None\<close>
      by (simp add: superclass_step_def implicit_superclass_def db_find_top_level_def)
  next
    case (Some d)
    have "state_superclass find_chain (def_symbol d) \<noteq> None" if "sym_kind (def_symbol d) = State"
    proof (cases "owner_class (def_symbol d) = None \<or> base_class (def_symbol d) = None")
      case True
      then show ?thesis by (auto simp: state_superclass_def split: option.splits)
    next
      case False
      then obtain own b where ob: "owner_class (def_symbol d) = Some own" "base_class (def_symbol d) = Some b"
        by auto
      then have "find_chain own b \<noteq> None"
        using assms None Some that by (auto simp: inheriting_state_def)
      with ob show ?thesis
        by (auto simp: state_superclass_def run_bind_None_iff split: option.splits)
    qed
    then show ?thesis
      using None Some
      by (auto simp: superclass_step_def implicit_superclass_def db_find_top_level_def run_bind_None_iff
          split: symbol_kind.splits if_splits)
  qed
qed

lemma ranked_superclass_returns:
  assumes state: "\<And>c own. inheriting_state db c own \<Longrightarrow> rank own < rank c"
    and up: "\<And>n c p. run_value (superclass_of n db c) = Some (Some p) \<Longrightarrow> rank p \<le> rank c"
  shows "rank c \<le> n \<Longrightarrow> superclass_of n db c \<noteq> None"
proof (induction n arbitrary: c)
  case 0
  then have "\<not> inheriting_state db c own" for own using state [of c own] by auto
  then show ?case unfolding superclass_of.simps by (intro superclass_step_returns) blast
next
  case (Suc n)
  have "state_chain_loop (superclass_of n db) db name 0 own \<noteq> None" if "inheriting_state db c own" for own name
  proof (rule state_chain_loop_returns [where P = "\<lambda>x. rank x \<le> n"])
    show "rank own \<le> n" using state [OF that] Suc.prems by simp
    show "rank p \<le> n" if "rank x \<le> n" "superclass_of n db x = Some (Some p, ks)" for x p ks
      using up [of n x p] that by simp
  qed (rule Suc.IH)
  then show ?case unfolding superclass_of.simps by (intro superclass_step_returns) blast
qed

subsection \<open>One document in an empty index\<close>

lemma first_document_views:
  fixes finish u syms
  defines "idx \<equiv> snd (insert_synthetic finish u syms WorkspaceIndex_default)"
  shows "bucket (wi_top_level_by_name idx) n = map (site u) (filter (\<lambda>s. at_top_level s \<and> type_name s = n) syms)"
    and "bucket (superclass_by_name idx) n =
      map (\<lambda>s. (u, the (base_class s))) (filter (\<lambda>s. at_top_level s \<and> extends_by_type_name (sym_kind s) \<and>
        base_class s \<noteq> None \<and> sym_name s = n) syms)"
    and "nested_bucket (states_by_owner idx) (c, n) =
      map (site u) (filter (\<lambda>s. at_top_level s \<and> sym_kind s = State \<and> owner_class s = Some c \<and>
        sym_name s = n) syms)"
    and "nested_bucket (member_by_type idx) (c, n) =
      map (site u) (filter (\<lambda>s. in_class_body s \<and> container_name s = Some c \<and> sym_name s = n) syms)"
    and "nested_bucket (annotated_members_by_type idx) (c, n) =
      map (site u) (filter (\<lambda>s. is_injected s \<and> annotation_target_class_safe s = Some c \<and> sym_name s = n) syms)"
proof -
  have "updated u syms WorkspaceIndex_default idx"
    using apply_contribution_updated [of u _ WorkspaceIndex_default]
    unfolding idx_def insert_synthetic_def by (metis doc_contribution.select_convs(1))
  then have upd: "wi_top_level_by_name idx = push_flat (concat (map (top_contrib u) syms)) []"
    "superclass_by_name idx = push_flat (concat (map (super_contrib u) syms)) []"
    "states_by_owner idx = push_nested (concat (map (state_contrib u) syms)) []"
    "member_by_type idx = push_nested (concat (map (member_contrib u) syms)) []"
    "annotated_members_by_type idx = push_nested (concat (map (annotated_contrib u) syms)) []"
    by (simp_all add: updated_def doc_syms_def WorkspaceIndex_default_def)
  have top: "contrib (concat (map (top_contrib u) syms)) n =
      map (site u) (filter (\<lambda>s. at_top_level s \<and> type_name s = n) syms)"
    unfolding top_contrib_def [abs_def] by (rule contrib_singleton_map)
  have inj: "contrib (concat (map (annotated_contrib u) syms)) (c, n) =
      map (site u) (filter (\<lambda>s. is_injected s \<and> annotation_target_class_safe s = Some c \<and> sym_name s = n) syms)"
    by (induction syms) (auto simp: contrib_def annotated_contrib_def is_injected_def)
  show "bucket (wi_top_level_by_name idx) n = map (site u) (filter (\<lambda>s. at_top_level s \<and> type_name s = n) syms)"
    "bucket (superclass_by_name idx) n =
      map (\<lambda>s. (u, the (base_class s))) (filter (\<lambda>s. at_top_level s \<and> extends_by_type_name (sym_kind s) \<and>
        base_class s \<noteq> None \<and> sym_name s = n) syms)"
    "nested_bucket (states_by_owner idx) (c, n) =
      map (site u) (filter (\<lambda>s. at_top_level s \<and> sym_kind s = State \<and> owner_class s = Some c \<and>
        sym_name s = n) syms)"
    "nested_bucket (member_by_type idx) (c, n) =
      map (site u) (filter (\<lambda>s. in_class_body s \<and> container_name s = Some c \<and> sym_name s = n) syms)"
    "nested_bucket (annotated_members_by_type idx) (c, n) =
      map (site u) (filter (\<lambda>s. is_injected s \<and> annotation_target_class_safe s = Some c \<and> sym_name s = n) syms)"
    unfolding upd flat.view_push_all nested.view_push_all contrib_values top inj by simp_all
qed

definition one_document_db :: "hasher \<Rightarrow> symbol list \<Rightarrow> symbol_db" where
  "one_document_db finish syms =
     SymbolDb_new (snd (insert_synthetic finish ''a.ws'' syms WorkspaceIndex_default)) WorkspaceIndex_default"

lemma default_lookups [simp]:
  "find_top_level WorkspaceIndex_default n = None" "wi_superclass_of WorkspaceIndex_default n = None"
  "find_state_in_owner WorkspaceIndex_default c n = None"
  "direct_member_of WorkspaceIndex_default c n a = None"
  by (simp_all add: WorkspaceIndex_default_def find_top_level_def wi_superclass_of_def
      find_state_in_owner_def direct_member_of_def)

lemma one_document_values:
  "top_level_value (one_document_db finish syms) n =
     (let ds = map (site ''a.ws'') (filter (\<lambda>s. at_top_level s \<and> type_name s = n) syms)
      in or_else (find (\<lambda>d. sym_kind (def_symbol d) \<noteq> State) ds) (vfirst ds))"
  "explicit_superclass (one_document_db finish syms) n =
     map_option snd (vlast (map (\<lambda>s. (''a.ws'', the (base_class s))) (filter (\<lambda>s. at_top_level s \<and>
       extends_by_type_name (sym_kind s) \<and> base_class s \<noteq> None \<and> sym_name s = n) syms)))"
  "state_value (one_document_db finish syms) c n =
     vlast (map (site ''a.ws'') (filter (\<lambda>s. at_top_level s \<and> sym_kind s = State \<and>
       owner_class s = Some c \<and> sym_name s = n) syms))"
  "member_value (one_document_db finish syms) a c n =
     filter_option (\<lambda>d. a \<le> access (def_symbol d)) (or_else
       (vlast (map (site ''a.ws'') (filter (\<lambda>s. in_class_body s \<and> container_name s = Some c \<and> sym_name s = n) syms)))
       (vfirst (map (site ''a.ws'') (filter (\<lambda>s. is_injected s \<and> annotation_target_class_safe s = Some c \<and>
         sym_name s = n) syms))))"
  by (simp_all add: one_document_db_def SymbolDb_new_def top_level_value_def explicit_superclass_def
      state_value_def the_shadowed_base_def sb_find_top_level_def sb_superclass_of_def
      sb_find_state_in_owner_def member_value_def sb_direct_member_of_def)
    (simp_all add: direct_member_view find_top_level_view all_top_level_with_name_def lookup_views first_document_views)

text \<open>The state of \<open>O\<close> inherits from a name no state has, and \<open>O\<close> from the class of that state.\<close>

definition looping_class :: symbol where
  "looping_class = (sample_symbol 0 ''O'' Class 0 30 None)\<lparr>base_class := Some ''OStateS''\<rparr>"

definition looping_state :: symbol where
  "looping_state = (sample_symbol 1 ''S'' State 31 60 None)
     \<lparr>owner_class := Some ''O'', base_class := Some ''X'', state_class := Some ''OStateS''\<rparr>"

lemma looping_symbols:
  "at_top_level looping_class" "at_top_level looping_state"
  "type_name looping_class = ''O''" "type_name looping_state = ''OStateS''"
  "sym_kind looping_class = Class" "sym_kind looping_state = State"
  "base_class looping_class = Some ''OStateS''" "base_class looping_state = Some ''X''"
  "owner_class looping_state = Some ''O''" "sym_name looping_class = ''O''" "sym_name looping_state = ''S''"
  by (simp_all add: looping_class_def looping_state_def sample_symbol_def at_top_level_def type_name_def
      requires_import_def annotation_target_class_safe_def annotation_target_class_def
      injecting_annotation_def)

lemma looping_values:
  fixes finish
  defines "db \<equiv> one_document_db finish [looping_class, looping_state]"
  shows "top_level_value db ''OStateS'' = Some (site ''a.ws'' looping_state)"
    "explicit_superclass db ''OStateS'' = None" "explicit_superclass db ''O'' = Some ''OStateS''"
    "state_value db c ''X'' = None"
  by (simp_all add: db_def one_document_values looping_symbols extends_by_type_name_def vlast_def vfirst_def)

lemma looping_superclass:
  "superclass_of n (one_document_db finish [looping_class, looping_state]) ''OStateS'' = None"
proof (induction n)
  let ?db = "one_document_db finish [looping_class, looping_state]"
  have step: "superclass_step chain ?db ''OStateS'' = None" if "chain ''O'' ''X'' = None" for chain
    using that by (simp add: superclass_step_def implicit_superclass_def db_find_top_level_def looping_values
        looping_symbols state_superclass_def)
  case 0
  show ?case unfolding superclass_of.simps by (rule step) simp
  case (Suc n)
  have own: "superclass_of n ?db ''O'' = Some (Some ''OStateS'', [TopLevel ''O''])"
    by (cases n) (simp_all add: superclass_step_def looping_values run_return_def)
  have "state_chain_loop (superclass_of n ?db) ?db ''X'' 0 ''O'' = None"
    by (simp add: state_chain_loop.simps [of _ _ _ 0] state_chain_loop.simps [of _ _ _ "Suc 0"]
        looping_values own Suc MAX_INHERITANCE_DEPTH_def)
  then show ?case unfolding superclass_of.simps by (rule step)
qed

subsection \<open>Lookups depend only on what they record\<close>

text \<open>A family of stores that may agree on sets of keys, and computations that record keys: a
  computation is honest when its outcome is fixed by the store's content under the keys it
  recorded.\<close>

locale recorded_reads =
  fixes agrees :: "ObservedKey set \<Rightarrow> 'd \<Rightarrow> 'd \<Rightarrow> bool"
  assumes agrees_mono: "agrees K d d' \<Longrightarrow> L \<subseteq> K \<Longrightarrow> agrees L d d'"
begin

definition honest :: "('d \<Rightarrow> 'a run) \<Rightarrow> bool" where
  "honest F \<longleftrightarrow> (\<forall>d d' r ks. F d = Some (r, ks) \<longrightarrow> agrees (set ks) d d' \<longrightarrow> F d' = Some (r, ks))"

lemma honestD: "honest F \<Longrightarrow> F d = Some (r, ks) \<Longrightarrow> agrees (set ks) d d' \<Longrightarrow> F d' = Some (r, ks)"
  unfolding honest_def by blast

lemma honest_return: "honest (\<lambda>d. run_return x)"
  by (simp add: honest_def)

lemma honest_none: "honest (\<lambda>d. None)"
  by (simp add: honest_def)

lemma honest_bind:
  assumes "honest F" "\<And>x. honest (G x)"
  shows "honest (\<lambda>d. run_bind (F d) (\<lambda>x. G x d))"
  unfolding honest_def
proof (intro allI impI)
  fix d d' r ks
  assume run: "run_bind (F d) (\<lambda>x. G x d) = Some (r, ks)" and agree: "agrees (set ks) d d'"
  then obtain x k1 k2 where F: "F d = Some (x, k1)" and G: "G x d = Some (r, k2)" and ks: "ks = k1 @ k2"
    by (auto simp: run_bind_def split: option.splits)
  have "F d' = Some (x, k1)" using honestD [OF assms(1) F] agrees_mono [OF agree] ks by simp
  moreover have "G x d' = Some (r, k2)" using honestD [OF assms(2) G] agrees_mono [OF agree] ks by simp
  ultimately show "run_bind (F d') (\<lambda>x. G x d') = Some (r, ks)" using ks by simp
qed

text \<open>Reading what a key stands for, after recording the key.\<close>

lemma honest_read:
  assumes "\<And>d d'. agrees {k} d d' \<Longrightarrow> read d = read d'" "\<And>v. honest (G v)"
  shows "honest (\<lambda>d. run_bind (run_tell k) (\<lambda>_. G (read d) d))"
  unfolding honest_def
proof (intro allI impI)
  fix d d' r ks
  assume run: "run_bind (run_tell k) (\<lambda>_. G (read d) d) = Some (r, ks)" and agree: "agrees (set ks) d d'"
  then obtain k2 where G: "G (read d) d = Some (r, k2)" and ks: "ks = k # k2" by auto
  have "read d = read d'" using assms(1) [OF agrees_mono [OF agree]] ks by simp
  moreover have "G (read d) d' = Some (r, k2)" using honestD [OF assms(2) G] agrees_mono [OF agree] ks by auto
  ultimately show "run_bind (run_tell k) (\<lambda>_. G (read d') d') = Some (r, ks)" using ks by simp
qed

lemma honest_case:
  assumes "honest F" "\<And>x. honest (G x)"
  shows "honest (\<lambda>d. case r of None \<Rightarrow> F d | Some x \<Rightarrow> G x d)"
  using assms by (cases r) simp_all

end

text \<open>Two databases that agree on what a set of keys stands for: the top-level declaration and the
  superclass of a name, the state behind a state class name, and a member of a class.\<close>

definition db_agrees :: "ObservedKey set \<Rightarrow> symbol_db \<Rightarrow> symbol_db \<Rightarrow> bool" where
  "db_agrees K db db' \<longleftrightarrow>
     (\<forall>n. TopLevel n \<in> K \<longrightarrow>
        top_level_value db n = top_level_value db' n \<and> explicit_superclass db n = explicit_superclass db' n) \<and>
     (\<forall>own n. TopLevel (state_class_name own n) \<in> K \<longrightarrow> state_value db own n = state_value db' own n) \<and>
     (\<forall>c n. MemberKey c n \<in> K \<longrightarrow> member_value db Private c n = member_value db' Private c n)"

interpretation db_reads: recorded_reads db_agrees
  by unfold_locales (auto simp: db_agrees_def)

lemma honest_state_chain:
  assumes super: "\<And>c. db_reads.honest (\<lambda>db. super db c)"
  shows "db_reads.honest (\<lambda>db. state_chain_loop (super db) db name depth c)"
proof (induction "Suc MAX_INHERITANCE_DEPTH - depth" arbitrary: depth c)
  case 0
  then show ?case by (simp add: state_chain_loop.simps [of _ _ _ depth] db_reads.honest_return)
next
  case (Suc k)
  have IH: "db_reads.honest (\<lambda>db. state_chain_loop (super db) db name (Suc depth) p)" for p
    using Suc.hyps(1) [of "Suc depth" p] Suc.hyps(2) by simp
  have body: "db_reads.honest (\<lambda>db.
      run_bind (run_tell (TopLevel c)) (\<lambda>_.
      run_bind (run_tell (TopLevel (state_class_name c name))) (\<lambda>_.
      case state_value db c name of
        Some d \<Rightarrow> run_return (Some d)
      | None \<Rightarrow> run_bind (super db c) (\<lambda>p.
          case p of None \<Rightarrow> run_return None
                  | Some q \<Rightarrow> state_chain_loop (super db) db name (Suc depth) q))))"
    by (intro db_reads.honest_read [where read = "\<lambda>_. ()"] db_reads.honest_read [where read = "\<lambda>db. state_value db c name"]
        db_reads.honest_case db_reads.honest_bind super IH db_reads.honest_return)
      (auto simp: db_agrees_def)
  have depth: "(MAX_INHERITANCE_DEPTH < depth) = False" using Suc.hyps(2) by simp
  show ?case
    unfolding state_chain_loop.simps [of _ _ _ depth] depth if_False by (rule body)
qed

lemma honest_superclass_step:
  assumes fc: "\<And>own name. db_reads.honest (\<lambda>db. fc db own name)"
  shows "db_reads.honest (\<lambda>db. superclass_step (fc db) db c)"
proof -
  have state: "db_reads.honest (\<lambda>db. state_superclass (fc db) s)" for s
    unfolding state_superclass_def
    by (cases "owner_class s"; cases "base_class s")
      (simp_all add: db_reads.honest_return db_reads.honest_bind db_reads.honest_case fc)
  have kind: "db_reads.honest (\<lambda>db. case r of None \<Rightarrow> run_return None
      | Some d \<Rightarrow> (case sym_kind (def_symbol d) of
          State \<Rightarrow> run_bind (state_superclass (fc db) (def_symbol d)) (\<lambda>c. run_return (Some c))
        | Class \<Rightarrow> if c \<notin> set OBJECT_ROOT_CHAIN then run_return (Some OBJECT_BASE_CLASS) else run_return None
        | _ \<Rightarrow> run_return None))" for r
  proof (cases r)
    case None
    then show ?thesis by (simp add: db_reads.honest_return)
  next
    case (Some d)
    then show ?thesis
      by (cases "sym_kind (def_symbol d)") (simp_all add: db_reads.honest_return db_reads.honest_bind state)
  qed
  have implicit: "db_reads.honest (\<lambda>db. implicit_superclass (fc db) db c)"
  proof -
    have "implicit_superclass (fc db) db c =
        run_bind (run_tell (TopLevel c)) (\<lambda>_. case top_level_value db c of None \<Rightarrow> run_return None
          | Some d \<Rightarrow> (case sym_kind (def_symbol d) of
              State \<Rightarrow> run_bind (state_superclass (fc db) (def_symbol d)) (\<lambda>c. run_return (Some c))
            | Class \<Rightarrow> if c \<notin> set OBJECT_ROOT_CHAIN then run_return (Some OBJECT_BASE_CLASS) else run_return None
            | _ \<Rightarrow> run_return None))" for db
      by (simp add: implicit_superclass_def db_find_top_level_def)
    moreover have "top_level_value d c = top_level_value d' c" if "db_agrees {TopLevel c} d d'" for d d'
      using that by (simp add: db_agrees_def)
    ultimately show ?thesis
      by (simp only:) (rule db_reads.honest_read [where read = "\<lambda>db. top_level_value db c", OF _ kind])
  qed
  show ?thesis
    unfolding superclass_step_def
    by (rule db_reads.honest_read [where read = "\<lambda>db. explicit_superclass db c"])
      (auto simp: db_agrees_def intro!: db_reads.honest_case db_reads.honest_return implicit)
qed

lemma honest_superclass_of: "db_reads.honest (\<lambda>db. superclass_of n db c)"
proof (induction n arbitrary: c)
  case 0
  show ?case unfolding superclass_of.simps by (rule honest_superclass_step) (rule db_reads.honest_none)
next
  case (Suc n)
  show ?case unfolding superclass_of.simps
    by (rule honest_superclass_step) (rule honest_state_chain, rule Suc)
qed

lemma honest_chain_loop:
  assumes visit: "\<And>c depth st. db_reads.honest (\<lambda>db. Some (visit db c depth st))"
  shows "db_reads.honest (\<lambda>db. chain_loop (superclass_of n db) (visit db) depth c st)"
proof (induction "Suc MAX_INHERITANCE_DEPTH - depth" arbitrary: depth c st)
  case 0
  then show ?case by (simp add: chain_loop.simps [of _ _ depth] db_reads.honest_return)
next
  case (Suc k)
  have IH: "db_reads.honest (\<lambda>db. chain_loop (superclass_of n db) (visit db) (Suc depth) p st')" for p st'
    using Suc.hyps(1) [of "Suc depth" p st'] Suc.hyps(2) by simp
  have depth: "(MAX_INHERITANCE_DEPTH < depth) = False" using Suc.hyps(2) by simp
  show ?case
    unfolding chain_loop.simps [of _ _ depth] depth if_False
    by (rule db_reads.honest_read [where read = "\<lambda>_. ()"])
      (auto intro!: db_reads.honest_bind visit db_reads.honest_case db_reads.honest_return
        honest_superclass_of IH)
qed

lemma honest_look_in_chain:
  assumes "\<And>c. db_reads.honest (\<lambda>db. Some (f db c))"
  shows "db_reads.honest (\<lambda>db. look_in_chain n db (f db) c)"
proof -
  have "db_reads.honest (\<lambda>db. Some (looking (f db) x depth st))" for x depth st
  proof -
    have "Some (looking (f db) x depth st) = run_bind (Some (f db x)) (\<lambda>r. run_return (r, ()))" for db
      by (cases "f db x") (simp add: looking_def run_return_def)
    then show ?thesis by (simp only:) (rule db_reads.honest_bind [OF assms db_reads.honest_return])
  qed
  from honest_chain_loop [where visit = "\<lambda>db. looking (f db)", OF this] show ?thesis
    unfolding look_in_chain_def try_in_chain_def
    by (rule db_reads.honest_bind) (rule db_reads.honest_return)
qed

subsection \<open>Properties\<close>

text \<open>
  C27: a class inherits from another exactly when the other is among the classes reached by at
  most 32 superclass steps, itself included; the walk returns whatever cycles the hierarchy has,
  provided each single superclass lookup returns.
\<close>

theorem inherits_from_lineage:
  assumes "superclasses_return n db"
  shows "\<exists>ks b. inherits_from n db c a = Some (b, ks) \<and>
    (b \<longleftrightarrow> (\<exists>j \<le> 32. ancestor (parent n db) j c = Some a))"
proof -
  have "run_value (inherits_from n db c a) =
      Some (first_some (\<lambda>x. if x = a then Some () else None) (lineage n db c) \<noteq> None)"
    unfolding inherits_from_def by (simp add: run_value_bind look_in_chain_value [OF assms])
  then obtain ks where "inherits_from n db c a =
      Some (first_some (\<lambda>x. if x = a then Some () else None) (lineage n db c) \<noteq> None, ks)"
    by (auto simp: run_value_def)
  moreover have "first_some (\<lambda>x. if x = a then Some () else None) (lineage n db c) \<noteq> None \<longleftrightarrow>
      (\<exists>j < 33. ancestor (parent n db) j c = Some a)"
    by (auto simp: first_some_None_iff lineage_def set_line MAX_INHERITANCE_DEPTH_def split: if_splits)
  moreover have "j < 33 \<longleftrightarrow> j \<le> 32" for j :: nat by auto
  ultimately show ?thesis by auto
qed

theorem inherits_from_lineage_witness:
  "\<exists>ks. inherits_from 1 (one_document_db (\<lambda>_. 0) []) ''A'' ''A'' = Some (True, ks)"
proof -
  have returns: "superclasses_return 1 (one_document_db (\<lambda>_. 0) [])"
    unfolding superclasses_return_def One_nat_def superclass_of.simps
    by (intro allI superclass_step_returns)
      (simp add: inheriting_state_def one_document_values vfirst_def)
  have "\<exists>j \<le> 32. ancestor g j ''A'' = Some ''A''" for g
    by (rule exI [of _ 0]) simp
  note self = this
  obtain ks b where "inherits_from 1 (one_document_db (\<lambda>_. 0) []) ''A'' ''A'' = Some (b, ks)"
    "b \<longleftrightarrow> (\<exists>j \<le> 32. ancestor (parent 1 (one_document_db (\<lambda>_. 0) [])) j ''A'' = Some ''A'')"
    using inherits_from_lineage [OF returns, of "''A''" "''A''"] by blast
  with self show ?thesis by simp
qed

text \<open>
  C7: member lookup returns, and the declaration it considers is the one nearest on the
  inheritance line, in the workspace before the base scripts before the builtins, whatever its
  access: when that one is not accessible enough the result is nothing, even if an ancestor
  declares an accessible member of that name.  Members of a generic container get its type
  arguments.
\<close>

theorem find_member_nearest:
  assumes "superclasses_return n db"
  shows "\<exists>r ks. find_member n db c name a = Some (r, ks) \<and>
    ((\<forall>x \<in> set (lineage n db (lookup_ctor c)). member_value db Private x name = None) \<and> r = None \<or>
     (\<exists>nearer x further d. lineage n db (lookup_ctor c) = nearer @ x # further \<and>
        list_all (\<lambda>y. member_value db Private y name = None) nearer \<and>
        member_value db Private x name = Some d \<and>
        r = (if a \<le> access (def_symbol d) then Some (substitute_if_generic c d) else None)))"
proof -
  let ?first = "first_some (\<lambda>k. member_value db Private k name) (lineage n db (lookup_ctor c))"
  obtain r ks where run: "find_member n db c name a = Some (r, ks)"
    "r = (case ?first of None \<Rightarrow> None
          | Some d \<Rightarrow> if access (def_symbol d) < a then None else Some (substitute_if_generic c d))"
    using find_member_value [OF assms, of c name a] by (auto simp: run_value_def)
  show ?thesis
  proof (cases ?first)
    case None
    with run show ?thesis by (auto simp: first_some_None_iff)
  next
    case (Some d)
    obtain nearer x further where split: "lineage n db (lookup_ctor c) = nearer @ x # further"
      "\<forall>p \<in> set nearer. member_value db Private p name = None" "member_value db Private x name = Some d"
      using first_some_split [OF Some] by blast
    have "r = (if a \<le> access (def_symbol d) then Some (substitute_if_generic c d) else None)"
      using run(2) Some by (simp add: not_less [symmetric])
    with run(1) split show ?thesis unfolding list_all_iff by blast
  qed
qed


text \<open>
  C29: a class that extends the engine class of one of its own states, where that state extends a
  state that does not exist, sends the superclass lookup into unbounded recursion: no number of
  nested calls is enough.
\<close>

theorem superclass_lookup_diverges:
  "superclass_of n (one_document_db finish [looping_class, looping_state]) ''OStateS'' = None"
  by (rule looping_superclass)



definition sample_member_db :: symbol_db where
  "sample_member_db = one_document_db (\<lambda>_. 0)
     [sample_symbol 0 ''C'' Class 0 30 None,
      (sample_symbol 1 ''f'' Method 12 20 (Some 0))\<lparr>container_name := Some ''C''\<rparr>]"

theorem find_member_nearest_witness:
  "\<exists>r ks. find_member 0 sample_member_db ''C'' ''f'' Public = Some (Some r, ks) \<and>
     member_value sample_member_db Private ''C'' ''f'' \<noteq> None"
proof -
  let ?f = "(sample_symbol 1 ''f'' Method 12 20 (Some 0))\<lparr>container_name := Some ''C''\<rparr>"
  have member: "member_value sample_member_db Private ''C'' ''f'' = Some (site ''a.ws'' ?f)"
    by (simp add: sample_member_db_def one_document_values in_class_body_def is_injected_def
        requires_import_def annotation_target_class_safe_def sample_symbol_def vlast_def
        less_eq_access_level_def)
  have "\<not> inheriting_state sample_member_db c own" for c own
    by (auto simp: inheriting_state_def sample_member_db_def one_document_values at_top_level_def
        sample_symbol_def vfirst_def)
  then have "superclasses_return 0 sample_member_db"
    unfolding superclasses_return_def superclass_of.simps by (intro allI superclass_step_returns) blast
  then obtain r ks where run: "find_member 0 sample_member_db ''C'' ''f'' Public = Some (r, ks)"
    and r: "(\<forall>x \<in> set (lineage 0 sample_member_db (lookup_ctor ''C'')).
        member_value sample_member_db Private x ''f'' = None) \<and> r = None \<or>
      (\<exists>nearer x further d. lineage 0 sample_member_db (lookup_ctor ''C'') = nearer @ x # further \<and>
        list_all (\<lambda>y. member_value sample_member_db Private y ''f'' = None) nearer \<and>
        member_value sample_member_db Private x ''f'' = Some d \<and>
        r = (if Public \<le> access (def_symbol d) then Some (substitute_if_generic ''C'' d) else None))"
    using find_member_nearest [of 0 sample_member_db "''C''" "''f''" Public] by blast
  have ctor: "lookup_ctor ''C'' = ''C''" by code_simp
  have "lineage 0 sample_member_db ''C'' = ''C'' # (case parent 0 sample_member_db ''C'' of None \<Rightarrow> []
      | Some p \<Rightarrow> line (parent 0 sample_member_db) 32 p)"
    unfolding lineage_def line.simps(2) MAX_INHERITANCE_DEPTH_def by (rule refl)
  with r member obtain nearer x further d where split:
    "''C'' # (case parent 0 sample_member_db ''C'' of None \<Rightarrow> []
      | Some p \<Rightarrow> line (parent 0 sample_member_db) 32 p) = nearer @ x # further"
    "list_all (\<lambda>y. member_value sample_member_db Private y ''f'' = None) nearer"
    "member_value sample_member_db Private x ''f'' = Some d"
    "r = (if Public \<le> access (def_symbol d) then Some (substitute_if_generic ''C'' d) else None)"
    unfolding ctor by auto
  have "nearer = []" using split(1,2) member by (cases nearer) auto
  with split member have "d = site ''a.ws'' ?f" by simp
  with split(4) run member show ?thesis by (simp add: sample_symbol_def)
qed


text \<open>
  C30: the keys an update reports for a new state do not cover the name the database reads the
  state by: before the update the lookup of the state's class records that name and finds nothing,
  after the update it finds the state, and the reported keys do not contain the name, so that a
  subscriber of the name is not told.
\<close>

theorem state_change_not_reported:
  fixes finish
  defines "before \<equiv> snd (insert_synthetic finish ''a.ws'' [] WorkspaceIndex_default)"
  defines "after \<equiv> insert_synthetic finish ''a.ws'' [looping_state] before"
  shows "db_find_top_level (SymbolDb_new before WorkspaceIndex_default) ''OStateS'' =
      (None, [TopLevel ''OStateS'']) \<and>
    top_level_value (SymbolDb_new (snd after) WorkspaceIndex_default) ''OStateS'' =
      Some (site ''a.ws'' looping_state) \<and>
    fst after = [TopLevel ''S'']"
proof -
  have b: "doc_syms before ''a.ws'' = []" "hget (doc_outward_hashes before) ''a.ws'' = Some []"
    by (simp_all add: before_def insert_synthetic_def apply_contribution_tables doc_syms_def
        outward_hash_map_def)
  have "bucket (wi_top_level_by_name before) ''OStateS'' = []"
    by (simp add: before_def first_document_views)
  moreover have "updated ''a.ws'' [looping_state] before (snd after)"
    using apply_contribution_updated [of "''a.ws''" _ before]
    unfolding after_def insert_synthetic_def by (metis doc_contribution.select_convs(1))
  ultimately have "bucket (wi_top_level_by_name (snd after)) ''OStateS'' = [site ''a.ws'' looping_state]"
    by (simp add: updated_def b flat.view_push top_contrib_def looping_symbols)
  moreover have "fst after = [TopLevel ''S'']"
    by (simp add: after_def insert_synthetic_def apply_contribution_tables b diff_outward_keys_def
        outward_hash_map_def is_outward_visible_def looping_symbols xor_entry_def outward_key_for_def)
      (simp add: looping_state_def sample_symbol_def)
  ultimately show ?thesis
    using \<open>bucket (wi_top_level_by_name before) ''OStateS'' = []\<close>
    by (simp add: db_find_top_level_def top_level_value_def SymbolDb_new_def the_shadowed_base_def
        sb_find_top_level_def find_top_level_view all_top_level_with_name_def looping_symbols vfirst_def
        del: default_lookups) (simp add: WorkspaceIndex_default_def bucket_def)
qed

subsection \<open>Subclass closure\<close>

definition subclass_names :: "workspace_index \<Rightarrow> string set" where
  "subclass_names idx = (\<Union>v \<in> set (hvalues (subclasses_by_name idx)). snd ` set v)"

lemma direct_subclasses_names: "set (direct_subclasses_of idx b) \<subseteq> subclass_names idx"
proof (cases "hget (subclasses_by_name idx) b")
  case None
  then show ?thesis by (simp add: direct_subclasses_of_def bucket_def)
next
  case (Some v)
  from hget_in_values [OF this] have "snd ` set v \<subseteq> subclass_names idx"
    unfolding subclass_names_def by blast
  with Some show ?thesis by (simp add: direct_subclasses_of_def bucket_def)
qed

definition subclass_universe :: "symbol_db \<Rightarrow> string set" where
  "subclass_universe db =
     subclass_names (workspace db) \<union> subclass_names (base db) \<union>
     (case builtins db of None \<Rightarrow> {} | Some b \<Rightarrow> subclass_names b)"

lemma subclass_universe:
  "finite (subclass_universe db)" "set (direct_subclasses db b) \<subseteq> subclass_universe db"
  using direct_subclasses_names
  by (auto simp: subclass_universe_def subclass_names_def direct_subclasses_def split: option.splits)
    blast+

definition derives :: "symbol_db \<Rightarrow> (string \<times> string) set" where
  "derives db = {(b, c). c \<in> set (direct_subclasses db b)}"

lemma visit_subs_value:
  "visit_subs subs (found, seen, stack) = (found', seen', stack') \<Longrightarrow>
   \<exists>new. found' = found @ new \<and> seen' = rev new @ seen \<and> stack' = stack @ new \<and> distinct new \<and>
     set new = set subs - set seen"
proof (induction subs arbitrary: found seen stack)
  case (Cons s subs)
  show ?case
  proof (cases "s \<in> set seen")
    case True
    with Cons.IH [of found seen stack] Cons.prems show ?thesis by auto
  next
    case False
    then obtain new where "found' = found @ s # new" "seen' = rev new @ s # seen" "stack' = stack @ s # new"
      "distinct new" "set new = set subs - set (s # seen)"
      using Cons.IH [of "found @ [s]" "s # seen" "stack @ [s]"] Cons.prems by auto
    with False show ?thesis by (intro exI [of _ "s # new"]) auto
  qed
qed simp

text \<open>The loop: what is seen is reachable, and what is seen but not on the stack is expanded.\<close>

definition closure_inv :: "symbol_db \<Rightarrow> string \<Rightarrow> string list \<Rightarrow> string list \<Rightarrow> string list \<Rightarrow> bool" where
  "closure_inv db own found seen stack \<longleftrightarrow>
     distinct found \<and> set found = set seen \<and> set seen \<subseteq> (derives db)\<^sup>+ `` {own} \<and>
     set stack \<subseteq> insert own (set seen) \<and>
     (\<forall>b \<in> insert own (set seen) - set stack. set (direct_subclasses db b) \<subseteq> set seen)"

lemma subclasses_loop_returns:
  assumes "closure_inv db own found seen stack"
  shows "\<exists>r. subclasses_loop db found seen stack = Some r \<and> distinct r \<and> set r = (derives db)\<^sup>+ `` {own}"
  using assms
proof (induction "card (subclass_universe db - set seen) + length stack" arbitrary: found seen stack
    rule: less_induct)
  case less
  note inv = less.prems [unfolded closure_inv_def]
  show ?case
  proof (cases stack rule: rev_cases)
    case Nil
    have closed: "b \<in> insert own (set seen) \<Longrightarrow> (b, c) \<in> derives db \<Longrightarrow> c \<in> set seen" for b c
      using inv Nil by (auto simp: derives_def)
    have "c \<in> set seen" if "(own, c) \<in> (derives db)\<^sup>+" for c
      using that by (induction rule: trancl_induct) (use closed in auto)
    with inv Nil show ?thesis by (auto simp: subclasses_loop.simps)
  next
    case (snoc rest b)
    obtain found' seen' stack' where step:
      "visit_subs (direct_subclasses db b) (found, seen, rest) = (found', seen', stack')"
      by (metis surj_pair)
    then obtain new where new: "found' = found @ new" "seen' = rev new @ seen" "stack' = rest @ new"
      "distinct new" "set new = set (direct_subclasses db b) - set seen"
      using visit_subs_value by blast
    have reach: "c \<in> (derives db)\<^sup>+ `` {own}" if "c \<in> set new" for c
    proof -
      have "(b, c) \<in> derives db" using that new(5) by (simp add: derives_def)
      moreover have "b = own \<or> (own, b) \<in> (derives db)\<^sup>+" using inv snoc by auto
      ultimately show ?thesis by (auto intro: trancl_into_trancl)
    qed
    have "closure_inv db own found' seen' stack'"
      unfolding closure_inv_def using inv snoc new reach by auto
    moreover have "card (subclass_universe db - set seen') + length stack' <
        card (subclass_universe db - set seen) + length stack"
    proof -
      have sub: "set new \<subseteq> subclass_universe db - set seen"
        using new(5) subclass_universe(2) [of db b] by auto
      have "subclass_universe db - set seen' = (subclass_universe db - set seen) - set new"
        using new(2) by auto
      then have "card (subclass_universe db - set seen') = card (subclass_universe db - set seen) - card (set new)"
        using sub by (simp add: card_Diff_subset)
      moreover have "card (set new) \<le> card (subclass_universe db - set seen)"
        using sub subclass_universe(1) by (simp add: card_mono)
      ultimately show ?thesis using new(3,4) snoc by (simp add: distinct_card)
    qed
    ultimately show ?thesis
      using less.hyps snoc step by (simp add: subclasses_loop.simps [of db found seen])
  qed
qed

text \<open>
  C31: the search for the classes derived from a class ends, also on a cyclic hierarchy, and
  returns every class derived from it in one or more steps, each once.
\<close>

theorem transitive_subclasses_closure:
  "\<exists>r. transitive_subclasses db own = Returns r \<and> distinct r \<and> set r = (derives db)\<^sup>+ `` {own}"
  using subclasses_loop_returns [of db own "[]" "[]" "[own]"]
  by (auto simp: transitive_subclasses_def closure_inv_def)

end
