(* ===== verification/Assignability.thy ===== *)
theory Assignability
  imports Db_Lookup
begin

text \<open>
  \<^verbatim>\<open>src/resolve/assignability.rs\<close>: whether a value of one type may be assigned to a slot of
  another.  Names are resolved in the symbol database; the number of nested superclass calls is
  passed on.
\<close>

datatype cast_kind = PrimitiveCast | EnumInt | NullToRef | ToStringCast | ObjectToBool

datatype assignability = Identical | ImplicitCast cast_kind | Incompatible

definition IMPLICIT_PRIMITIVE_CASTS :: "(primitive \<times> primitive) list" where
  "IMPLICIT_PRIMITIVE_CASTS =
     [(PByte, PBool), (PInt, PBool), (PFloat, PBool), (PString, PBool),
      (PInt, PByte),
      (PByte, PInt),
      (PByte, PFloat), (PInt, PFloat),
      (PBool, PString), (PByte, PString), (PInt, PString), (PFloat, PString), (PName, PString)]"

definition is_enum :: "symbol_db \<Rightarrow> string \<Rightarrow> bool run" where
  "is_enum db name =
     run_bind (Some (db_find_top_level db name)) (\<lambda>r.
       run_return (case r of None \<Rightarrow> False | Some d \<Rightarrow> sym_kind (def_symbol d) = Enum))"

definition is_object_name :: "symbol_db \<Rightarrow> string \<Rightarrow> bool run" where
  "is_object_name db name =
     run_bind (Some (db_find_top_level db name)) (\<lambda>r.
       run_return (case r of None \<Rightarrow> False | Some d \<Rightarrow> is_class_like (sym_kind (def_symbol d))))"

definition is_stringifiable :: "symbol_db \<Rightarrow> string \<Rightarrow> bool run" where
  "is_stringifiable db name =
     run_bind (Some (db_find_top_level db name)) (\<lambda>r.
       run_return (case r of
         None \<Rightarrow> False
       | Some d \<Rightarrow> sym_kind (def_symbol d) = Enum \<or> is_class_like (sym_kind (def_symbol d))))"

definition primitive_assignability :: "primitive \<Rightarrow> primitive \<Rightarrow> assignability" where
  "primitive_assignability from to =
     (if (from, to) \<in> set IMPLICIT_PRIMITIVE_CASTS then ImplicitCast PrimitiveCast else Incompatible)"

definition named_assignability :: "nat \<Rightarrow> symbol_db \<Rightarrow> string \<Rightarrow> string \<Rightarrow> assignability run" where
  "named_assignability n db from to =
     run_bind (inherits_from n db from to) (\<lambda>b. run_return (if b then Identical else Incompatible))"

text \<open>A guarded arm: take the value when the guard holds, go on to the next arms otherwise.\<close>

definition guarded :: "bool run \<Rightarrow> assignability \<Rightarrow> assignability run \<Rightarrow> assignability run" where
  "guarded guard v rest = run_bind guard (\<lambda>b. if b then run_return v else rest)"

fun assign :: "nat \<Rightarrow> symbol_db \<Rightarrow> ty \<Rightarrow> ty \<Rightarrow> assignability run" where
  "assign n db from to =
     (if from = to then run_return Identical
      else case (from, to) of
        (Unknown, _) \<Rightarrow> run_return Incompatible
      | (Void, _) \<Rightarrow> run_return Incompatible
      | (_, Unknown) \<Rightarrow> run_return Incompatible
      | (_, Void) \<Rightarrow> run_return Incompatible
      | (Null, Named t) \<Rightarrow>
          guarded (is_object_name db t) (ImplicitCast NullToRef) (run_return Incompatible)
      | (Null, _) \<Rightarrow> run_return Incompatible
      | (Named f, Named t) \<Rightarrow> named_assignability n db f t
      | (Array fe, Array te) \<Rightarrow>
          run_bind (assign n db fe te) (\<lambda>r.
            run_return (case r of Identical \<Rightarrow> Identical | _ \<Rightarrow> Incompatible))
      | (Array _, _) \<Rightarrow> run_return Incompatible
      | (_, Array _) \<Rightarrow> run_return Incompatible
      | (Map _ _, _) \<Rightarrow> run_return Incompatible
      | (_, Map _ _) \<Rightarrow> run_return Incompatible
      | (Named m, Primitive p) \<Rightarrow>
          (if p = PInt then guarded (is_enum db m) (ImplicitCast EnumInt) (run_return Incompatible)
           else if p = PString
                then guarded (is_stringifiable db m) (ImplicitCast ToStringCast) (run_return Incompatible)
           else if p = PBool
                then guarded (is_object_name db m) (ImplicitCast ObjectToBool) (run_return Incompatible)
           else run_return Incompatible)
      | (Primitive p, Named m) \<Rightarrow>
          (if p = PInt then guarded (is_enum db m) (ImplicitCast EnumInt) (run_return Incompatible)
           else run_return Incompatible)
      | (Primitive pf, Primitive pt) \<Rightarrow> run_return (primitive_assignability pf pt)
      | _ \<Rightarrow> run_return Incompatible)"

declare assign.simps [simp del]

subsection \<open>What the arms decide\<close>

definition kind_named :: "symbol_db \<Rightarrow> string \<Rightarrow> symbol_kind option" where
  "kind_named db name = map_option (\<lambda>d. sym_kind (def_symbol d)) (top_level_value db name)"

definition class_named :: "symbol_db \<Rightarrow> string \<Rightarrow> bool" where
  "class_named db name \<longleftrightarrow> kind_named db name \<in> {Some Class, Some State}"

definition enum_named :: "symbol_db \<Rightarrow> string \<Rightarrow> bool" where
  "enum_named db name \<longleftrightarrow> kind_named db name = Some Enum"

lemma guard_values:
  "run_value (is_enum db m) = Some (enum_named db m)"
  "run_value (is_object_name db m) = Some (class_named db m)"
  "run_value (is_stringifiable db m) = Some (enum_named db m \<or> class_named db m)"
  by (auto simp: is_enum_def is_object_name_def is_stringifiable_def db_find_top_level_def run_value_bind
      enum_named_def class_named_def kind_named_def is_class_like_def
      simp del: run_bind_simps(2) split: option.splits)

lemma guarded_value:
  "run_value guard = Some b \<Longrightarrow> run_value (guarded guard v rest) = (if b then Some v else run_value rest)"
  by (simp add: guarded_def run_value_bind)

lemma named_value:
  assumes "superclasses_return n db"
  shows "run_value (named_assignability n db f t) =
    Some (if t \<in> set (lineage n db f) then Identical else Incompatible)"
proof -
  have "first_some (\<lambda>x. if x = t then Some () else None) xs \<noteq> None \<longleftrightarrow> t \<in> set xs" for xs
    by (auto simp: first_some_None_iff split: if_splits)
  then show ?thesis
    by (simp add: named_assignability_def inherits_from_def run_value_bind look_in_chain_value [OF assms])
qed

text \<open>The decision as a function of the resolved names.\<close>

fun decide :: "(string \<Rightarrow> string \<Rightarrow> bool) \<Rightarrow> symbol_db \<Rightarrow> ty \<Rightarrow> ty \<Rightarrow> assignability" where
  "decide inh db (Array f) (Array t) =
     (if f = t \<or> decide inh db f t = Identical then Identical else Incompatible)"
| "decide inh db (Named f) (Named t) = (if f = t \<or> inh f t then Identical else Incompatible)"
| "decide inh db Null (Named t) = (if class_named db t then ImplicitCast NullToRef else Incompatible)"
| "decide inh db (Named m) (Primitive p) =
     (if p = PInt \<and> enum_named db m then ImplicitCast EnumInt
      else if p = PString \<and> (enum_named db m \<or> class_named db m) then ImplicitCast ToStringCast
      else if p = PBool \<and> class_named db m then ImplicitCast ObjectToBool
      else Incompatible)"
| "decide inh db (Primitive p) (Named m) =
     (if p = PInt \<and> enum_named db m then ImplicitCast EnumInt else Incompatible)"
| "decide inh db (Primitive p) (Primitive q) = (if p = q then Identical else primitive_assignability p q)"
| "decide inh db f t = (if f = t then Identical else Incompatible)"

lemma assign_value:
  assumes ret: "superclasses_return n db"
  shows "run_value (assign n db f t) = Some (decide (\<lambda>x y. y \<in> set (lineage n db x)) db f t)"
proof (induction f arbitrary: t)
  case (Array f)
  show ?case
  proof (cases t)
    case (Array u)
    with Array.IH [of u] show ?thesis
      by (simp add: assign.simps [of n db "Array f"] run_value_bind split: assignability.splits)
  qed (simp_all add: assign.simps [of n db "Array f"])
next
  case Void
  show ?case
    by (cases t) (simp_all add: assign.simps named_value [OF ret] guard_values guarded_value)
next
  case (Primitive p)
  show ?case
    by (cases t) (simp_all add: assign.simps named_value [OF ret] guard_values guarded_value)
next
  case (Named m)
  show ?case
    by (cases t) (simp_all add: assign.simps named_value [OF ret] guard_values guarded_value)
next
  case (Map k v)
  show ?case
    by (cases t) (simp_all add: assign.simps named_value [OF ret] guard_values guarded_value)
next
  case Null
  show ?case
    by (cases t) (simp_all add: assign.simps named_value [OF ret] guard_values guarded_value)
next
  case Unknown
  show ?case
    by (cases t) (simp_all add: assign.simps named_value [OF ret] guard_values guarded_value)
qed

subsection \<open>Properties\<close>

abbreviation arrays :: "nat \<Rightarrow> ty \<Rightarrow> ty" where
  "arrays k t \<equiv> (Array ^^ k) t"

lemma decide_identical:
  "decide inh db f t = Identical \<longleftrightarrow>
     (\<exists>k a b. f = arrays k a \<and> t = arrays k b \<and> (a = b \<or> (\<exists>x y. a = Named x \<and> b = Named y \<and> inh x y)))"
  (is "_ \<longleftrightarrow> ?R f t")
proof
  show "decide inh db f t = Identical \<Longrightarrow> ?R f t"
  proof (induction inh db f t rule: decide.induct)
    case (1 inh db f t)
    then show ?case
      by (auto split: if_splits) (metis funpow_0 funpow.simps(2) comp_apply)+
  qed (auto simp: primitive_assignability_def split: if_splits intro!: exI [of _ "0 :: nat"])
next
  assume "?R f t"
  then obtain k a b where kab: "f = arrays k a" "t = arrays k b"
    "a = b \<or> (\<exists>x y. a = Named x \<and> b = Named y \<and> inh x y)" by blast
  have same: "decide inh db a a = Identical" for a by (cases a) simp_all
  have "decide inh db (arrays k a) (arrays k b) = Identical"
    using kab(3) same by (induction k) auto
  with kab show "decide inh db f t = Identical" by simp
qed

text \<open>
  When superclass lookups return, assignability always decides.  Two types are identical
  exactly when they are equal or, under the same number of array brackets, name a class and one
  of its ancestors within the inheritance bound.
\<close>

theorem identical_iff_subclass:
  assumes "superclasses_return n db"
  shows "\<exists>r ks. assign n db f t = Some (r, ks) \<and>
    (r = Identical \<longleftrightarrow>
       (\<exists>k a b. f = arrays k a \<and> t = arrays k b \<and>
          (a = b \<or> (\<exists>x y. a = Named x \<and> b = Named y \<and> y \<in> set (lineage n db x)))))"
proof -
  obtain ks where "assign n db f t = Some (decide (\<lambda>x y. y \<in> set (lineage n db x)) db f t, ks)"
    using assign_value [OF assms, of f t] by (auto simp: run_value_def)
  then show ?thesis using decide_identical [of "\<lambda>x y. y \<in> set (lineage n db x)" db f t] by blast
qed

lemma sample_member_db_returns: "superclasses_return 0 sample_member_db"
proof -
  have "\<not> inheriting_state sample_member_db c own" for c own
    by (auto simp: inheriting_state_def sample_member_db_def one_document_values at_top_level_def
        sample_symbol_def vfirst_def)
  then show ?thesis
    unfolding superclasses_return_def superclass_of.simps by (intro allI superclass_step_returns) blast
qed

theorem identical_iff_subclass_witness:
  "\<exists>ks. assign 0 sample_member_db (Array (Named ''C'')) (Array (Named ''C'')) = Some (Identical, ks)"
proof -
  have "\<exists>k a b. Array (Named ''C'') = arrays k a \<and> Array (Named ''C'') = arrays k b \<and>
      (a = b \<or> (\<exists>x y. a = Named x \<and> b = Named y \<and> y \<in> set (lineage 0 sample_member_db x)))"
    by (rule exI [of _ 0]) auto
  then show ?thesis
    using identical_iff_subclass [OF sample_member_db_returns,
        of "Array (Named ''C'')" "Array (Named ''C'')"] by blast
qed



end
