(* ===== verification/Edit_Plan.thy ===== *)
theory Edit_Plan
  imports Line_Index "HOL-Library.Multiset"
begin

text \<open>
  \<^verbatim>\<open>src/resolve/edit_plan.rs\<close> and \<^verbatim>\<open>src/strings.rs\<close>: the edits a refactoring makes, how
  they apply to the source, and the names it invents.  \<open>lowercase_first\<close> uses Unicode case folding
  and is not modelled.
\<close>

subsection \<open>Splices\<close>

record splice =
  sp_range :: byte_range
  sp_text :: string

datatype confidence = Verified | Unverified

record edit_plan =
  edits :: "splice list"
  plan_confidence :: confidence

record extraction =
  plan :: edit_plan
  ext_name :: string
  cursor :: nat

definition with_confidence :: "confidence \<Rightarrow> extraction \<Rightarrow> extraction" where
  "with_confidence c e = e\<lparr>plan := (plan e)\<lparr>plan_confidence := c\<rparr>\<rparr>"

text \<open>\<open>String::replace_range\<close> panics unless both ends are character boundaries in order.\<close>

definition replace_range :: "byte_range \<Rightarrow> string \<Rightarrow> string \<Rightarrow> string outcome" where
  "replace_range r text s =
     (let a = br_start r; b = br_end r
      in if a \<le> b \<and> b \<le> length s \<and> is_char_boundary s a \<and> is_char_boundary s b
         then Returns (take a s @ text @ drop b s) else Panic)"

fun apply_in_order :: "splice list \<Rightarrow> string \<Rightarrow> string outcome" where
  "apply_in_order [] s = Returns s"
| "apply_in_order (x # xs) s = obind (replace_range (sp_range x) (sp_text x) s) (apply_in_order xs)"

definition apply_splices :: "string \<Rightarrow> splice list \<Rightarrow> string outcome" where
  "apply_splices text splices =
     apply_in_order (sort_key (\<lambda>x. - int (br_start (sp_range x))) splices) text"

definition plan_apply :: "edit_plan \<Rightarrow> string \<Rightarrow> string outcome" where
  "plan_apply p source = apply_splices source (edits p)"

text \<open>The two scans of \<open>delete_statement\<close> over blanks; indexing past the end panics.\<close>

definition is_blank :: "char \<Rightarrow> bool" where
  "is_blank c \<longleftrightarrow> c = CHR '' '' \<or> c = CHR 0x09"

fun blanks_before :: "string \<Rightarrow> nat \<Rightarrow> nat outcome" where
  "blanks_before s 0 = Returns 0"
| "blanks_before s (Suc i) =
     obind (or_panic (vget s i)) (\<lambda>c. if is_blank c then blanks_before s i else Returns (Suc i))"

function blanks_after :: "string \<Rightarrow> nat \<Rightarrow> nat" where
  "blanks_after s i = (if i < length s \<and> is_blank (s ! i) then blanks_after s (Suc i) else i)"
  by pat_completeness auto
termination
  by (relation "measure (\<lambda>(s, i). length s - i)") auto

declare blanks_after.simps [simp del]

definition skip_byte :: "string \<Rightarrow> char \<Rightarrow> nat \<Rightarrow> nat" where
  "skip_byte s c i = (if i < length s \<and> s ! i = c then Suc i else i)"

definition delete_statement :: "string \<Rightarrow> byte_range \<Rightarrow> splice outcome" where
  "delete_statement source stmt =
     obind (blanks_before source (br_start stmt)) (\<lambda>start.
     obind (if start = 0 then Returns True
            else obind (or_panic (vget source (start - 1))) (\<lambda>c. Returns (c = newline))) (\<lambda>at_line_start.
       let end' = blanks_after source (br_end stmt)
       in if at_line_start
          then Returns \<lparr>sp_range = \<lparr>br_start = start,
                  br_end = skip_byte source newline (skip_byte source carriage_return end')\<rparr>,
                sp_text = []\<rparr>
          else Returns \<lparr>sp_range = \<lparr>br_start = br_start stmt, br_end = end'\<rparr>, sp_text = []\<rparr>))"

definition remove_list_entry :: "byte_range \<Rightarrow> byte_range option \<Rightarrow> byte_range option \<Rightarrow> splice" where
  "remove_list_entry target prev next' =
     \<lparr>sp_range =
        (case (prev, next') of
           (_, Some nx) \<Rightarrow> \<lparr>br_start = br_start target, br_end = br_start nx\<rparr>
         | (Some pv, None) \<Rightarrow> \<lparr>br_start = br_end pv, br_end = br_end target\<rparr>
         | (None, None) \<Rightarrow> target),
      sp_text = []\<rparr>"

text \<open>\<open>range.len()\<close> is zero for a reversed range; the difference cannot fall below zero on a
  text that the edits fit (lemma \<open>offset_splits\<close>), so the subtraction is exact there.\<close>

definition applied_offset :: "splice list \<Rightarrow> nat \<Rightarrow> nat" where
  "applied_offset es original =
     fold (\<lambda>x pos. pos + length (sp_text x) - (br_end (sp_range x) - br_start (sp_range x)))
       (filter (\<lambda>x. br_end (sp_range x) \<le> original) es) original"

definition insert_and_replace ::
  "nat \<Rightarrow> string \<Rightarrow> byte_range \<Rightarrow> string \<Rightarrow> nat \<Rightarrow> string \<Rightarrow> extraction" where
  "insert_and_replace insert_at insert_text replace replace_text cursor_prefix name =
     (let cursor_anchor = br_start replace;
          es = [\<lparr>sp_range = \<lparr>br_start = insert_at, br_end = insert_at\<rparr>, sp_text = insert_text\<rparr>,
                \<lparr>sp_range = replace, sp_text = replace_text\<rparr>]
      in \<lparr>plan = \<lparr>edits = es, plan_confidence = Verified\<rparr>, ext_name = name,
          cursor = applied_offset es cursor_anchor + cursor_prefix\<rparr>)"

subsection \<open>Invented names\<close>

definition digit_char :: "nat \<Rightarrow> char" where
  "digit_char d = char_of (48 + d)"

function decimal :: "nat \<Rightarrow> string" where
  "decimal n = (if n < 10 then [digit_char n] else decimal (n div 10) @ [digit_char (n mod 10)])"
  by pat_completeness auto
termination
  by (relation "measure id") auto

declare decimal.simps [simp del]

partial_function (option) suffix_loop :: "string \<Rightarrow> (string \<Rightarrow> bool) \<Rightarrow> nat \<Rightarrow> string option" where
  "suffix_loop base taken suffix =
     (if \<not> taken (base @ decimal suffix) then Some (base @ decimal suffix)
      else suffix_loop base taken (suffix + 1))"

definition suffixed_unique :: "string \<Rightarrow> (string \<Rightarrow> bool) \<Rightarrow> string outcome" where
  "suffixed_unique base taken =
     (if \<not> taken base then Returns base else of_loop (suffix_loop base taken 1))"

definition strip_class_prefix :: "string \<Rightarrow> string" where
  "strip_class_prefix name =
     (case name of
        [] \<Rightarrow> name
      | c # rest \<Rightarrow>
          if c \<noteq> CHR ''C'' then name
          else (case rest of
                  [] \<Rightarrow> name
                | d # _ \<Rightarrow> if is_ascii_uppercase d \<or> is_ascii_digit d then rest else name))"

text \<open>The bytes of a non-ASCII character are in no ASCII class and map to themselves, so the
  character tests of the source are tests of bytes.\<close>

definition starts_new_word :: "string \<Rightarrow> nat \<Rightarrow> bool" where
  "starts_new_word chars i =
     (if \<not> is_ascii_uppercase (chars ! i) then False
      else let previous = chars ! (i - 1)
           in if is_ascii_lowercase previous \<or> is_ascii_digit previous then True
              else is_ascii_uppercase previous \<and> Suc i < length chars \<and>
                   is_ascii_lowercase (chars ! Suc i))"

definition strict_camel :: "string \<Rightarrow> string" where
  "strict_camel name =
     map (\<lambda>i. if 0 < i \<and> starts_new_word name i then to_ascii_uppercase (name ! i)
              else to_ascii_lowercase (name ! i)) [0..<length name]"

definition receiver_name :: "string \<Rightarrow> string" where
  "receiver_name ty_name =
     (let name = strict_camel (strip_class_prefix ty_name)
      in if name \<noteq> [] \<and> is_ascii_digit (hd name) then strict_camel ty_name else name)"

subsection \<open>Applying non-overlapping splices\<close>

text \<open>The text from \<open>pos\<close> on with splices in ascending order put in.\<close>

fun spliced :: "string \<Rightarrow> nat \<Rightarrow> splice list \<Rightarrow> string" where
  "spliced s pos [] = drop pos s"
| "spliced s pos (x # xs) =
     take (br_start (sp_range x) - pos) (drop pos s) @ sp_text x @ spliced s (br_end (sp_range x)) xs"

text \<open>Ascending, disjoint, on character boundaries, and inserting valid text.\<close>

fun plan_ok :: "string \<Rightarrow> nat \<Rightarrow> splice list \<Rightarrow> bool" where
  "plan_ok s pos [] \<longleftrightarrow> pos \<le> length s"
| "plan_ok s pos (x # xs) \<longleftrightarrow>
     pos \<le> br_start (sp_range x) \<and> br_start (sp_range x) \<le> br_end (sp_range x) \<and>
     is_char_boundary s (br_start (sp_range x)) \<and> is_char_boundary s (br_end (sp_range x)) \<and>
     utf8_start (sp_text x) \<and> plan_ok s (br_end (sp_range x)) xs"

lemma plan_ok_pos: "plan_ok s pos xs \<Longrightarrow> pos \<le> length s"
  by (induction s pos xs rule: plan_ok.induct) auto

lemma utf8_start_take: "utf8_start t \<Longrightarrow> utf8_start (take k t)"
  by (cases t; cases k) auto

lemma spliced_start:
  "utf8_start s \<Longrightarrow> is_char_boundary s pos \<Longrightarrow> plan_ok s pos xs \<Longrightarrow> utf8_start (spliced s pos xs)"
proof (induction s pos xs rule: spliced.induct)
  case (1 s pos)
  then show ?case by (simp add: boundary_drop_start)
next
  case (2 s pos x xs)
  then have "utf8_start (take (br_start (sp_range x) - pos) (drop pos s))"
    by (intro utf8_start_take boundary_drop_start)
  with 2 show ?case by (simp add: utf8_start_append)
qed

lemma apply_in_order_append:
  "apply_in_order (xs @ ys) s = obind (apply_in_order xs s) (apply_in_order ys)"
proof (induction xs arbitrary: s)
  case (Cons x xs)
  then show ?case by (cases "replace_range (sp_range x) (sp_text x) s") simp_all
qed simp

lemma apply_descending:
  assumes "utf8_start s" "is_char_boundary s pos" "plan_ok s pos xs"
  shows "apply_in_order (rev xs) s = Returns (take pos s @ spliced s pos xs)"
  using assms(2,3)
proof (induction xs arbitrary: pos)
  case Nil
  then show ?case by simp
next
  case (Cons x xs)
  let ?a = "br_start (sp_range x)" and ?b = "br_end (sp_range x)"
  from Cons.prems have ok: "pos \<le> ?a" "?a \<le> ?b" "is_char_boundary s ?a" "is_char_boundary s ?b" "plan_ok s ?b xs"
    by auto
  have b: "?b \<le> length s" using boundary_le [OF ok(4)] .
  let ?t = "take ?b s @ spliced s ?b xs"
  have rest: "apply_in_order (rev xs) s = Returns ?t" using Cons.IH ok(4,5) by blast
  have start: "utf8_start (spliced s ?b xs)" by (rule spliced_start [OF assms(1) ok(4,5)])
  have "drop ?b ?t = spliced s ?b xs" using b by simp
  then have bb: "is_char_boundary ?t ?b" using start b by (intro boundary_of_start) auto
  have ab: "is_char_boundary ?t ?a"
  proof (cases "?a = ?b")
    case False
    then have "?a < ?b" using ok(2) by simp
    then show ?thesis using ok(3) b by (auto simp: is_char_boundary_def nth_append)
  qed (use bb in simp)
  have "replace_range (sp_range x) (sp_text x) ?t = Returns (take ?a s @ sp_text x @ spliced s ?b xs)"
    using ok b ab bb by (simp add: replace_range_def Let_def min_absorb2)
  moreover have "take ?a s = take pos s @ take (?a - pos) (drop pos s)"
    using ok(1) by (metis add_diff_inverse_nat not_less take_add)
  ultimately show ?case using rest by (simp add: apply_in_order_append)
qed

lemma plan_ok_sorted: "plan_ok s pos xs \<Longrightarrow> sorted (map (\<lambda>x. br_start (sp_range x)) xs)"
proof (induction xs arbitrary: pos)
  case (Cons x xs)
  have "plan_ok s p ys \<Longrightarrow> y \<in> set ys \<Longrightarrow> p \<le> br_start (sp_range y)" for p y ys
    by (induction ys arbitrary: p) fastforce+
  with Cons show ?case by fastforce
qed simp

lemma sort_descending:
  assumes "sorted (map f xs)" "distinct (map f xs)" "mset ys = mset xs"
  shows "sort_key (\<lambda>x. - int (f x)) ys = rev xs"
proof (rule sort_key_inj_key_eq)
  show "mset ys = mset (rev xs)" using assms(3) by simp
  show "inj_on (\<lambda>x. - int (f x)) (set ys)"
    using assms(2,3) by (auto simp: distinct_map inj_on_def dest: mset_eq_setD)
  show "sorted (map (\<lambda>x. - int (f x)) (rev xs))"
    using assms(1) by (simp add: sorted_wrt_map sorted_wrt_rev)
qed

text \<open>Where an offset that no splice covers ends up.\<close>

lemma offset_splits:
  assumes "plan_ok s pos xs" "pos \<le> p" "p \<le> length s"
    and "\<And>x. x \<in> set xs \<Longrightarrow> br_end (sp_range x) \<le> p \<or> p \<le> br_start (sp_range x)"
    and "p - pos \<le> acc"
  shows "\<exists>before. spliced s pos xs = before @ spliced s p (filter (\<lambda>x. \<not> br_end (sp_range x) \<le> p) xs) \<and>
    fold (\<lambda>x n. n + length (sp_text x) - (br_end (sp_range x) - br_start (sp_range x)))
      (filter (\<lambda>x. br_end (sp_range x) \<le> p) xs) acc = acc - (p - pos) + length before"
  using assms
proof (induction xs arbitrary: pos acc)
  case Nil
  have "drop pos s = take (p - pos) (drop pos s) @ drop p s"
    using Nil.prems(2) by (metis add_diff_inverse_nat append_take_drop_id drop_drop not_less add.commute)
  with Nil show ?case by (intro exI [of _ "take (p - pos) (drop pos s)"]) simp
next
  case (Cons x xs)
  let ?a = "br_start (sp_range x)" and ?b = "br_end (sp_range x)"
  have ok: "pos \<le> ?a" "?a \<le> ?b" "?b \<le> length s" "plan_ok s ?b xs"
    using Cons.prems(1) boundary_le by auto
  show ?case
  proof (cases "?b \<le> p")
    case True
    define acc' where "acc' = acc + length (sp_text x) - (?b - ?a)"
    have enough: "p - ?b \<le> acc'"
      using Cons.prems(5) True ok unfolding acc'_def by linarith
    obtain tail where tail: "spliced s ?b xs = tail @ spliced s p (filter (\<lambda>x. \<not> br_end (sp_range x) \<le> p) xs)"
      "fold (\<lambda>x n. n + length (sp_text x) - (br_end (sp_range x) - br_start (sp_range x)))
        (filter (\<lambda>x. br_end (sp_range x) \<le> p) xs) acc' = acc' - (p - ?b) + length tail"
      using Cons.IH [OF ok(4) True Cons.prems(3) _ enough] Cons.prems(4) by auto
    have "acc' - (p - ?b) = acc - (p - pos) + (?a - pos) + length (sp_text x)"
      using Cons.prems(5) True ok unfolding acc'_def by linarith
    note diff = this
    let ?F = "\<lambda>x n. n + length (sp_text x) - (br_end (sp_range x) - br_start (sp_range x))"
    have step: "fold ?F (filter (\<lambda>x. br_end (sp_range x) \<le> p) (x # xs)) acc =
        fold ?F (filter (\<lambda>x. br_end (sp_range x) \<le> p) xs) acc'"
      using True by (simp add: acc'_def)
    show ?thesis
    proof (intro exI conjI)
      show "spliced s pos (x # xs) = (take (?a - pos) (drop pos s) @ sp_text x @ tail) @
          spliced s p (filter (\<lambda>x. \<not> br_end (sp_range x) \<le> p) (x # xs))"
        using tail(1) True by simp
      show "fold ?F (filter (\<lambda>x. br_end (sp_range x) \<le> p) (x # xs)) acc =
          acc - (p - pos) + length (take (?a - pos) (drop pos s) @ sp_text x @ tail)"
        unfolding step tail(2) diff using ok by simp
    qed
  next
    case False
    then have p: "p \<le> ?a" using Cons.prems(4) [of x] by auto
    have later: "plan_ok s q ys \<Longrightarrow> p < q \<Longrightarrow> y \<in> set ys \<Longrightarrow> \<not> br_end (sp_range y) \<le> p" for q y ys
      by (induction ys arbitrary: q) fastforce+
    have keep: "filter (\<lambda>x. \<not> br_end (sp_range x) \<le> p) (x # xs) = x # xs"
      "filter (\<lambda>x. br_end (sp_range x) \<le> p) (x # xs) = []"
      using False later [OF ok(4)] by (auto simp: filter_empty_conv filter_id_conv)
    have "take (?a - pos) (drop pos s) = take (p - pos) (drop pos s) @ take (?a - p) (drop p s)"
    proof -
      have "?a - pos = (p - pos) + (?a - p)" "drop p s = drop (p - pos) (drop pos s)"
        using p Cons.prems(2) by auto
      then show ?thesis by (simp only: take_add)
    qed
    then show ?thesis unfolding keep
      using Cons.prems(2,3,5) by (intro exI [of _ "take (p - pos) (drop pos s)"]) simp
  qed
qed

subsection \<open>Statement deletion\<close>

lemma blanks_before_value:
  "i \<le> length s \<Longrightarrow> \<exists>a. blanks_before s i = Returns a \<and> a \<le> i \<and> (\<forall>k. a \<le> k \<and> k < i \<longrightarrow> is_blank (s ! k))"
proof (induction i)
  case (Suc i)
  show ?case
  proof (cases "is_blank (s ! i)")
    case True
    obtain a where "blanks_before s i = Returns a" "a \<le> i" "\<forall>k. a \<le> k \<and> k < i \<longrightarrow> is_blank (s ! k)"
      using Suc by auto
    with True Suc.prems show ?thesis by (auto simp: vget_def less_Suc_eq)
  qed (use Suc.prems in \<open>auto simp: vget_def\<close>)
qed simp

lemma blanks_after_value:
  "i \<le> blanks_after s i \<and> (i \<le> length s \<longrightarrow> blanks_after s i \<le> length s) \<and>
   (\<forall>k. i \<le> k \<and> k < blanks_after s i \<longrightarrow> is_blank (s ! k))"
proof (induction s i rule: blanks_after.induct)
  case (1 s i)
  show ?case
  proof (cases "i < length s \<and> is_blank (s ! i)")
    case True
    with 1 show ?thesis
      by (auto simp: blanks_after.simps [of s i]) (metis le_neq_implies_less Suc_leI)+
  qed (auto simp: blanks_after.simps [of s i])
qed

text \<open>The bytes from \<open>i\<close> up to \<open>j\<close>.\<close>

abbreviation between :: "string \<Rightarrow> nat \<Rightarrow> nat \<Rightarrow> string" where
  "between s i j \<equiv> take (j - i) (drop i s)"

lemma between_append: "i \<le> j \<Longrightarrow> j \<le> k \<Longrightarrow> between s i k = between s i j @ between s j k"
proof -
  assume "i \<le> j" "j \<le> k"
  then have "k - i = (j - i) + (k - j)" "drop j s = drop (j - i) (drop i s)" by auto
  then show ?thesis by (simp only: take_add)
qed

lemma between_all:
  "j \<le> length s \<Longrightarrow> (\<And>k. i \<le> k \<Longrightarrow> k < j \<Longrightarrow> P (s ! k)) \<Longrightarrow> list_all P (between s i j)"
  by (auto simp: list_all_length)

lemma skip_byte_between: "i \<le> skip_byte s c i \<and> between s i (skip_byte s c i) \<in> {[], [c]}"
  by (auto simp: skip_byte_def take_Suc_conv_app_nth hd_drop_conv_nth take_Suc)

lemma skip_byte_le: "i \<le> length s \<Longrightarrow> skip_byte s c i \<le> length s"
  by (simp add: skip_byte_def)

lemma line_end_between:
  defines "e \<equiv> \<lambda>s i. skip_byte s newline (skip_byte s carriage_return i)"
  assumes "i \<le> length s"
  shows "i \<le> e s i \<and> e s i \<le> length s \<and>
    between s i (e s i) \<in> {[], [carriage_return], [newline], [carriage_return, newline]}"
proof -
  let ?m = "skip_byte s carriage_return i"
  have m: "i \<le> ?m" "?m \<le> e s i" "between s i ?m \<in> {[], [carriage_return]}" "between s ?m (e s i) \<in> {[], [newline]}"
    unfolding e_def using skip_byte_between by blast+
  moreover have "between s i (e s i) = between s i ?m @ between s ?m (e s i)"
    using m by (intro between_append)
  moreover have "e s i \<le> length s" unfolding e_def by (intro skip_byte_le assms)
  ultimately show ?thesis by auto
qed

subsection \<open>Unique names\<close>

definition decimal_value :: "string \<Rightarrow> nat" where
  "decimal_value s = foldl (\<lambda>a c. 10 * a + (of_char c - 48)) 0 s"

lemma digit_value: "d < 10 \<Longrightarrow> (of_char (digit_char d) :: nat) - 48 = d"
  by (simp add: digit_char_def)

lemma decimal_value_decimal: "decimal_value (decimal n) = n"
proof (induction n rule: decimal.induct)
  case (1 n)
  show ?case
  proof (cases "n < 10")
    case True
    then show ?thesis by (simp add: decimal.simps [of n] decimal_value_def digit_value)
  next
    case False
    with 1 have "decimal_value (decimal (n div 10)) = n div 10" by simp
    with False show ?thesis
      by (simp add: decimal.simps [of n] decimal_value_def digit_value)
  qed
qed

lemma suffix_loop_least:
  assumes "\<not> taken (base @ decimal (n + k))" "\<And>j. j < k \<Longrightarrow> taken (base @ decimal (n + j))"
  shows "suffix_loop base taken n = Some (base @ decimal (n + k))"
  using assms
proof (induction k arbitrary: n)
  case 0
  then show ?case by (simp add: suffix_loop.simps)
next
  case (Suc k)
  have "suffix_loop base taken (n + 1) = Some (base @ decimal (n + 1 + k))"
  proof (rule Suc.IH)
    show "\<not> taken (base @ decimal (n + 1 + k))" using Suc.prems(1) by simp
    show "taken (base @ decimal (n + 1 + j))" if "j < k" for j
      using Suc.prems(2) [of "Suc j"] that by simp
  qed
  with Suc.prems(2) [of 0] show ?case by (simp add: suffix_loop.simps [of base taken n])
qed

lemma untaken_suffix:
  assumes "finite {x. taken x}"
  shows "\<exists>k. \<not> taken (base @ decimal (n + k))"
proof (rule ccontr)
  assume "\<not> ?thesis"
  then have "range (\<lambda>k. base @ decimal (n + k)) \<subseteq> {x. taken x}" by auto
  then have "finite (range (\<lambda>k. base @ decimal (n + k)))" using assms finite_subset by blast
  moreover have "inj (\<lambda>k. base @ decimal (n + k))"
    by (rule injI) (metis add_left_cancel decimal_value_decimal same_append_eq)
  ultimately show False using finite_imageD infinite_UNIV_nat by blast
qed

subsection \<open>Properties\<close>

text \<open>
  C18: splices that do not overlap, fall on character boundaries and start at different offsets
  apply without panic, in whatever order the plan lists them: the result is the source with each
  range replaced by its text.
\<close>

theorem apply_splices_correct:
  assumes "utf8_start s" "plan_ok s 0 xs" "distinct (map (\<lambda>x. br_start (sp_range x)) xs)"
    and "mset splices = mset xs"
  shows "apply_splices s splices = Returns (spliced s 0 xs)"
proof -
  have "sort_key (\<lambda>x. - int (br_start (sp_range x))) splices = rev xs"
    using plan_ok_sorted [OF assms(2)] assms(3,4) by (rule sort_descending)
  then show ?thesis
    using apply_descending [OF assms(1) _ assms(2)] by (simp add: apply_splices_def)
qed

theorem apply_splices_correct_witness:
  "apply_splices ''abcd'' [\<lparr>sp_range = \<lparr>br_start = 0, br_end = 0\<rparr>, sp_text = ''x''\<rparr>,
     \<lparr>sp_range = \<lparr>br_start = 1, br_end = 3\<rparr>, sp_text = ''YY''\<rparr>] = Returns ''xaYYd''"
proof -
  have "plan_ok ''abcd'' 0 [\<lparr>sp_range = \<lparr>br_start = 0, br_end = 0\<rparr>, sp_text = ''x''\<rparr>,
      \<lparr>sp_range = \<lparr>br_start = 1, br_end = 3\<rparr>, sp_text = ''YY''\<rparr>]" by code_simp
  moreover have "utf8_start ''abcd''" by code_simp
  ultimately show ?thesis
    using apply_splices_correct [of "''abcd''" "[\<lparr>sp_range = \<lparr>br_start = 0, br_end = 0\<rparr>, sp_text = ''x''\<rparr>,
      \<lparr>sp_range = \<lparr>br_start = 1, br_end = 3\<rparr>, sp_text = ''YY''\<rparr>]"
      "[\<lparr>sp_range = \<lparr>br_start = 0, br_end = 0\<rparr>, sp_text = ''x''\<rparr>,
      \<lparr>sp_range = \<lparr>br_start = 1, br_end = 3\<rparr>, sp_text = ''YY''\<rparr>]"] by simp
qed




text \<open>
  Deleting a statement inside the source never panics; the range contains the statement, lies
  in the source, and takes nothing else with it but spaces and tabs on either side and, only when
  the statement begins its line, at most one line end.
\<close>

theorem delete_statement_takes_blanks:
  assumes "br_start stmt \<le> br_end stmt" "br_end stmt \<le> length source"
  shows "\<exists>a b blanks eol. delete_statement source stmt = Returns \<lparr>sp_range = \<lparr>br_start = a, br_end = b\<rparr>, sp_text = []\<rparr> \<and>
    a \<le> br_start stmt \<and> br_end stmt \<le> b \<and> b \<le> length source \<and>
    list_all is_blank (between source a (br_start stmt)) \<and>
    between source (br_end stmt) b = blanks @ eol \<and> list_all is_blank blanks \<and>
    (eol = [] \<or> (a = 0 \<or> source ! (a - 1) = newline) \<and>
      eol \<in> {[carriage_return], [newline], [carriage_return, newline]})"
proof -
  obtain a where a: "blanks_before source (br_start stmt) = Returns a" "a \<le> br_start stmt"
    "\<forall>k. a \<le> k \<and> k < br_start stmt \<longrightarrow> is_blank (source ! k)"
    using blanks_before_value [of "br_start stmt" source] assms by auto
  define e where "e = blanks_after source (br_end stmt)"
  have e: "br_end stmt \<le> e" "e \<le> length source" "list_all is_blank (between source (br_end stmt) e)"
    using blanks_after_value [of "br_end stmt" source] assms(2) unfolding e_def
    by (auto intro: between_all)
  have front: "list_all is_blank (between source a (br_start stmt))"
    using a(3) assms by (intro between_all) auto
  show ?thesis
  proof (cases "a = 0 \<or> source ! (a - 1) = newline")
    case True
    let ?b = "skip_byte source newline (skip_byte source carriage_return e)"
    have "delete_statement source stmt = Returns \<lparr>sp_range = \<lparr>br_start = a, br_end = ?b\<rparr>, sp_text = []\<rparr>"
      using True a assms by (auto simp: delete_statement_def Let_def e_def vget_def)
    moreover have "between source (br_end stmt) ?b = between source (br_end stmt) e @ between source e ?b"
      using e(1) line_end_between [OF e(2)] by (intro between_append) blast+
    moreover have "between source e ?b = [] \<or> (a = 0 \<or> source ! (a - 1) = newline) \<and>
        between source e ?b \<in> {[carriage_return], [newline], [carriage_return, newline]}"
      using True line_end_between [OF e(2)] by blast
    moreover have "br_end stmt \<le> ?b" "?b \<le> length source"
      using e(1) line_end_between [OF e(2)] by (blast intro: order_trans)+
    ultimately show ?thesis using a(2) e(3) front by blast
  next
    case False
    then have "delete_statement source stmt =
        Returns \<lparr>sp_range = \<lparr>br_start = br_start stmt, br_end = e\<rparr>, sp_text = []\<rparr>"
      using a assms by (auto simp: delete_statement_def Let_def e_def vget_def)
    then show ?thesis using e
      by (intro exI [of _ "br_start stmt"] exI [of _ e] exI [of _ "between source (br_end stmt) e"]
          exI [of _ "[]"]) simp
  qed
qed

theorem delete_statement_takes_blanks_witness:
  "\<exists>r. delete_statement ''a; b; c;'' \<lparr>br_start = 3, br_end = 5\<rparr> = Returns r \<and> sp_text r = []"
  using delete_statement_takes_blanks [of "\<lparr>br_start = 3, br_end = 5\<rparr>" "''a; b; c;''"] by auto

text \<open>
  C35: when only finitely many names are taken, the search for a free name ends: it returns the
  base itself when that is free, and otherwise the base with the least free positive suffix.
\<close>

theorem suffixed_unique_least:
  assumes "finite {x. taken x}"
  shows "\<exists>name. suffixed_unique base taken = Returns name \<and> \<not> taken name \<and>
    (name = base \<or> taken base \<and> (\<exists>n \<ge> 1. name = base @ decimal n \<and>
       list_all (\<lambda>m. taken (base @ decimal m)) [1..<n]))"
proof (cases "taken base")
  case False
  then show ?thesis by (simp add: suffixed_unique_def)
next
  case True
  define k where "k = (LEAST k. \<not> taken (base @ decimal (1 + k)))"
  have free: "\<not> taken (base @ decimal (1 + k))"
    unfolding k_def using untaken_suffix [OF assms, of base 1] by (rule LeastI_ex)
  have below: "taken (base @ decimal (1 + j))" if "j < k" for j
    using not_less_Least that unfolding k_def by blast
  have "suffix_loop base taken 1 = Some (base @ decimal (1 + k))"
    using free below by (rule suffix_loop_least)
  moreover have "list_all (\<lambda>m. taken (base @ decimal m)) [1..<1 + k]"
    unfolding list_all_iff
  proof
    fix m assume "m \<in> set [1..<1 + k]"
    then show "taken (base @ decimal m)" using below [of "m - 1"] by auto
  qed
  ultimately show ?thesis
    using True free by (intro exI [of _ "base @ decimal (1 + k)"]) (auto simp: suffixed_unique_def)
qed

theorem suffixed_unique_least_witness:
  "\<exists>name. suffixed_unique ''x'' (\<lambda>s. s = ''x'') = Returns name \<and> name \<noteq> ''x''"
  using suffixed_unique_least [of "\<lambda>s. s = ''x''" "''x''"] by fastforce

end
