(* ===== verification/Cst_Walk.thy ===== *)
theory Cst_Walk
  imports Cst
begin

text \<open>
  \<^verbatim>\<open>src/cst/walk.rs\<close> and \<^verbatim>\<open>src/cst/descendants.rs\<close>: the traversal that all passes over a
  syntax tree share.  A visitor is a pair of operations on its own state, either of which may
  panic; \<open>Fused\<close> runs two visitors in one traversal.
\<close>

datatype visit = Children | SkipChildren

record 's visitor =
  enter :: "place \<Rightarrow> 's \<Rightarrow> ('s \<times> visit) outcome"
  leave :: "place \<Rightarrow> 's \<Rightarrow> 's outcome"

subsection \<open>The cursor loop\<close>

text \<open>A \<open>TreeCursor\<close>: where it is, and how far below the node it was created on.\<close>

record tree_cursor =
  at :: place
  below :: nat

definition goto_first_child :: "tree_cursor \<Rightarrow> tree_cursor option" where
  "goto_first_child c =
     (if children (here (at c)) = [] then None
      else Some \<lparr>at = nth_child (at c) 0, below = Suc (below c)\<rparr>)"

definition goto_next_sibling :: "tree_cursor \<Rightarrow> tree_cursor option" where
  "goto_next_sibling c =
     (case above (at c) of
        [] \<Rightarrow> None
      | (i, n) # up \<Rightarrow>
          if below c = 0 \<or> length (children n) \<le> Suc i then None
          else Some (c\<lparr>at := nth_child (Place n up) (Suc i)\<rparr>))"

definition goto_parent :: "tree_cursor \<Rightarrow> tree_cursor option" where
  "goto_parent c =
     (if below c = 0 then None
      else map_option (\<lambda>p. \<lparr>at = p, below = below c - 1\<rparr>) (parent_place (at c)))"

partial_function (option) walk_loop ::
  "('s, 'z) visitor_scheme \<Rightarrow> bool \<Rightarrow> tree_cursor \<Rightarrow> 's \<Rightarrow> 's outcome option" where
  "walk_loop v entering c s =
     (if entering then
        (case enter v (at c) s of
           Panic \<Rightarrow> Some Panic
         | Diverges \<Rightarrow> Some Diverges
         | Returns r \<Rightarrow>
             (case (if snd r = Children then goto_first_child c else None) of
                Some c' \<Rightarrow> walk_loop v True c' (fst r)
              | None \<Rightarrow> walk_loop v False c (fst r)))
      else
        (case leave v (at c) s of
           Panic \<Rightarrow> Some Panic
         | Diverges \<Rightarrow> Some Diverges
         | Returns s' \<Rightarrow>
             (case goto_next_sibling c of
                Some c' \<Rightarrow> walk_loop v True c' s'
              | None \<Rightarrow>
                  (case goto_parent c of
                     Some c' \<Rightarrow> walk_loop v False c' s'
                   | None \<Rightarrow> Some (Returns s')))))"

definition walk :: "place \<Rightarrow> ('s, 'z) visitor_scheme \<Rightarrow> 's \<Rightarrow> 's outcome" where
  "walk root v s = obind (of_loop (walk_loop v True \<lparr>at = root, below = 0\<rparr> s)) id"

subsection \<open>Two visitors in one walk\<close>

record ('a, 'b) fused =
  fst_state :: 'a
  snd_state :: 'b
  a_skip :: "nat option"
  b_skip :: "nat option"
  fused_depth :: nat

definition Fused_new :: "'a \<Rightarrow> 'b \<Rightarrow> ('a, 'b) fused" where
  "Fused_new a b = \<lparr>fst_state = a, snd_state = b, a_skip = None, b_skip = None, fused_depth = 0\<rparr>"

text \<open>One half of \<open>enter\<close> and of \<open>leave\<close>; the source writes both halves out.\<close>

definition enter_half :: "('s, 'z) visitor_scheme \<Rightarrow> place \<Rightarrow> nat \<Rightarrow> 's \<times> nat option \<Rightarrow> ('s \<times> nat option) outcome" where
  "enter_half v p depth half =
     (case half of (s, skip) \<Rightarrow>
        if skip = None
        then obind (enter v p s) (\<lambda>(s', visit).
               Returns (s', if visit = SkipChildren then Some depth else None))
        else Returns (s, skip))"

definition leave_half :: "('s, 'z) visitor_scheme \<Rightarrow> place \<Rightarrow> nat \<Rightarrow> 's \<times> nat option \<Rightarrow> ('s \<times> nat option) outcome" where
  "leave_half v p depth half =
     (case half of (s, skip) \<Rightarrow>
        (case skip of
           Some d \<Rightarrow>
             if d = depth then obind (leave v p s) (\<lambda>s'. Returns (s', None)) else Returns (s, skip)
         | None \<Rightarrow> obind (leave v p s) (\<lambda>s'. Returns (s', None))))"

definition fused_enter ::
  "('a, 'y) visitor_scheme \<Rightarrow> ('b, 'z) visitor_scheme \<Rightarrow> place \<Rightarrow> ('a, 'b) fused \<Rightarrow>
   (('a, 'b) fused \<times> visit) outcome" where
  "fused_enter a b p f =
     obind (enter_half a p (fused_depth f) (fst_state f, a_skip f)) (\<lambda>(sa, ka).
     obind (enter_half b p (fused_depth f) (snd_state f, b_skip f)) (\<lambda>(sb, kb).
       Returns (\<lparr>fst_state = sa, snd_state = sb, a_skip = ka, b_skip = kb, fused_depth = fused_depth f + 1\<rparr>,
                if ka \<noteq> None \<and> kb \<noteq> None then SkipChildren else Children)))"

definition fused_leave ::
  "('a, 'y) visitor_scheme \<Rightarrow> ('b, 'z) visitor_scheme \<Rightarrow> place \<Rightarrow> ('a, 'b) fused \<Rightarrow> ('a, 'b) fused outcome" where
  "fused_leave a b p f =
     (if fused_depth f = 0 then Panic
      else let depth = fused_depth f - 1 in
        obind (leave_half a p depth (fst_state f, a_skip f)) (\<lambda>(sa, ka).
        obind (leave_half b p depth (snd_state f, b_skip f)) (\<lambda>(sb, kb).
          Returns \<lparr>fst_state = sa, snd_state = sb, a_skip = ka, b_skip = kb, fused_depth = depth\<rparr>)))"

definition Fused :: "('a, 'y) visitor_scheme \<Rightarrow> ('b, 'z) visitor_scheme \<Rightarrow> ('a, 'b) fused visitor" where
  "Fused a b = \<lparr>enter = fused_enter a b, leave = fused_leave a b\<rparr>"

subsection \<open>Descendants\<close>

definition collector :: "string list \<Rightarrow> place list visitor" where
  "collector ks =
     \<lparr>enter = (\<lambda>p out. Returns (if kind_of p \<in> set ks then out @ [p] else out, Children)),
      leave = (\<lambda>_ out. Returns out)\<rparr>"

definition collect_descendants_of_kind :: "place \<Rightarrow> string list \<Rightarrow> place list \<Rightarrow> place list outcome" where
  "collect_descendants_of_kind root ks out = walk root (collector ks) out"

definition finder :: "string list \<Rightarrow> bool visitor" where
  "finder ks =
     \<lparr>enter = (\<lambda>p found. Returns (if kind_of p \<in> set ks then (True, SkipChildren) else (found, Children))),
      leave = (\<lambda>_ found. Returns found)\<rparr>"

definition has_descendant_of_kind :: "place \<Rightarrow> string list \<Rightarrow> bool outcome" where
  "has_descendant_of_kind root ks = walk root (finder ks) False"

subsection \<open>The recursive traversal\<close>

lemma child_nodes_size: "size_list (\<lambda>q. size (here q)) (child_nodes p) < size (here p)"
  using size_children [of "here p"] by (simp add: comp_def flip: here_child_nodes)

text \<open>What a walk does: enter a node, visit its children unless told not to, leave it.\<close>

function visit_node :: "('s, 'z) visitor_scheme \<Rightarrow> place \<Rightarrow> 's \<Rightarrow> 's outcome"
and visit_nodes :: "('s, 'z) visitor_scheme \<Rightarrow> place list \<Rightarrow> 's \<Rightarrow> 's outcome" where
  "visit_node v p s =
     obind (enter v p s) (\<lambda>(s', w).
     obind (if w = Children then visit_nodes v (child_nodes p) s' else Returns s') (leave v p))"
| "visit_nodes v [] s = Returns s"
| "visit_nodes v (p # ps) s = obind (visit_node v p s) (visit_nodes v ps)"
  by pat_completeness auto
termination
  by (relation "measure (\<lambda>x. case x of Inl (_, p, _) \<Rightarrow> size (here p)
        | Inr (_, ps, _) \<Rightarrow> size_list (\<lambda>q. size (here q)) ps)") (simp_all add: child_nodes_size)

declare visit_node.simps [simp del]

lemma obind_assoc: "obind (obind m f) g = obind m (\<lambda>x. obind (f x) g)"
  by (cases m) simp_all

lemma obind_Returns_iff: "obind m f = Returns y \<longleftrightarrow> (\<exists>x. m = Returns x \<and> f x = Returns y)"
  by (cases m) simp_all

text \<open>The work of a node before it is left.\<close>

definition visit_body :: "('s, 'z) visitor_scheme \<Rightarrow> place \<Rightarrow> 's \<Rightarrow> 's outcome" where
  "visit_body v p s =
     obind (enter v p s) (\<lambda>(s', w). if w = Children then visit_nodes v (child_nodes p) s' else Returns s')"

lemma visit_node_body: "visit_node v p s = obind (visit_body v p s) (leave v p)"
  by (simp add: visit_node.simps visit_body_def obind_assoc case_prod_unfold)

text \<open>What the loop does after a step with outcome \<open>m\<close>.\<close>

definition resume :: "('r \<Rightarrow> 's outcome option) \<Rightarrow> 'r outcome \<Rightarrow> 's outcome option" where
  "resume k m = (case m of Panic \<Rightarrow> Some Panic | Diverges \<Rightarrow> Some Diverges | Returns s \<Rightarrow> k s)"

lemma resume_simps [simp]:
  "resume k Panic = Some Panic" "resume k Diverges = Some Diverges" "resume k (Returns s) = k s"
  by (simp_all add: resume_def)

lemma resume_obind: "resume k (obind m f) = resume (\<lambda>s. resume k (f s)) m"
  by (cases m) simp_all

lemma walk_enter:
  "walk_loop v True c s = resume (\<lambda>r. case (if snd r = Children then goto_first_child c else None) of
      Some c' \<Rightarrow> walk_loop v True c' (fst r) | None \<Rightarrow> walk_loop v False c (fst r)) (enter v (at c) s)"
  by (subst walk_loop.simps) (simp add: resume_def)

lemma walk_leave:
  "walk_loop v False c s = resume (\<lambda>s'. case goto_next_sibling c of
      Some c' \<Rightarrow> walk_loop v True c' s'
    | None \<Rightarrow> (case goto_parent c of Some c' \<Rightarrow> walk_loop v False c' s' | None \<Rightarrow> Some (Returns s')))
    (leave v (at c) s)"
  by (subst walk_loop.simps) (simp add: resume_def)

lemma child_nodes_drop: "i < length (children (here p)) \<Longrightarrow>
    drop i (child_nodes p) = nth_child p i # drop (Suc i) (child_nodes p)"
  by (simp add: child_nodes_def drop_map Cons_nth_drop_Suc upt_conv_Cons drop_upt)

lemma walk_siblings:
  assumes body: "\<And>q b s. q \<in> set (child_nodes p) \<Longrightarrow>
      walk_loop v True \<lparr>at = q, below = b\<rparr> s = resume (walk_loop v False \<lparr>at = q, below = b\<rparr>) (visit_body v q s)"
    and "i < length (children (here p))"
  shows "walk_loop v True \<lparr>at = nth_child p i, below = Suc b\<rparr> s =
    resume (walk_loop v False \<lparr>at = p, below = b\<rparr>) (visit_nodes v (drop i (child_nodes p)) s)"
  using assms(2)
proof (induction "length (children (here p)) - i" arbitrary: i s)
  case (Suc n)
  let ?q = "nth_child p i"
  have q: "?q \<in> set (child_nodes p)" using Suc.prems by (simp add: child_nodes_def)
  have after: "walk_loop v False \<lparr>at = ?q, below = Suc b\<rparr> s' =
      resume (\<lambda>s. resume (walk_loop v False \<lparr>at = p, below = b\<rparr>) (visit_nodes v (drop (Suc i) (child_nodes p)) s))
        (leave v ?q s')" for s'
  proof (cases "Suc i < length (children (here p))")
    case True
    moreover have "goto_next_sibling \<lparr>at = ?q, below = Suc b\<rparr> = Some \<lparr>at = nth_child p (Suc i), below = Suc b\<rparr>"
      using True by (simp add: goto_next_sibling_def nth_child_def)
    moreover have "n = length (children (here p)) - Suc i" using Suc.hyps(2) by simp
    ultimately show ?thesis by (subst walk_leave) (simp add: Suc.hyps(1))
  next
    case False
    then have "drop (Suc i) (child_nodes p) = []" by (simp add: child_nodes_def)
    with False show ?thesis
      by (subst walk_leave) (simp add: goto_next_sibling_def goto_parent_def parent_place_def nth_child_def)
  qed
  show ?case
    by (simp add: body [OF q] child_nodes_drop [OF Suc.prems] visit_node_body resume_obind ext [OF after])
qed simp

lemma walk_body:
  "walk_loop v True \<lparr>at = p, below = b\<rparr> s = resume (walk_loop v False \<lparr>at = p, below = b\<rparr>) (visit_body v p s)"
proof (induction "size (here p)" arbitrary: p b s rule: less_induct)
  case less
  have body: "walk_loop v True \<lparr>at = q, below = b\<rparr> s = resume (walk_loop v False \<lparr>at = q, below = b\<rparr>) (visit_body v q s)"
    if "q \<in> set (child_nodes p)" for q b s
    using less child_size [OF that] by blast
  have "(case (if snd r = Children then goto_first_child \<lparr>at = p, below = b\<rparr> else None) of
      Some c' \<Rightarrow> walk_loop v True c' (fst r) | None \<Rightarrow> walk_loop v False \<lparr>at = p, below = b\<rparr> (fst r)) =
    resume (walk_loop v False \<lparr>at = p, below = b\<rparr>)
      (if snd r = Children then visit_nodes v (child_nodes p) (fst r) else Returns (fst r))" for r
  proof (cases "snd r = Children \<and> children (here p) \<noteq> []")
    case True
    then show ?thesis
      using walk_siblings [OF body, where i = 0] by (simp add: goto_first_child_def)
  qed (auto simp: goto_first_child_def child_nodes_def)
  then show ?case
    by (subst walk_enter) (simp add: visit_body_def resume_obind case_prod_unfold)
qed

lemma walk_is_visit: "walk root v s = visit_node v root s"
proof -
  have "walk_loop v False \<lparr>at = root, below = 0\<rparr> s' = Some (leave v root s')" for s'
    by (subst walk_leave)
      (cases "leave v root s'"; simp add: goto_next_sibling_def goto_parent_def split: list.splits)
  then show ?thesis
    by (cases "visit_body v root s") (simp_all add: walk_def walk_body visit_node_body)
qed

subsection \<open>Invariants of a walk\<close>

text \<open>
  The contract of a visitor towards \<open>walk\<close>: a condition under which a node may be entered, a
  condition that holds while its children are visited, and what holds once it is left.  A visitor
  that keeps them never panics on the walk, and the last condition holds for the whole tree.
\<close>

locale tree_invariant =
  fixes v :: "('s, 'z) visitor_scheme"
    and pre :: "place \<Rightarrow> 's \<Rightarrow> bool"
    and inside :: "place \<Rightarrow> 's \<Rightarrow> 's \<Rightarrow> bool"
    and post :: "place \<Rightarrow> 's \<Rightarrow> 's \<Rightarrow> bool"
  assumes enters: "pre p s \<Longrightarrow> \<exists>s' w. enter v p s = Returns (s', w) \<and> inside p s s'"
    and descends: "inside p s0 s \<Longrightarrow> q \<in> set (child_nodes p) \<Longrightarrow> pre q s"
    and returns: "inside p s0 s \<Longrightarrow> q \<in> set (child_nodes p) \<Longrightarrow> post q s s' \<Longrightarrow> inside p s0 s'"
    and leaves: "inside p s0 s \<Longrightarrow> \<exists>s'. leave v p s = Returns s' \<and> post p s0 s'"
begin

lemma visit_children:
  assumes "\<And>q s. q \<in> set qs \<Longrightarrow> pre q s \<Longrightarrow> \<exists>s'. visit_node v q s = Returns s' \<and> post q s s'"
    and "set qs \<subseteq> set (child_nodes p)" "inside p s0 s"
  shows "\<exists>s'. visit_nodes v qs s = Returns s' \<and> inside p s0 s'"
  using assms
proof (induction qs arbitrary: s)
  case (Cons q qs)
  then obtain s1 where "visit_node v q s = Returns s1" "post q s s1"
    using descends by (metis insert_subset list.set(2) list.set_intros(1))
  moreover from this Cons.prems have "inside p s0 s1" using returns by auto
  ultimately show ?case using Cons by auto
qed simp

lemma visit_post: "pre p s \<Longrightarrow> \<exists>s'. visit_node v p s = Returns s' \<and> post p s s'"
proof (induction "size (here p)" arbitrary: p s rule: less_induct)
  case less
  obtain s1 w where s1: "enter v p s = Returns (s1, w)" "inside p s s1"
    using enters [OF less.prems] by blast
  have "\<exists>s2. (if w = Children then visit_nodes v (child_nodes p) s1 else Returns s1) = Returns s2 \<and> inside p s s2"
    using visit_children [OF less.hyps [OF child_size] subset_refl s1(2)] s1(2) by simp
  then obtain s2 where s2: "(if w = Children then visit_nodes v (child_nodes p) s1 else Returns s1) = Returns s2"
    "inside p s s2" by blast
  obtain s' where "leave v p s2 = Returns s'" "post p s s'" using leaves [OF s2(2)] by blast
  with s1(1) s2(1) show ?case by (simp add: visit_node.simps [of v p])
qed

lemma walk_post: "pre root s \<Longrightarrow> \<exists>s'. walk root v s = Returns s' \<and> post root s s'"
  unfolding walk_is_visit by (rule visit_post)

end

subsection \<open>Each fused visitor sees its own walk\<close>

definition half_run :: "('s \<Rightarrow> 's outcome) \<Rightarrow> 's \<times> nat option \<Rightarrow> ('s \<times> nat option) outcome" where
  "half_run run half =
     (case half of (s, skip) \<Rightarrow>
        if skip = None then obind (run s) (\<lambda>s'. Returns (s', None)) else Returns (s, skip))"

lemma half_run_iff:
  "half_run run (s, k) = Returns (s', k') \<longleftrightarrow> k' = k \<and> (if k = None then run s = Returns s' else s' = s)"
  by (auto simp: half_run_def obind_Returns_iff)

lemma half_step:
  assumes "half_run (visit_node v p) (s, k) = Returns (s', k)" "\<And>j. k = Some j \<Longrightarrow> j < d"
  obtains s1 k1 s2 where "enter_half v p d (s, k) = Returns (s1, k1)" "\<And>j. k1 = Some j \<Longrightarrow> j < Suc d"
    "half_run (visit_nodes v (child_nodes p)) (s1, k1) = Returns (s2, k1)" "k1 \<noteq> None \<Longrightarrow> s2 = s1"
    "leave_half v p d (s2, k1) = Returns (s', k)"
proof (cases k)
  case None
  then have "visit_node v p s = Returns s'" using assms(1) by (simp add: half_run_iff)
  then obtain s1 w s2 where run: "enter v p s = Returns (s1, w)"
    "(if w = Children then visit_nodes v (child_nodes p) s1 else Returns s1) = Returns s2" "leave v p s2 = Returns s'"
    by (auto simp: visit_node.simps obind_Returns_iff)
  show ?thesis
  proof (rule that [of s1 "if w = SkipChildren then Some d else None" s2])
    show "half_run (visit_nodes v (child_nodes p)) (s1, if w = SkipChildren then Some d else None) =
        Returns (s2, if w = SkipChildren then Some d else None)"
      using run(2) by (cases w) (simp_all add: half_run_iff)
  qed (use None run in \<open>cases w; auto simp: enter_half_def leave_half_def\<close>)+
next
  case (Some j)
  then have "s' = s" "j < d" using assms by (simp_all add: half_run_iff)
  with Some show ?thesis by (intro that [of s k s]) (auto simp: enter_half_def leave_half_def half_run_iff)
qed

lemma fused_nodes:
  assumes node: "\<And>p sa sa' sb sb'. p \<in> set ps \<Longrightarrow> half_run (visit_node a p) (sa, ka) = Returns (sa', ka) \<Longrightarrow>
      half_run (visit_node b p) (sb, kb) = Returns (sb', kb) \<Longrightarrow>
      visit_node (Fused a b) p \<lparr>fst_state = sa, snd_state = sb, a_skip = ka, b_skip = kb, fused_depth = d\<rparr> =
        Returns \<lparr>fst_state = sa', snd_state = sb', a_skip = ka, b_skip = kb, fused_depth = d\<rparr>"
    and "half_run (visit_nodes a ps) (sa, ka) = Returns (sa', ka)"
    and "half_run (visit_nodes b ps) (sb, kb) = Returns (sb', kb)"
  shows "visit_nodes (Fused a b) ps \<lparr>fst_state = sa, snd_state = sb, a_skip = ka, b_skip = kb, fused_depth = d\<rparr> =
    Returns \<lparr>fst_state = sa', snd_state = sb', a_skip = ka, b_skip = kb, fused_depth = d\<rparr>"
  using assms
proof (induction ps arbitrary: sa sb)
  case Nil
  then show ?case by (auto simp: half_run_iff split: if_splits)
next
  case (Cons p ps)
  obtain sa1 where sa1: "half_run (visit_node a p) (sa, ka) = Returns (sa1, ka)"
    "half_run (visit_nodes a ps) (sa1, ka) = Returns (sa', ka)"
    using Cons.prems(2) by (cases ka) (auto simp: half_run_iff obind_Returns_iff)
  obtain sb1 where sb1: "half_run (visit_node b p) (sb, kb) = Returns (sb1, kb)"
    "half_run (visit_nodes b ps) (sb1, kb) = Returns (sb', kb)"
    using Cons.prems(3) by (cases kb) (auto simp: half_run_iff obind_Returns_iff)
  have "visit_node (Fused a b) p \<lparr>fst_state = sa, snd_state = sb, a_skip = ka, b_skip = kb, fused_depth = d\<rparr> =
      Returns \<lparr>fst_state = sa1, snd_state = sb1, a_skip = ka, b_skip = kb, fused_depth = d\<rparr>"
    by (rule Cons.prems(1) [OF list.set_intros(1) sa1(1) sb1(1)])
  moreover have "visit_nodes (Fused a b) ps \<lparr>fst_state = sa1, snd_state = sb1, a_skip = ka, b_skip = kb, fused_depth = d\<rparr> =
      Returns \<lparr>fst_state = sa', snd_state = sb', a_skip = ka, b_skip = kb, fused_depth = d\<rparr>"
    by (rule Cons.IH [OF Cons.prems(1) sa1(2) sb1(2)]) simp_all
  ultimately show ?case by (simp only: visit_nodes.simps obind.simps)
qed

lemma fused_visit:
  assumes "half_run (visit_node a p) (sa, ka) = Returns (sa', ka)" "\<And>j. ka = Some j \<Longrightarrow> j < d"
    and "half_run (visit_node b p) (sb, kb) = Returns (sb', kb)" "\<And>j. kb = Some j \<Longrightarrow> j < d"
  shows "visit_node (Fused a b) p \<lparr>fst_state = sa, snd_state = sb, a_skip = ka, b_skip = kb, fused_depth = d\<rparr> =
    Returns \<lparr>fst_state = sa', snd_state = sb', a_skip = ka, b_skip = kb, fused_depth = d\<rparr>"
  using assms
proof (induction "size (here p)" arbitrary: p sa sa' ka sb sb' kb d rule: less_induct)
  case less
  obtain a1 j1 a2 where A: "enter_half a p d (sa, ka) = Returns (a1, j1)" "\<And>j. j1 = Some j \<Longrightarrow> j < Suc d"
    "half_run (visit_nodes a (child_nodes p)) (a1, j1) = Returns (a2, j1)" "j1 \<noteq> None \<Longrightarrow> a2 = a1"
    "leave_half a p d (a2, j1) = Returns (sa', ka)"
    using half_step [OF less.prems(1,2)] by metis
  obtain b1 k1 b2 where B: "enter_half b p d (sb, kb) = Returns (b1, k1)" "\<And>j. k1 = Some j \<Longrightarrow> j < Suc d"
    "half_run (visit_nodes b (child_nodes p)) (b1, k1) = Returns (b2, k1)" "k1 \<noteq> None \<Longrightarrow> b2 = b1"
    "leave_half b p d (b2, k1) = Returns (sb', kb)"
    using half_step [OF less.prems(3,4)] by metis
  have "visit_nodes (Fused a b) (child_nodes p)
      \<lparr>fst_state = a1, snd_state = b1, a_skip = j1, b_skip = k1, fused_depth = Suc d\<rparr> =
    Returns \<lparr>fst_state = a2, snd_state = b2, a_skip = j1, b_skip = k1, fused_depth = Suc d\<rparr>"
  proof (rule fused_nodes [OF _ A(3) B(3)])
    show "visit_node (Fused a b) q \<lparr>fst_state = ta, snd_state = tb, a_skip = j1, b_skip = k1, fused_depth = Suc d\<rparr> =
        Returns \<lparr>fst_state = ta', snd_state = tb', a_skip = j1, b_skip = k1, fused_depth = Suc d\<rparr>"
      if "q \<in> set (child_nodes p)" "half_run (visit_node a q) (ta, j1) = Returns (ta', j1)"
        "half_run (visit_node b q) (tb, k1) = Returns (tb', k1)" for q ta ta' tb tb'
      using less.hyps [OF child_size [OF that(1)] that(2) A(2) that(3) B(2)] .
  qed
  then have "visit_body (Fused a b) p \<lparr>fst_state = sa, snd_state = sb, a_skip = ka, b_skip = kb, fused_depth = d\<rparr> =
      Returns \<lparr>fst_state = a2, snd_state = b2, a_skip = j1, b_skip = k1, fused_depth = Suc d\<rparr>"
    using A(1,4) B(1,4) by (auto simp: visit_body_def Fused_def fused_enter_def)
  then show ?case
    using A(5) B(5) by (simp add: visit_node_body) (simp add: Fused_def fused_leave_def)
qed

lemma fused_walk:
  assumes "walk root a sa = Returns sa'" "walk root b sb = Returns sb'"
  shows "walk root (Fused a b) (Fused_new sa sb) = Returns (Fused_new sa' sb')"
  using assms fused_visit [of a root sa None sa' 0 b sb None sb']
  by (simp add: walk_is_visit half_run_iff Fused_new_def)

subsection \<open>Collecting descendants\<close>

function subplaces :: "place \<Rightarrow> place list" where
  "subplaces p = p # concat (map subplaces (child_nodes p))"
  by pat_completeness auto
termination
  by (relation "measure (\<lambda>p. size (here p))") (auto simp: child_size)

declare subplaces.simps [simp del]

lemma collector_visit:
  "visit_node (collector ks) p out = Returns (out @ filter (\<lambda>p. kind_of p \<in> set ks) (subplaces p))"
proof (induction p arbitrary: out rule: subplaces.induct)
  case (1 p)
  have "(\<And>q out. q \<in> set ps \<Longrightarrow> visit_node (collector ks) q out =
        Returns (out @ filter (\<lambda>p. kind_of p \<in> set ks) (subplaces q))) \<Longrightarrow>
      visit_nodes (collector ks) ps out =
        Returns (out @ filter (\<lambda>p. kind_of p \<in> set ks) (concat (map subplaces ps)))" for ps out
    by (induction ps arbitrary: out) simp_all
  from this [OF 1] show ?case
    by (simp add: visit_node.simps [of _ p] subplaces.simps [of p]) (simp add: collector_def)
qed

lemma finder_visit:
  "visit_node (finder ks) p found = Returns (found \<or> list_ex (\<lambda>p. kind_of p \<in> set ks) (subplaces p))"
proof (induction p arbitrary: found rule: subplaces.induct)
  case (1 p)
  have "(\<And>q found. q \<in> set ps \<Longrightarrow> visit_node (finder ks) q found =
        Returns (found \<or> list_ex (\<lambda>p. kind_of p \<in> set ks) (subplaces q))) \<Longrightarrow>
      visit_nodes (finder ks) ps found =
        Returns (found \<or> list_ex (\<lambda>p. kind_of p \<in> set ks) (concat (map subplaces ps)))" for ps found
    by (induction ps arbitrary: found) simp_all
  from this [OF 1] show ?case
    by (simp add: visit_node.simps [of _ p] subplaces.simps [of p]) (simp add: finder_def)
qed

subsection \<open>Properties\<close>

text \<open>
  C12: one traversal with two fused visitors is two traversals.  When each visitor on its own walks
  the tree without panic, the fused walk ends with exactly the two final states, whatever subtrees
  either visitor skips, and its own bookkeeping is back where it started.
\<close>

theorem fused_walk_is_two_walks:
  assumes "walk root a sa = Returns sa'" "walk root b sb = Returns sb'"
  shows "walk root (Fused a b) (Fused_new sa sb) = Returns (Fused_new sa' sb')"
  using assms by (rule fused_walk)

theorem fused_walk_is_two_walks_witness:
  "walk (Place (sample_node ''a'' 0 2 [sample_node ''b'' 0 1 [sample_node ''c'' 0 1 []]]) [])
     (Fused (collector [''c'']) (finder [''b''])) (Fused_new [] False) =
   Returns (Fused_new [nth_child (nth_child (Place (sample_node ''a'' 0 2
     [sample_node ''b'' 0 1 [sample_node ''c'' 0 1 []]]) []) 0) 0] True)"
  by (rule fused_walk_is_two_walks)
    (simp_all add: walk_is_visit visit_node.simps collector_def finder_def child_nodes_def sample_node_def
      sample_info_def)

text \<open>
  The cursor loop is the recursive traversal of the tree: it ends on every tree, enters each
  node before its children and leaves it after them, so that collecting descendants of given kinds
  gives exactly the matching nodes in document order, and the search for one agrees with it.
\<close>

theorem descendants_in_document_order:
  "collect_descendants_of_kind root ks out = Returns (out @ filter (\<lambda>p. kind_of p \<in> set ks) (subplaces root)) \<and>
   has_descendant_of_kind root ks = Returns (list_ex (\<lambda>p. kind_of p \<in> set ks) (subplaces root))"
  by (simp add: collect_descendants_of_kind_def has_descendant_of_kind_def walk_is_visit collector_visit finder_visit)

end
