(* ===== verification/Symbol_Extract.thy ===== *)
theory Symbol_Extract
  imports Script_Symbols Cst_Walk
begin

text \<open>
  \<^verbatim>\<open>src/symbols/extract.rs\<close>, \<^verbatim>\<open>src/symbols/doc.rs\<close> and \<^verbatim>\<open>src/symbols/util.rs\<close>: the visitor
  that builds the symbol table of a document from its syntax tree.  A \<open>Vec\<close> used as a stack is a
  list with its top first.  Slicing outside the source and the \<open>unreachable!\<close> arms panic.
\<close>

subsection \<open>Text of nodes\<close>

definition node_text :: "string \<Rightarrow> place \<Rightarrow> string outcome" where
  "node_text source p = or_panic (slice source (from_byte p) (to_byte p))"

fun text_of_option :: "string \<Rightarrow> place option \<Rightarrow> string option outcome" where
  "text_of_option source None = Returns None"
| "text_of_option source (Some p) = obind (node_text source p) (\<lambda>t. Returns (Some t))"

definition direct_child_text :: "place \<Rightarrow> string \<Rightarrow> string \<Rightarrow> string option outcome" where
  "direct_child_text p k source = text_of_option source (first_child_kind p k)"

definition base_type :: "place \<Rightarrow> string \<Rightarrow> string option outcome" where
  "base_type p source = text_of_option source (nth_child_kind p IDENT 1)"

subsection \<open>Documentation comments\<close>

definition trim_start :: "string \<Rightarrow> string" where
  "trim_start s = concat (dropWhile is_whitespace (uchars s))"

definition trim_end :: "string \<Rightarrow> string" where
  "trim_end s = concat (rev (dropWhile is_whitespace (rev (uchars s))))"

definition strip_suffix :: "string \<Rightarrow> string \<Rightarrow> string option" where
  "strip_suffix p s = (if ends_with p s then Some (take (length s - length p) s) else None)"

fun join_lines :: "string list \<Rightarrow> string" where
  "join_lines [] = []"
| "join_lines [l] = l"
| "join_lines (l # ls) = l @ [newline] @ join_lines ls"

definition is_own_line_comment :: "place \<Rightarrow> string \<Rightarrow> line_index \<Rightarrow> bool outcome" where
  "is_own_line_comment comment source li =
     (case vget (line_starts li) (row (start_point (info (here comment)))) of
        None \<Rightarrow> Returns False
      | Some line_start \<Rightarrow>
          obind (or_panic (slice source line_start (from_byte comment)))
            (\<lambda>t. Returns (list_all is_whitespace (uchars t))))"

definition blank_line_between :: "nat \<Rightarrow> nat \<Rightarrow> string \<Rightarrow> bool" where
  "blank_line_between upper_end lower_start source =
     (case slice source upper_end lower_start of
        None \<Rightarrow> False
      | Some gap \<Rightarrow> 2 \<le> count_list gap newline)"

definition clean_comment :: "string \<Rightarrow> string" where
  "clean_comment text =
     (let text = trim text
      in case strip_prefix ''//'' text of
           Some body \<Rightarrow>
             (let body = dropWhile (\<lambda>c. c = CHR ''/'') body
              in trim_end (case strip_prefix '' '' body of None \<Rightarrow> body | Some b \<Rightarrow> b))
         | None \<Rightarrow>
             (let body = (case strip_prefix ''/*'' text of
                            None \<Rightarrow> text
                          | Some t \<Rightarrow> (case strip_suffix ''*/'' t of None \<Rightarrow> t | Some u \<Rightarrow> u))
              in trim (join_lines (map (\<lambda>l. let l = trim l
                    in case strip_prefix ''*'' l of None \<Rightarrow> l | Some r \<Rightarrow> trim_start r) (lines body)))))"

text \<open>The loop over \<open>prev_sibling\<close>: the comments above child \<open>i\<close> of \<open>up\<close>, topmost first.\<close>

fun doc_loop :: "string \<Rightarrow> line_index \<Rightarrow> place \<Rightarrow> nat \<Rightarrow> nat \<Rightarrow> place list outcome" where
  "doc_loop source li up 0 lower_start = Returns []"
| "doc_loop source li up (Suc i) lower_start =
     (let prev = nth_child up i
      in if kind_of prev \<noteq> COMMENT then Returns []
         else obind (is_own_line_comment prev source li) (\<lambda>own.
           if \<not> own \<or> blank_line_between (to_byte prev) lower_start source then Returns []
           else obind (doc_loop source li up i (from_byte prev)) (\<lambda>cs. Returns (cs @ [prev]))))"

definition doc_comment_above :: "place \<Rightarrow> string \<Rightarrow> line_index \<Rightarrow> string option outcome" where
  "doc_comment_above p source li =
     obind (case above p of
              [] \<Rightarrow> Returns []
            | (i, n) # up \<Rightarrow> doc_loop source li (Place n up) i (from_byte p)) (\<lambda>comments.
       if comments = [] then Returns None
       else obind (traverse (node_text source) comments) (\<lambda>texts.
         let text = trim (join_lines (map clean_comment texts))
         in Returns (if text = [] then None else Some text)))"

subsection \<open>State\<close>

datatype mode =
    Body "symbol_id option" "annotation list"
  | EnumMembers symbol_id
  | Callable symbol_id bool

record frame =
  fr_depth :: nat
  fr_mode :: mode

record extractor =
  ex_symbols :: document_symbols
  ex_depth :: nat
  ex_frames :: "frame list"

definition SymbolExtractor_new :: extractor where
  "SymbolExtractor_new = \<lparr>ex_symbols = DocumentSymbols_default, ex_depth = 0, ex_frames = []\<rparr>"

definition extractor_finish :: "extractor \<Rightarrow> document_symbols outcome" where
  "extractor_finish s = build_indexes (ex_symbols s)"

record symbol_spec =
  spec_container :: "symbol_id option"
  spec_annotations :: "annotation list"
  spec_type_annotation :: "ty option"
  spec_base_class :: "string option"
  spec_owner_class :: "string option"
  spec_flavour :: "func_flavour option"
  spec_access :: access_level
  spec_specifiers :: specifiers

text \<open>\<open>AccessLevel\<close> defaults to \<open>Public\<close>.\<close>

definition SymbolSpec_default :: symbol_spec where
  "SymbolSpec_default =
     \<lparr>spec_container = None, spec_annotations = [], spec_type_annotation = None, spec_base_class = None,
      spec_owner_class = None, spec_flavour = None, spec_access = Public,
      spec_specifiers = specifiers_default\<rparr>"

definition push_frame :: "mode \<Rightarrow> extractor \<Rightarrow> extractor" where
  "push_frame m s = s\<lparr>ex_frames := \<lparr>fr_depth = ex_depth s, fr_mode = m\<rparr> # ex_frames s\<rparr>"

definition take_pending :: "extractor \<Rightarrow> (annotation list \<times> extractor) outcome" where
  "take_pending s =
     (case ex_frames s of
        [] \<Rightarrow> Panic
      | f # fs \<Rightarrow>
          (case fr_mode f of
             Body c pending \<Rightarrow> Returns (pending, s\<lparr>ex_frames := f\<lparr>fr_mode := Body c []\<rparr> # fs\<rparr>)
           | _ \<Rightarrow> Panic))"

definition pend_annotation :: "annotation \<Rightarrow> extractor \<Rightarrow> extractor outcome" where
  "pend_annotation a s =
     (case ex_frames s of
        [] \<Rightarrow> Panic
      | f # fs \<Rightarrow>
          (case fr_mode f of
             Body c pending \<Rightarrow> Returns (s\<lparr>ex_frames := f\<lparr>fr_mode := Body c (pending @ [a])\<rparr> # fs\<rparr>)
           | _ \<Rightarrow> Panic))"

subsection \<open>Reading declarations\<close>

definition annotation_of :: "string \<Rightarrow> place \<Rightarrow> annotation option outcome" where
  "annotation_of source p =
     (case first_child_kind p ANNOTATION_IDENT of
        None \<Rightarrow> Returns None
      | Some name \<Rightarrow>
          obind (node_text source name) (\<lambda>t.
          obind (text_of_option source (first_child_kind p IDENT)) (\<lambda>argument.
            Returns (Some \<lparr>annot_name = dropWhile (\<lambda>c. c = CHR ''@'') t, annot_argument = argument\<rparr>))))"

definition direct_annotations :: "string \<Rightarrow> place \<Rightarrow> annotation list outcome" where
  "direct_annotations source p =
     obind (traverse (annotation_of source) (filter (\<lambda>c. kind_of c = ANNOTATION) (child_nodes p)))
       (\<lambda>as. Returns (List.map_filter id as))"

fun specifier_loop :: "string \<Rightarrow> place list \<Rightarrow> access_level \<times> specifiers \<Rightarrow> (access_level \<times> specifiers) outcome" where
  "specifier_loop source [] acc = Returns acc"
| "specifier_loop source (c # cs) acc =
     (if kind_of c \<noteq> SPECIFIER then specifier_loop source cs acc
      else obind (node_text source c) (\<lambda>t.
        specifier_loop source cs
          (if t = ''private'' then (Private, snd acc)
           else if t = ''protected'' then (Protected, snd acc)
           else if t = ''public'' then (Public, snd acc)
           else case specifier_from_keyword t of
                  None \<Rightarrow> acc
                | Some sp \<Rightarrow> (fst acc, specifiers_insert sp (snd acc)))))"

definition specifiers_of :: "string \<Rightarrow> place \<Rightarrow> (access_level \<times> specifiers) outcome" where
  "specifiers_of source p = specifier_loop source (child_nodes p) (Public, specifiers_default)"

subsection \<open>Pushing symbols\<close>

definition push_symbol ::
  "string \<Rightarrow> line_index \<Rightarrow> place \<Rightarrow> place \<Rightarrow> symbol_kind \<Rightarrow> symbol_spec \<Rightarrow> extractor \<Rightarrow>
   (symbol_id \<times> extractor) outcome" where
  "push_symbol source li p name_node k spec s =
     (let cname = map_option type_name (Option.bind (spec_container spec) (by_id (ex_symbols s)))
      in obind (node_text source name_node) (\<lambda>name.
         let class = (if k = State then map_option (\<lambda>own. state_class_name own name) (spec_owner_class spec) else None)
         in obind (byte_range_to_range li source (from_byte p) (to_byte p)) (\<lambda>rng.
            obind (byte_range_to_range li source (from_byte name_node) (to_byte name_node)) (\<lambda>sel.
            obind (doc_comment_above p source li) (\<lambda>doc.
              case ds_push
                \<lparr>sym_id = 2 ^ 64 - 1, sym_name = name, sym_kind = k, sym_range = rng, selection_range = sel,
                 sym_byte_range = place_range p, selection_byte_range = place_range name_node,
                 container = spec_container spec, container_name = cname,
                 type_annotation = spec_type_annotation spec, base_class = spec_base_class spec,
                 owner_class = spec_owner_class spec, state_class = class, flavour = spec_flavour spec,
                 annotations = spec_annotations spec, access = spec_access spec,
                 specifiers = spec_specifiers spec, doc_comment = doc, origin = Script\<rparr>
                (ex_symbols s) of
                (i, ds) \<Rightarrow> Returns (i, s\<lparr>ex_symbols := ds\<rparr>))))))"

text \<open>The loop over the names of one declaration.\<close>

fun push_names ::
  "string \<Rightarrow> line_index \<Rightarrow> place \<Rightarrow> symbol_kind \<Rightarrow> symbol_spec \<Rightarrow> place list \<Rightarrow> extractor \<Rightarrow> extractor outcome" where
  "push_names source li p k spec [] s = Returns s"
| "push_names source li p k spec (c # cs) s =
     (if kind_of c = IDENT
      then obind (push_symbol source li p c k spec s) (\<lambda>(_, s'). push_names source li p k spec cs s')
      else push_names source li p k spec cs s)"

definition visit_var_decl ::
  "string \<Rightarrow> line_index \<Rightarrow> place \<Rightarrow> symbol_id option \<Rightarrow> annotation list \<Rightarrow> symbol_kind \<Rightarrow> extractor \<Rightarrow>
   extractor outcome" where
  "visit_var_decl source li p cont annots k s =
     obind (direct_annotations source p) (\<lambda>direct.
     obind (direct_child_text p TYPE_ANNOT source) (\<lambda>t.
     obind (specifiers_of source p) (\<lambda>(acc, specs).
       let names_field = (if kind_of p = AUTOBIND_DECL then NAME_FIELD else NAMES_FIELD)
       in push_names source li p k
            (SymbolSpec_default\<lparr>spec_container := cont, spec_annotations := annots @ direct,
              spec_type_annotation := map_option from_annotation t, spec_access := acc,
              spec_specifiers := specs\<rparr>)
            (children_by_field_name names_field p) s)))"

fun visit_groups :: "string \<Rightarrow> line_index \<Rightarrow> place list \<Rightarrow> symbol_id \<Rightarrow> extractor \<Rightarrow> extractor outcome" where
  "visit_groups source li [] i s = Returns s"
| "visit_groups source li (g # gs) i s =
     obind (visit_var_decl source li g (Some i) [] Parameter s) (visit_groups source li gs i)"

definition visit_params :: "string \<Rightarrow> line_index \<Rightarrow> place \<Rightarrow> symbol_id \<Rightarrow> extractor \<Rightarrow> extractor outcome" where
  "visit_params source li p function_id s =
     (case first_child_kind p FUNC_PARAMS of
        None \<Rightarrow> Returns s
      | Some params \<Rightarrow>
          visit_groups source li (filter (\<lambda>c. kind_of c = FUNC_PARAM_GROUP) (child_nodes params)) function_id s)"

subsection \<open>Entering declarations\<close>

text \<open>The common start of the four declaration handlers: the pending and direct annotations, and
  the frame opened when the declaration has no name.\<close>

definition decl_annotations :: "string \<Rightarrow> place \<Rightarrow> extractor \<Rightarrow> (annotation list \<times> extractor) outcome" where
  "decl_annotations source p s =
     obind (take_pending s) (\<lambda>(pending, s').
     obind (direct_annotations source p) (\<lambda>direct. Returns (pending @ direct, s')))"

definition nameless :: "symbol_id option \<Rightarrow> annotation list \<Rightarrow> extractor \<Rightarrow> (extractor \<times> visit) outcome" where
  "nameless cont annots s = Returns (push_frame (Body cont annots) s, Children)"

definition enter_type_decl ::
  "string \<Rightarrow> line_index \<Rightarrow> place \<Rightarrow> symbol_id option \<Rightarrow> symbol_kind \<Rightarrow> extractor \<Rightarrow> (extractor \<times> visit) outcome" where
  "enter_type_decl source li p cont k s =
     obind (decl_annotations source p s) (\<lambda>(annots, s).
       case first_child_kind p IDENT of
         None \<Rightarrow> nameless cont annots s
       | Some name_node \<Rightarrow>
           obind (base_type p source) (\<lambda>base.
           obind (specifiers_of source p) (\<lambda>(_, specs).
           obind (push_symbol source li p name_node k
             (SymbolSpec_default\<lparr>spec_container := cont, spec_annotations := annots,
               spec_base_class := base, spec_specifiers := specs\<rparr>) s) (\<lambda>(i, s).
             Returns (push_frame (Body (Some i) []) s, Children)))))"

definition enter_enum_decl ::
  "string \<Rightarrow> line_index \<Rightarrow> place \<Rightarrow> symbol_id option \<Rightarrow> extractor \<Rightarrow> (extractor \<times> visit) outcome" where
  "enter_enum_decl source li p cont s =
     obind (decl_annotations source p s) (\<lambda>(annots, s).
       case first_child_kind p IDENT of
         None \<Rightarrow> nameless cont annots s
       | Some name_node \<Rightarrow>
           obind (push_symbol source li p name_node Enum
             (SymbolSpec_default\<lparr>spec_container := cont, spec_annotations := annots\<rparr>) s) (\<lambda>(i, s).
             Returns (push_frame (EnumMembers i) s, Children)))"

definition enter_state_decl ::
  "string \<Rightarrow> line_index \<Rightarrow> place \<Rightarrow> symbol_id option \<Rightarrow> extractor \<Rightarrow> (extractor \<times> visit) outcome" where
  "enter_state_decl source li p cont s =
     obind (decl_annotations source p s) (\<lambda>(annots, s).
       case first_child_kind p IDENT of
         None \<Rightarrow> nameless cont annots s
       | Some name_node \<Rightarrow>
           obind (text_of_option source (nth_child_kind p IDENT 1)) (\<lambda>own.
           obind (text_of_option source (child_by_field_name BASE_FIELD p)) (\<lambda>base.
           obind (specifiers_of source p) (\<lambda>(_, specs).
           obind (push_symbol source li p name_node State
             (SymbolSpec_default\<lparr>spec_container := cont, spec_annotations := annots,
               spec_base_class := base, spec_owner_class := own, spec_specifiers := specs\<rparr>) s) (\<lambda>(i, s).
             Returns (push_frame (Body (Some i) []) s, Children))))))"

definition enter_callable_decl ::
  "string \<Rightarrow> line_index \<Rightarrow> place \<Rightarrow> symbol_id option \<Rightarrow> symbol_kind \<Rightarrow> extractor \<Rightarrow> (extractor \<times> visit) outcome" where
  "enter_callable_decl source li p cont default_kind s =
     obind (decl_annotations source p s) (\<lambda>(annots, s).
       case first_child_kind p IDENT of
         None \<Rightarrow> nameless cont annots s
       | Some name_node \<Rightarrow>
           let k = (if default_kind = Function \<and> cont \<noteq> None then Method else default_kind)
           in obind (direct_child_text p TYPE_ANNOT source) (\<lambda>t.
              obind (text_of_option source (first_child_kind p FUNC_FLAVOUR)) (\<lambda>f.
              obind (specifiers_of source p) (\<lambda>(acc, specs).
              obind (push_symbol source li p name_node k
                (SymbolSpec_default\<lparr>spec_container := cont, spec_annotations := annots,
                  spec_type_annotation := map_option from_annotation t,
                  spec_flavour := Option.bind f flavour_from_keyword,
                  spec_access := acc, spec_specifiers := specs\<rparr>) s) (\<lambda>(i, s).
              obind (visit_params source li p i s) (\<lambda>s.
                Returns (push_frame (Callable i False) s, Children)))))))"

subsection \<open>The visitor\<close>

definition enter_in_body ::
  "string \<Rightarrow> line_index \<Rightarrow> place \<Rightarrow> symbol_id option \<Rightarrow> extractor \<Rightarrow> (extractor \<times> visit) outcome" where
  "enter_in_body source li p cont s =
     (if kind_of p = ANNOTATION then
        obind (annotation_of source p) (\<lambda>a.
        obind (case a of None \<Rightarrow> Returns s | Some a \<Rightarrow> pend_annotation a s) (\<lambda>s. Returns (s, SkipChildren)))
      else if kind_of p = CLASS_DECL then enter_type_decl source li p cont Class s
      else if kind_of p = STRUCT_DECL then enter_type_decl source li p cont Struct s
      else if kind_of p = ENUM_DECL then enter_enum_decl source li p cont s
      else if kind_of p = STATE_DECL then enter_state_decl source li p cont s
      else if kind_of p = FUNC_DECL then enter_callable_decl source li p cont Function s
      else if kind_of p = EVENT_DECL then enter_callable_decl source li p cont Event s
      else if kind_of p \<in> {MEMBER_VAR_DECL, AUTOBIND_DECL} then
        obind (take_pending s) (\<lambda>(annots, s).
        obind (visit_var_decl source li p cont annots Field s) (\<lambda>s. Returns (s, SkipChildren)))
      else if kind_of p = LOCAL_VAR_DECL_STMT then
        obind (take_pending s) (\<lambda>(annots, s).
        obind (visit_var_decl source li p cont annots Variable s) (\<lambda>s. Returns (s, SkipChildren)))
      else
        obind (take_pending s) (\<lambda>(pending, s). Returns (push_frame (Body cont pending) s, Children)))"

definition enter_in_enum ::
  "string \<Rightarrow> line_index \<Rightarrow> place \<Rightarrow> symbol_id \<Rightarrow> extractor \<Rightarrow> (extractor \<times> visit) outcome" where
  "enter_in_enum source li p enum_id s =
     (if kind_of p = ENUM_MEMBER_DECL then
        (case first_child_kind p IDENT of
           None \<Rightarrow> Returns (s, SkipChildren)
         | Some name_node \<Rightarrow>
             obind (push_symbol source li p name_node EnumMember
               (SymbolSpec_default\<lparr>spec_container := Some enum_id\<rparr>) s) (\<lambda>(_, s). Returns (s, SkipChildren)))
      else Returns (push_frame (EnumMembers enum_id) s, Children))"

definition enter_in_callable :: "place \<Rightarrow> symbol_id \<Rightarrow> bool \<Rightarrow> extractor \<Rightarrow> (extractor \<times> visit) outcome" where
  "enter_in_callable p i body_seen s =
     (if kind_of p = FUNC_BLOCK \<and> \<not> body_seen then
        (case ex_frames s of
           [] \<Rightarrow> Panic
         | f # fs \<Rightarrow>
             (case fr_mode f of
                Callable j _ \<Rightarrow>
                  Returns (push_frame (Body (Some i) []) (s\<lparr>ex_frames := f\<lparr>fr_mode := Callable j True\<rparr> # fs\<rparr>),
                           Children)
              | _ \<Rightarrow> Panic))
      else Returns (s, SkipChildren))"

definition enter_node :: "string \<Rightarrow> line_index \<Rightarrow> place \<Rightarrow> extractor \<Rightarrow> (extractor \<times> visit) outcome" where
  "enter_node source li p s =
     (case ex_frames s of
        [] \<Rightarrow> Returns (push_frame (Body None []) s, Children)
      | f # _ \<Rightarrow>
          if \<not> is_named p then Returns (s, SkipChildren)
          else (case fr_mode f of
                  Body cont _ \<Rightarrow> enter_in_body source li p cont s
                | EnumMembers enum_id \<Rightarrow> enter_in_enum source li p enum_id s
                | Callable i body_seen \<Rightarrow> enter_in_callable p i body_seen s))"

definition extractor_enter :: "string \<Rightarrow> line_index \<Rightarrow> place \<Rightarrow> extractor \<Rightarrow> (extractor \<times> visit) outcome" where
  "extractor_enter source li p s =
     obind (enter_node source li p s) (\<lambda>(s, w). Returns (s\<lparr>ex_depth := ex_depth s + 1\<rparr>, w))"

definition extractor_leave :: "extractor \<Rightarrow> extractor outcome" where
  "extractor_leave s =
     (if ex_depth s = 0 then Panic
      else let s = s\<lparr>ex_depth := ex_depth s - 1\<rparr>
           in Returns (case ex_frames s of
                         [] \<Rightarrow> s
                       | f # fs \<Rightarrow> if fr_depth f = ex_depth s then s\<lparr>ex_frames := fs\<rparr> else s))"

definition symbol_extractor :: "string \<Rightarrow> line_index \<Rightarrow> extractor visitor" where
  "symbol_extractor source li = \<lparr>enter = extractor_enter source li, leave = (\<lambda>_. extractor_leave)\<rparr>"

definition extract_symbols :: "place \<Rightarrow> string \<Rightarrow> line_index \<Rightarrow> document_symbols outcome" where
  "extract_symbols root source li =
     obind (walk root (symbol_extractor source li) SymbolExtractor_new) extractor_finish"

subsection \<open>Trees of a source\<close>

text \<open>
  What is relied on of a parse: nodes begin and end at character boundaries of the source, the row
  of a node is not below its first byte, and children lie inside their parent.
\<close>

definition node_in :: "string \<Rightarrow> place \<Rightarrow> bool" where
  "node_in source p \<longleftrightarrow>
     is_char_boundary source (from_byte p) \<and> is_char_boundary source (to_byte p) \<and> from_byte p \<le> to_byte p \<and>
     (case vget (line_starts (LineIndex_new source)) (row (start_point (info (here p)))) of
        None \<Rightarrow> True | Some l \<Rightarrow> l \<le> from_byte p)"

definition encloses :: "byte_range \<Rightarrow> byte_range \<Rightarrow> bool" where
  "encloses outer inner \<longleftrightarrow> br_start outer \<le> br_start inner \<and> br_end inner \<le> br_end outer"

definition tree_in :: "string \<Rightarrow> place \<Rightarrow> bool" where
  "tree_in source root \<longleftrightarrow> utf8_wf source \<and>
     (\<forall>p \<in> set (subplaces root). node_in source p \<and>
        (\<forall>c \<in> set (child_nodes p). encloses (place_range p) (place_range c)))"

definition siblings_in :: "string \<Rightarrow> place \<Rightarrow> bool" where
  "siblings_in source p \<longleftrightarrow>
     (case above p of [] \<Rightarrow> True | (i, n) # up \<Rightarrow> \<forall>j < i. node_in source (nth_child (Place n up) j))"

lemma encloses_trans: "encloses a b \<Longrightarrow> encloses b c \<Longrightarrow> encloses a c"
  by (auto simp: encloses_def)

lemma subplaces_self [simp]: "p \<in> set (subplaces p)"
  by (simp add: subplaces.simps [of p])

lemma tree_in_node: "tree_in source p \<Longrightarrow> node_in source p"
  by (simp add: tree_in_def)

lemma tree_in_child: "tree_in source p \<Longrightarrow> q \<in> set (child_nodes p) \<Longrightarrow> tree_in source q"
  by (auto simp: tree_in_def subplaces.simps [of p])

lemma tree_in_encloses: "tree_in source p \<Longrightarrow> q \<in> set (child_nodes p) \<Longrightarrow> encloses (place_range p) (place_range q)"
  by (auto simp: tree_in_def subplaces.simps [of p])

lemma siblings_in_child: "tree_in source p \<Longrightarrow> q \<in> set (child_nodes p) \<Longrightarrow> siblings_in source q"
proof -
  assume p: "tree_in source p" and "q \<in> set (child_nodes p)"
  then obtain i where i: "i < length (children (here p))" "q = nth_child p i"
    by (auto simp: child_nodes_def)
  have "node_in source (nth_child p j)" if "j < i" for j
    using tree_in_node [OF tree_in_child [OF p]] that i(1) by (simp add: child_nodes_def)
  then show "siblings_in source q" by (simp add: i(2) siblings_in_def nth_child_def)
qed

lemma child_kind_child:
  "nth_child_kind p k i = Some q \<Longrightarrow> q \<in> set (child_nodes p)"
  "first_child_kind p k = Some q \<Longrightarrow> q \<in> set (child_nodes p)"
proof -
  have "vget xs j = Some x \<Longrightarrow> x \<in> set xs" for xs :: "place list" and j x by auto
  then show "nth_child_kind p k i = Some q \<Longrightarrow> q \<in> set (child_nodes p)" for i
    unfolding nth_child_kind_def by (metis filter_is_subset subsetD)
  then show "first_child_kind p k = Some q \<Longrightarrow> q \<in> set (child_nodes p)"
    unfolding first_child_kind_def .
qed

subsection \<open>Reading nodes of the source does not panic\<close>

lemma node_text_returns: "node_in source p \<Longrightarrow> \<exists>t. node_text source p = Returns t \<and> slice source (from_byte p) (to_byte p) = Some t"
  by (simp add: node_in_def node_text_def slice_def boundary_le)

lemma text_of_option_returns:
  "(\<And>q. o' = Some q \<Longrightarrow> node_in source q) \<Longrightarrow> \<exists>t. text_of_option source o' = Returns t"
  using node_text_returns by (cases o') fastforce+

lemma traverse_returns: "(\<And>x. x \<in> set xs \<Longrightarrow> \<exists>y. f x = Returns y) \<Longrightarrow> \<exists>ys. traverse f xs = Returns ys"
  by (induction xs) fastforce+

lemma own_line_returns:
  assumes "utf8_wf source" "node_in source p"
  shows "\<exists>b. is_own_line_comment p source (LineIndex_new source) = Returns b"
proof (cases "vget (line_starts (LineIndex_new source)) (row (start_point (info (here p))))")
  case (Some l)
  then have "l \<in> set (line_starts (LineIndex_new source))" by (auto simp del: vget_None_iff)
  then have "is_char_boundary source l" by (rule line_start_boundary [OF assms(1)])
  with Some assms(2) show ?thesis
    by (simp add: is_own_line_comment_def node_in_def slice_def boundary_le del: vget_Some_iff)
qed (intro exI [of _ False], simp add: is_own_line_comment_def del: vget_None_iff)

lemma doc_loop_returns:
  assumes "utf8_wf source" "\<And>j. j < i \<Longrightarrow> node_in source (nth_child up j)"
  shows "\<exists>cs. doc_loop source (LineIndex_new source) up i b = Returns cs \<and> (\<forall>c \<in> set cs. node_in source c)"
  using assms(2)
proof (induction i arbitrary: b)
  case (Suc i)
  obtain own where own: "is_own_line_comment (nth_child up i) source (LineIndex_new source) = Returns own"
    using own_line_returns [OF assms(1) Suc.prems] by blast
  obtain cs where "doc_loop source (LineIndex_new source) up i (from_byte (nth_child up i)) = Returns cs"
    "\<forall>c \<in> set cs. node_in source c" using Suc by fastforce
  with own Suc.prems show ?case by (auto simp: Let_def)
qed simp

lemma doc_comment_returns:
  assumes "utf8_wf source" "siblings_in source p"
  shows "\<exists>d. doc_comment_above p source (LineIndex_new source) = Returns d"
proof -
  have "\<exists>cs. (case above p of [] \<Rightarrow> Returns []
      | (i, n) # up \<Rightarrow> doc_loop source (LineIndex_new source) (Place n up) i (from_byte p)) = Returns cs \<and>
      (\<forall>c \<in> set cs. node_in source c)"
    using assms doc_loop_returns [OF assms(1)] by (auto simp: siblings_in_def split: list.split)
  then obtain cs where cs: "(case above p of [] \<Rightarrow> Returns []
      | (i, n) # up \<Rightarrow> doc_loop source (LineIndex_new source) (Place n up) i (from_byte p)) = Returns cs"
      "\<forall>c \<in> set cs. node_in source c" by blast
  obtain ts where "traverse (node_text source) cs = Returns ts"
    using traverse_returns [of cs "node_text source"] node_text_returns cs(2) by blast
  then show ?thesis unfolding doc_comment_above_def cs(1) by (simp add: Let_def)
qed

lemma annotation_returns: "tree_in source p \<Longrightarrow> \<exists>a. annotation_of source p = Returns a"
proof (cases "first_child_kind p ANNOTATION_IDENT")
  case (Some q)
  assume p: "tree_in source p"
  obtain t where "node_text source q = Returns t"
    using node_text_returns tree_in_node tree_in_child [OF p] child_kind_child(2) [OF Some] by blast
  moreover obtain t' where "text_of_option source (first_child_kind p IDENT) = Returns t'"
    using text_of_option_returns tree_in_node tree_in_child [OF p] child_kind_child(2) by metis
  ultimately show ?thesis by (simp add: annotation_of_def Some)
qed (simp add: annotation_of_def)

lemma direct_annotations_returns: "tree_in source p \<Longrightarrow> \<exists>as. direct_annotations source p = Returns as"
  using traverse_returns [of "filter (\<lambda>c. kind_of c = ANNOTATION) (child_nodes p)" "annotation_of source"]
    annotation_returns tree_in_child
  unfolding direct_annotations_def by fastforce

lemma specifiers_returns: "tree_in source p \<Longrightarrow> \<exists>a sp. specifiers_of source p = Returns (a, sp)"
proof -
  assume "tree_in source p"
  then have "\<And>c. c \<in> set (child_nodes p) \<Longrightarrow> node_in source c" using tree_in_child tree_in_node by blast
  moreover have "(\<And>c. c \<in> set cs \<Longrightarrow> node_in source c) \<Longrightarrow> \<exists>r. specifier_loop source cs acc = Returns r" for cs acc
  proof (induction cs arbitrary: acc)
    case (Cons c cs)
    then obtain t where "node_text source c = Returns t" using node_text_returns [of source c] by auto
    with Cons show ?case by simp
  qed simp
  ultimately show ?thesis unfolding specifiers_of_def by (metis surj_pair)
qed

lemma child_text_returns:
  assumes "tree_in source p"
  shows "\<exists>t. direct_child_text p k source = Returns t" "\<exists>t. base_type p source = Returns t"
    "\<exists>t. text_of_option source (first_child_kind p k) = Returns t"
    "\<exists>t. text_of_option source (nth_child_kind p k i) = Returns t"
    "\<exists>t. text_of_option source (child_by_field_name f p) = Returns t"
  unfolding direct_child_text_def base_type_def
  by (rule text_of_option_returns; erule tree_in_node [OF tree_in_child [OF assms child_kind_child(1)]]
        tree_in_node [OF tree_in_child [OF assms child_kind_child(2)]]
        tree_in_node [OF tree_in_child [OF assms field_child]])+

lemma range_returns:
  "utf8_wf source \<Longrightarrow> is_char_boundary source a \<Longrightarrow> is_char_boundary source b \<Longrightarrow>
   \<exists>r. byte_range_to_range (LineIndex_new source) source a b = Returns r"
  by (simp add: byte_range_to_range_def byte_to_position_value)

subsection \<open>The table that is built\<close>

definition symbol_in :: "string \<Rightarrow> symbol \<Rightarrow> bool" where
  "symbol_in source s \<longleftrightarrow>
     slice source (br_start (selection_byte_range s)) (br_end (selection_byte_range s)) = Some (sym_name s) \<and>
     encloses (sym_byte_range s) (selection_byte_range s) \<and>
     byte_range_to_range (LineIndex_new source) source (br_start (sym_byte_range s)) (br_end (sym_byte_range s)) =
       Returns (sym_range s) \<and>
     byte_range_to_range (LineIndex_new source) source (br_start (selection_byte_range s))
       (br_end (selection_byte_range s)) = Returns (selection_range s)"

definition syms_ok :: "string \<Rightarrow> symbol list \<Rightarrow> bool" where
  "syms_ok source syms \<longleftrightarrow> table_ok syms \<and>
     (\<forall>s \<in> set syms. symbol_in source s \<and>
        (\<forall>c. container s = Some c \<longrightarrow> encloses (sym_byte_range (syms ! c)) (sym_byte_range s)))"

definition ds_ok :: "string \<Rightarrow> document_symbols \<Rightarrow> bool" where
  "ds_ok source ds \<longleftrightarrow> ds = unindexed (symbols ds) \<and> syms_ok source (symbols ds)"

definition ds_grows :: "string \<Rightarrow> document_symbols \<Rightarrow> document_symbols \<Rightarrow> bool" where
  "ds_grows source ds ds' \<longleftrightarrow> ds_ok source ds' \<and> (\<exists>new. symbols ds' = symbols ds @ new)"

definition holds :: "document_symbols \<Rightarrow> symbol_id option \<Rightarrow> byte_range \<Rightarrow> bool" where
  "holds ds cont r \<longleftrightarrow>
     (\<forall>c. cont = Some c \<longrightarrow> c < length (symbols ds) \<and> encloses (sym_byte_range (symbols ds ! c)) r)"

lemma ds_grows_refl: "ds_ok source ds \<Longrightarrow> ds_grows source ds ds"
  by (simp add: ds_grows_def)

lemma ds_grows_trans: "ds_grows source a b \<Longrightarrow> ds_grows source b c \<Longrightarrow> ds_grows source a c"
  by (auto simp: ds_grows_def)

lemma ds_grows_ok: "ds_grows source a b \<Longrightarrow> ds_ok source b"
  by (simp add: ds_grows_def)

lemma holds_grows: "ds_grows source ds ds' \<Longrightarrow> holds ds cont r \<Longrightarrow> holds ds' cont r"
  by (auto simp: ds_grows_def holds_def nth_append)

lemma holds_encloses: "holds ds cont r \<Longrightarrow> encloses r r' \<Longrightarrow> holds ds cont r'"
  by (auto simp: holds_def intro: encloses_trans)

lemma holds_None [simp]: "holds ds None r"
  by (simp add: holds_def)

lemma ds_push_grows:
  assumes ds: "ds_ok source ds" and x: "symbol_in source x" "holds ds (container x) (sym_byte_range x)"
  shows "\<exists>ds'. ds_push x ds = (length (symbols ds), ds') \<and> ds_grows source ds ds' \<and>
    length (symbols ds) < length (symbols ds') \<and>
    sym_byte_range (symbols ds' ! length (symbols ds)) = sym_byte_range x"
proof -
  let ?n = "length (symbols ds)"
  let ?syms = "symbols ds @ [x\<lparr>sym_id := ?n\<rparr>]"
  have tab: "table_ok (symbols ds)"
    and old: "\<And>s. s \<in> set (symbols ds) \<Longrightarrow> symbol_in source s"
    and nest: "\<And>s c. s \<in> set (symbols ds) \<Longrightarrow> container s = Some c \<Longrightarrow>
      encloses (sym_byte_range (symbols ds ! c)) (sym_byte_range s)"
    using ds by (auto simp: ds_ok_def syms_ok_def)
  have before: "c < ?n" if "s \<in> set (symbols ds)" "container s = Some c" for s c
    using tab that by (force simp: table_ok_def in_set_conv_nth)
  have "table_ok ?syms"
    using table_ok_push [OF tab, of x] x(2) by (simp add: ds_push_def holds_def Let_def)
  moreover have "symbol_in source (x\<lparr>sym_id := ?n\<rparr>)" using x(1) by (simp add: symbol_in_def)
  moreover have "encloses (sym_byte_range (?syms ! c)) (sym_byte_range s)"
    if "s \<in> set ?syms" "container s = Some c" for s c
    using that nest before x(2) by (auto simp: nth_append holds_def)
  ultimately have "syms_ok source ?syms" using old unfolding syms_ok_def by auto
  moreover have "ds\<lparr>symbols := ?syms\<rparr> = unindexed ?syms"
    using ds unfolding ds_ok_def unindexed_def by (metis document_symbols.update_convs(1) document_symbols.surjective)
  ultimately show ?thesis
    by (intro exI [of _ "unindexed ?syms"])
      (simp add: ds_push_def Let_def ds_grows_def ds_ok_def nth_append unindexed_def)
qed

lemma push_symbol_grows:
  assumes ds: "ds_ok source (ex_symbols s)" and p: "tree_in source p" "siblings_in source p"
    and name: "node_in source nm" "encloses (place_range p) (place_range nm)"
    and cont: "holds (ex_symbols s) (spec_container spec) (place_range p)"
  shows "\<exists>s'. push_symbol source (LineIndex_new source) p nm k spec s =
      Returns (length (symbols (ex_symbols s)), s\<lparr>ex_symbols := s'\<rparr>) \<and>
    ds_grows source (ex_symbols s) s' \<and> holds s' (Some (length (symbols (ex_symbols s)))) (place_range p)"
proof -
  have wf: "utf8_wf source" using p(1) by (simp add: tree_in_def)
  obtain t where t: "node_text source nm = Returns t" "slice source (from_byte nm) (to_byte nm) = Some t"
    using node_text_returns [OF name(1)] by blast
  obtain r where r: "byte_range_to_range (LineIndex_new source) source (from_byte p) (to_byte p) = Returns r"
    using range_returns [OF wf] tree_in_node [OF p(1)] by (auto simp: node_in_def)
  obtain q where q: "byte_range_to_range (LineIndex_new source) source (from_byte nm) (to_byte nm) = Returns q"
    using range_returns [OF wf] name(1) by (auto simp: node_in_def)
  obtain d where d: "doc_comment_above p source (LineIndex_new source) = Returns d"
    using doc_comment_returns [OF wf p(2)] by blast
  define x where "x = \<lparr>sym_id = 2 ^ 64 - 1, sym_name = t, sym_kind = k, sym_range = r, selection_range = q,
     sym_byte_range = place_range p, selection_byte_range = place_range nm, container = spec_container spec,
     container_name = map_option type_name (Option.bind (spec_container spec) (by_id (ex_symbols s))),
     type_annotation = spec_type_annotation spec, base_class = spec_base_class spec,
     owner_class = spec_owner_class spec,
     state_class = (if k = State then map_option (\<lambda>own. state_class_name own t) (spec_owner_class spec) else None),
     flavour = spec_flavour spec, annotations = spec_annotations spec, access = spec_access spec,
     specifiers = spec_specifiers spec, doc_comment = d, origin = Script\<rparr>"
  have "symbol_in source x" using t(2) name(2) r q by (simp add: symbol_in_def x_def place_range_def)
  moreover have "holds (ex_symbols s) (container x) (sym_byte_range x)" using cont by (simp add: x_def)
  ultimately obtain ds' where ds': "ds_push x (ex_symbols s) = (length (symbols (ex_symbols s)), ds')"
    "ds_grows source (ex_symbols s) ds'" "length (symbols (ex_symbols s)) < length (symbols ds')"
    "sym_byte_range (symbols ds' ! length (symbols (ex_symbols s))) = sym_byte_range x"
    using ds_push_grows [OF ds] by blast
  have "push_symbol source (LineIndex_new source) p nm k spec s =
      Returns (length (symbols (ex_symbols s)), s\<lparr>ex_symbols := ds'\<rparr>)"
    unfolding push_symbol_def t(1) Let_def obind.simps r q d
    using ds'(1) unfolding x_def by simp
  moreover have "holds ds' (Some (length (symbols (ex_symbols s)))) (place_range p)"
    using ds'(3,4) by (simp add: holds_def x_def encloses_def)
  ultimately show ?thesis using ds'(2) by blast
qed

lemma push_names_grows:
  assumes "ds_ok source (ex_symbols s)" "tree_in source p" "siblings_in source p"
    and "set cs \<subseteq> set (child_nodes p)" "holds (ex_symbols s) (spec_container spec) (place_range p)"
  shows "\<exists>s'. push_names source (LineIndex_new source) p k spec cs s = Returns (s\<lparr>ex_symbols := s'\<rparr>) \<and>
    ds_grows source (ex_symbols s) s'"
  using assms(1,4,5)
proof (induction cs arbitrary: s)
  case Nil
  then show ?case using ds_grows_refl by (intro exI [of _ "ex_symbols s"]) simp
next
  case (Cons c cs)
  have c: "node_in source c" "encloses (place_range p) (place_range c)"
    using Cons.prems(2) tree_in_child [OF assms(2)] tree_in_node tree_in_encloses [OF assms(2)] by auto
  show ?case
  proof (cases "kind_of c = IDENT")
    case True
    obtain s1 where s1: "push_symbol source (LineIndex_new source) p c k spec s =
        Returns (length (symbols (ex_symbols s)), s\<lparr>ex_symbols := s1\<rparr>)" "ds_grows source (ex_symbols s) s1"
      using push_symbol_grows [OF Cons.prems(1) assms(2,3) c Cons.prems(3)] by blast
    obtain s2 where "push_names source (LineIndex_new source) p k spec cs (s\<lparr>ex_symbols := s1\<rparr>) =
        Returns (s\<lparr>ex_symbols := s2\<rparr>)" "ds_grows source s1 s2"
      using Cons.IH [of "s\<lparr>ex_symbols := s1\<rparr>"] Cons.prems ds_grows_ok [OF s1(2)] holds_grows [OF s1(2)] by auto
    with s1 True show ?thesis using ds_grows_trans by (intro exI [of _ s2]) auto
  qed (use Cons in simp)
qed

lemma visit_var_decl_grows:
  assumes "ds_ok source (ex_symbols s)" "tree_in source p" "siblings_in source p"
    and "holds (ex_symbols s) cont (place_range p)"
  shows "\<exists>s'. visit_var_decl source (LineIndex_new source) p cont as k s = Returns (s\<lparr>ex_symbols := s'\<rparr>) \<and>
    ds_grows source (ex_symbols s) s'"
proof -
  obtain d where d: "direct_annotations source p = Returns d" using direct_annotations_returns [OF assms(2)] by blast
  obtain t where t: "direct_child_text p TYPE_ANNOT source = Returns t" using child_text_returns(1) [OF assms(2)] by blast
  obtain a sp where sp: "specifiers_of source p = Returns (a, sp)" using specifiers_returns [OF assms(2)] by blast
  show ?thesis
    unfolding visit_var_decl_def d t sp Let_def obind.simps prod.case
    by (rule push_names_grows [OF assms(1-3)]) (use assms(4) in \<open>auto simp: children_by_field_name_def\<close>)
qed

lemma visit_params_grows:
  assumes "ds_ok source (ex_symbols s)" "tree_in source p" "holds (ex_symbols s) (Some i) (place_range p)"
  shows "\<exists>s'. visit_params source (LineIndex_new source) p i s = Returns (s\<lparr>ex_symbols := s'\<rparr>) \<and>
    ds_grows source (ex_symbols s) s'"
proof (cases "first_child_kind p FUNC_PARAMS")
  case None
  then show ?thesis
    using ds_grows_refl [OF assms(1)] by (intro exI [of _ "ex_symbols s"]) (simp add: visit_params_def)
next
  case (Some ps)
  then have ps: "ps \<in> set (child_nodes p)" by (rule child_kind_child(2))
  note params = tree_in_child [OF assms(2) ps]
  have "set gs \<subseteq> set (child_nodes ps) \<Longrightarrow> ds_ok source (ex_symbols s) \<Longrightarrow> holds (ex_symbols s) (Some i) (place_range p) \<Longrightarrow>
      \<exists>s'. visit_groups source (LineIndex_new source) gs i s = Returns (s\<lparr>ex_symbols := s'\<rparr>) \<and> ds_grows source (ex_symbols s) s'" for gs s
  proof (induction gs arbitrary: s)
    case Nil
    then show ?case using ds_grows_refl by (intro exI [of _ "ex_symbols s"]) simp
  next
    case (Cons g gs)
    then have g: "g \<in> set (child_nodes ps)" by simp
    have "encloses (place_range p) (place_range g)"
      using encloses_trans tree_in_encloses [OF assms(2) ps] tree_in_encloses [OF params g] by blast
    then have "holds (ex_symbols s) (Some i) (place_range g)" using Cons.prems(3) holds_encloses by blast
    then obtain s1 where s1: "visit_var_decl source (LineIndex_new source) g (Some i) [] Parameter s = Returns (s\<lparr>ex_symbols := s1\<rparr>)"
      "ds_grows source (ex_symbols s) s1"
      using visit_var_decl_grows [OF Cons.prems(2) tree_in_child [OF params g] siblings_in_child [OF params g]] by blast
    obtain s2 where "visit_groups source (LineIndex_new source) gs i (s\<lparr>ex_symbols := s1\<rparr>) = Returns (s\<lparr>ex_symbols := s2\<rparr>)"
      "ds_grows source s1 s2"
      using Cons.IH [of "s\<lparr>ex_symbols := s1\<rparr>"] Cons.prems ds_grows_ok [OF s1(2)] holds_grows [OF s1(2)] by auto
    with s1 show ?case using ds_grows_trans by (intro exI [of _ s2]) auto
  qed
  from this [of "filter (\<lambda>c. kind_of c = FUNC_PARAM_GROUP) (child_nodes ps)" s] assms(1,3) show ?thesis
    by (auto simp: visit_params_def Some)
qed

subsection \<open>The frames of the walk\<close>

fun mode_container :: "mode \<Rightarrow> symbol_id option" where
  "mode_container (Body c _) = c"
| "mode_container (EnumMembers i) = Some i"
| "mode_container (Callable i _) = Some i"

fun mode_same :: "mode \<Rightarrow> mode \<Rightarrow> bool" where
  "mode_same (Body c _) (Body d _) \<longleftrightarrow> c = d"
| "mode_same (EnumMembers i) (EnumMembers j) \<longleftrightarrow> i = j"
| "mode_same (Callable i _) (Callable j _) \<longleftrightarrow> i = j"
| "mode_same _ _ \<longleftrightarrow> False"

definition frame_same :: "frame \<Rightarrow> frame \<Rightarrow> bool" where
  "frame_same f g \<longleftrightarrow> fr_depth f = fr_depth g \<and> mode_same (fr_mode f) (fr_mode g)"

definition frames_same :: "frame list \<Rightarrow> frame list \<Rightarrow> bool" where
  "frames_same fs gs \<longleftrightarrow> list_all2 frame_same fs gs"

lemma mode_same_refl [simp]: "mode_same m m"
  by (cases m) simp_all

lemma mode_same_trans: "mode_same a b \<Longrightarrow> mode_same b c \<Longrightarrow> mode_same a c"
  by (cases a; cases b; cases c) simp_all

lemma mode_same_container: "mode_same a b \<Longrightarrow> mode_container a = mode_container b"
  by (cases a; cases b) simp_all

lemma frames_same_refl [simp]: "frames_same fs fs"
  by (simp add: frames_same_def frame_same_def list.rel_refl)

lemma frames_same_trans: "frames_same a b \<Longrightarrow> frames_same b c \<Longrightarrow> frames_same a c"
  unfolding frames_same_def
  by (rule list_all2_trans [of frame_same frame_same frame_same]) (auto simp: frame_same_def intro: mode_same_trans)

lemma frames_same_Cons: "frames_same (f # fs) gs \<longleftrightarrow> (\<exists>g gs'. gs = g # gs' \<and> frame_same f g \<and> frames_same fs gs')"
  by (cases gs) (simp_all add: frames_same_def)

lemma frames_same_Nil [simp]: "frames_same [] gs \<longleftrightarrow> gs = []"
  by (simp add: frames_same_def)

lemma frames_same_depth:
  "frames_same fs gs \<Longrightarrow> \<forall>f \<in> set fs. fr_depth f < d \<Longrightarrow> \<forall>g \<in> set gs. fr_depth g < d"
  by (induction fs arbitrary: gs) (auto simp: frames_same_Cons frame_same_def)

definition extract_pre :: "string \<Rightarrow> place \<Rightarrow> extractor \<Rightarrow> bool" where
  "extract_pre source p s \<longleftrightarrow> tree_in source p \<and> siblings_in source p \<and> ds_ok source (ex_symbols s) \<and>
     (\<forall>f \<in> set (ex_frames s). fr_depth f < ex_depth s) \<and>
     (case ex_frames s of
        [] \<Rightarrow> True | f # _ \<Rightarrow> holds (ex_symbols s) (mode_container (fr_mode f)) (place_range p))"

text \<open>A frame was opened for the node, or none.\<close>

definition entered :: "string \<Rightarrow> place \<Rightarrow> extractor \<Rightarrow> extractor \<Rightarrow> bool" where
  "entered source p s0 s \<longleftrightarrow> ds_grows source (ex_symbols s0) (ex_symbols s) \<and>
     ((\<exists>f fs. ex_frames s = f # fs \<and> fr_depth f = ex_depth s0 \<and> frames_same (ex_frames s0) fs \<and>
         holds (ex_symbols s) (mode_container (fr_mode f)) (place_range p)) \<or>
      ex_frames s0 \<noteq> [] \<and> frames_same (ex_frames s0) (ex_frames s))"

definition extract_inside :: "string \<Rightarrow> place \<Rightarrow> extractor \<Rightarrow> extractor \<Rightarrow> bool" where
  "extract_inside source p s0 s \<longleftrightarrow>
     extract_pre source p s0 \<and> entered source p s0 s \<and> ex_depth s = Suc (ex_depth s0)"

definition extract_post :: "string \<Rightarrow> place \<Rightarrow> extractor \<Rightarrow> extractor \<Rightarrow> bool" where
  "extract_post source p s s' \<longleftrightarrow> ds_grows source (ex_symbols s) (ex_symbols s') \<and>
     ex_depth s' = ex_depth s \<and> frames_same (ex_frames s) (ex_frames s')"

lemma entered_push:
  assumes "ds_grows source (ex_symbols s) (ex_symbols t)" "frames_same (ex_frames s) (ex_frames t)"
    and "ex_depth t = ex_depth s" "holds (ex_symbols t) (mode_container m) (place_range p)"
  shows "entered source p s (push_frame m t)"
  using assms by (simp add: entered_def push_frame_def)

lemma entered_same:
  assumes "ds_grows source (ex_symbols s) (ex_symbols t)" "frames_same (ex_frames s) (ex_frames t)" "ex_frames s \<noteq> []"
  shows "entered source p s t"
  using assms by (simp add: entered_def)

text \<open>Handlers in the body of a declaration start by taking the pending annotations.\<close>

abbreviation enters_ok :: "string \<Rightarrow> place \<Rightarrow> extractor \<Rightarrow> (extractor \<times> visit) outcome \<Rightarrow> bool" where
  "enters_ok source p s r \<equiv> \<exists>t w. r = Returns (t, w) \<and> entered source p s t \<and> ex_depth t = ex_depth s"

lemma in_body:
  assumes "extract_pre source p s" "ex_frames s = f # fs" "fr_mode f = Body cont pending"
  obtains t where "take_pending s = Returns (pending, t)" "ex_symbols t = ex_symbols s" "ex_depth t = ex_depth s"
    "frames_same (ex_frames s) (ex_frames t)" "ex_frames t \<noteq> []" "holds (ex_symbols t) cont (place_range p)"
    "ds_ok source (ex_symbols t)" "tree_in source p" "siblings_in source p"
proof (rule that)
  show "take_pending s = Returns (pending, s\<lparr>ex_frames := f\<lparr>fr_mode := Body cont []\<rparr> # fs\<rparr>)"
    by (simp add: take_pending_def assms)
qed (use assms in \<open>auto simp: extract_pre_def frames_same_Cons frame_same_def\<close>)

lemma declared:
  assumes t: "ds_ok source (ex_symbols t)" "tree_in source p" "siblings_in source p"
    "spec_container spec = cont" "holds (ex_symbols t) cont (place_range p)"
    and name: "first_child_kind p IDENT = Some nm"
  obtains u where "push_symbol source (LineIndex_new source) p nm k spec t =
      Returns (length (symbols (ex_symbols t)), t\<lparr>ex_symbols := u\<rparr>)"
    "ds_grows source (ex_symbols t) u" "holds u (Some (length (symbols (ex_symbols t)))) (place_range p)"
  using push_symbol_grows [OF t(1-3) tree_in_node [OF tree_in_child [OF t(2) child_kind_child(2) [OF name]]]
      tree_in_encloses [OF t(2) child_kind_child(2) [OF name]], of spec k] t(4,5) by blast

lemma decl_handlers:
  assumes "extract_pre source p s" "ex_frames s = f # fs" "fr_mode f = Body cont pending"
  shows "enters_ok source p s (enter_type_decl source (LineIndex_new source) p cont k s)"
    "enters_ok source p s (enter_enum_decl source (LineIndex_new source) p cont s)"
    "enters_ok source p s (enter_state_decl source (LineIndex_new source) p cont s)"
    "enters_ok source p s (enter_callable_decl source (LineIndex_new source) p cont k s)"
proof -
  obtain t where t: "take_pending s = Returns (pending, t)" "ex_symbols t = ex_symbols s" "ex_depth t = ex_depth s"
    "frames_same (ex_frames s) (ex_frames t)" "ex_frames t \<noteq> []" "holds (ex_symbols t) cont (place_range p)"
    "ds_ok source (ex_symbols t)" "tree_in source p" "siblings_in source p"
    by (rule in_body [OF assms])
  obtain d where d: "direct_annotations source p = Returns d" using direct_annotations_returns [OF t(8)] by blast
  have start: "decl_annotations source p s = Returns (pending @ d, t)" by (simp add: decl_annotations_def t(1) d)
  have nameless: "enters_ok source p s (nameless cont as t)" for as
    unfolding nameless_def
    using entered_push [of source s t "Body cont as" p] t ds_grows_refl [OF t(7)] by (auto simp: push_frame_def)
  have pushed: "enters_ok source p s (Returns (push_frame m (t\<lparr>ex_symbols := u\<rparr>), Children))"
    if "ds_grows source (ex_symbols t) u" "holds u (mode_container m) (place_range p)" for m u
    using entered_push [of source s "t\<lparr>ex_symbols := u\<rparr>" m p] that t by (auto simp: push_frame_def)
  obtain ty where ty: "direct_child_text p TYPE_ANNOT source = Returns ty" using child_text_returns(1) [OF t(8)] by blast
  obtain base where base: "base_type p source = Returns base" using child_text_returns(2) [OF t(8)] by blast
  obtain fl where fl: "text_of_option source (first_child_kind p FUNC_FLAVOUR) = Returns fl"
    using child_text_returns(3) [OF t(8)] by blast
  obtain own where own: "text_of_option source (nth_child_kind p IDENT 1) = Returns own"
    using child_text_returns(4) [OF t(8)] by blast
  obtain bs where bs: "text_of_option source (child_by_field_name BASE_FIELD p) = Returns bs"
    using child_text_returns(5) [OF t(8)] by blast
  obtain ac sp where sp: "specifiers_of source p = Returns (ac, sp)" using specifiers_returns [OF t(8)] by blast
  note reads = start ty base fl own bs sp
  have push: "enters_ok source p s (obind (push_symbol source (LineIndex_new source) p nm k spec t) K)"
    if "first_child_kind p IDENT = Some nm" "spec_container spec = cont"
      "\<And>u. ds_grows source (ex_symbols t) u \<Longrightarrow> holds u (Some (length (symbols (ex_symbols t)))) (place_range p) \<Longrightarrow>
        enters_ok source p s (K (length (symbols (ex_symbols t)), t\<lparr>ex_symbols := u\<rparr>))" for nm k spec K
    using declared [OF t(7,8,9) that(2) t(6) that(1)] that(3) by (metis obind.simps(3))
  show "enters_ok source p s (enter_type_decl source (LineIndex_new source) p cont k s)"
  proof (cases "first_child_kind p IDENT")
    case (Some nm)
    show ?thesis unfolding enter_type_decl_def reads Some obind.simps prod.case option.case
      by (rule push [OF Some]) (simp, simp only: prod.case, rule pushed, simp_all)
  next
    case None
    show ?thesis unfolding enter_type_decl_def start None obind.simps prod.case option.case by (rule nameless)
  qed
  show "enters_ok source p s (enter_enum_decl source (LineIndex_new source) p cont s)"
  proof (cases "first_child_kind p IDENT")
    case (Some nm)
    show ?thesis unfolding enter_enum_decl_def reads Some obind.simps prod.case option.case
      by (rule push [OF Some]) (simp, simp only: prod.case, rule pushed, simp_all)
  next
    case None
    show ?thesis unfolding enter_enum_decl_def start None obind.simps prod.case option.case by (rule nameless)
  qed
  show "enters_ok source p s (enter_state_decl source (LineIndex_new source) p cont s)"
  proof (cases "first_child_kind p IDENT")
    case (Some nm)
    show ?thesis unfolding enter_state_decl_def reads Some obind.simps prod.case option.case
      by (rule push [OF Some]) (simp, simp only: prod.case, rule pushed, simp_all)
  next
    case None
    show ?thesis unfolding enter_state_decl_def start None obind.simps prod.case option.case by (rule nameless)
  qed
  show "enters_ok source p s (enter_callable_decl source (LineIndex_new source) p cont k s)"
  proof (cases "first_child_kind p IDENT")
    case (Some nm)
    have body: "enters_ok source p s (obind (visit_params source (LineIndex_new source) p i (t\<lparr>ex_symbols := u\<rparr>))
        (\<lambda>s. Returns (push_frame (Callable i False) s, Children)))"
      if u: "ds_grows source (ex_symbols t) u" "holds u (Some i) (place_range p)" for i u
    proof -
      obtain v where v: "visit_params source (LineIndex_new source) p i (t\<lparr>ex_symbols := u\<rparr>) =
          Returns (t\<lparr>ex_symbols := v\<rparr>)" "ds_grows source u v"
        using visit_params_grows [of source "t\<lparr>ex_symbols := u\<rparr>" p i] ds_grows_ok [OF u(1)] t(8) u(2) by auto
      show ?thesis unfolding v(1) obind.simps
        by (rule pushed) (use u v(2) ds_grows_trans holds_grows in \<open>fastforce+\<close>)
    qed
    show ?thesis unfolding enter_callable_decl_def reads Some obind.simps prod.case option.case Let_def
      by (rule push [OF Some]) (simp, simp only: prod.case, rule body)
  next
    case None
    show ?thesis unfolding enter_callable_decl_def start None obind.simps prod.case option.case by (rule nameless)
  qed
qed

lemma enter_in_body_ok:
  assumes "extract_pre source p s" "ex_frames s = f # fs" "fr_mode f = Body cont pending"
  shows "enters_ok source p s (enter_in_body source (LineIndex_new source) p cont s)"
proof -
  obtain t where t: "take_pending s = Returns (pending, t)" "ex_symbols t = ex_symbols s" "ex_depth t = ex_depth s"
    "frames_same (ex_frames s) (ex_frames t)" "ex_frames t \<noteq> []" "holds (ex_symbols t) cont (place_range p)"
    "ds_ok source (ex_symbols t)" "tree_in source p" "siblings_in source p"
    by (rule in_body [OF assms])
  note grown = ds_grows_refl [OF t(7)]
  have other: "enters_ok source p s (Returns (push_frame (Body cont pending) t, Children))"
    using entered_push [of source s t "Body cont pending" p] t grown by (auto simp: push_frame_def)
  have var: "enters_ok source p s
      (obind (visit_var_decl source (LineIndex_new source) p cont pending k t) (\<lambda>s. Returns (s, SkipChildren)))" for k
  proof -
    obtain u where u: "visit_var_decl source (LineIndex_new source) p cont pending k t = Returns (t\<lparr>ex_symbols := u\<rparr>)"
      "ds_grows source (ex_symbols t) u" using visit_var_decl_grows [OF t(7,8,9,6)] by blast
    then show ?thesis using entered_same [of source s "t\<lparr>ex_symbols := u\<rparr>" p] t assms(2) by auto
  qed
  have annot: "enters_ok source p s (obind (annotation_of source p) (\<lambda>a.
      obind (case a of None \<Rightarrow> Returns s | Some a \<Rightarrow> pend_annotation a s) (\<lambda>s. Returns (s, SkipChildren))))"
  proof -
    obtain a where a: "annotation_of source p = Returns a" using annotation_returns [OF t(8)] by blast
    have "entered source p s s" using entered_same [of source s s p] grown t(2) assms(2) by simp
    moreover have "entered source p s (s\<lparr>ex_frames := f\<lparr>fr_mode := Body cont (pending @ [b])\<rparr> # fs\<rparr>)" for b
      using entered_same [of source s "s\<lparr>ex_frames := f\<lparr>fr_mode := Body cont (pending @ [b])\<rparr> # fs\<rparr>" p] grown t(2) assms(2,3)
      by (simp add: frames_same_Cons frame_same_def)
    ultimately show ?thesis
      using assms(2,3) by (cases a) (simp_all add: a pend_annotation_def)
  qed
  show ?thesis
    unfolding enter_in_body_def t(1) obind.simps prod.case
    using decl_handlers [OF assms] annot var other by simp
qed

lemma enter_in_enum_ok:
  assumes "extract_pre source p s" "ex_frames s = f # fs" "fr_mode f = EnumMembers i"
  shows "enters_ok source p s (enter_in_enum source (LineIndex_new source) p i s)"
proof -
  have s: "ds_ok source (ex_symbols s)" "tree_in source p" "siblings_in source p" "holds (ex_symbols s) (Some i) (place_range p)"
    using assms by (simp_all add: extract_pre_def)
  note grown = ds_grows_refl [OF s(1)]
  have same: "entered source p s s" using entered_same [of source s s p] grown assms(2) by simp
  have "enters_ok source p s (obind (push_symbol source (LineIndex_new source) p nm EnumMember
      (SymbolSpec_default\<lparr>spec_container := Some i\<rparr>) s) (\<lambda>(_, s). Returns (s, SkipChildren)))"
    if nm: "first_child_kind p IDENT = Some nm" for nm
  proof -
    obtain u where "push_symbol source (LineIndex_new source) p nm EnumMember (SymbolSpec_default\<lparr>spec_container := Some i\<rparr>) s =
        Returns (length (symbols (ex_symbols s)), s\<lparr>ex_symbols := u\<rparr>)" "ds_grows source (ex_symbols s) u"
      by (rule declared [of source s p _ "Some i" nm EnumMember]) (use s nm in auto)
    then show ?thesis using entered_same [of source s "s\<lparr>ex_symbols := u\<rparr>" p] assms(2) by simp
  qed
  moreover have "entered source p s (push_frame (EnumMembers i) s)"
    by (rule entered_push) (use grown s in simp_all)
  ultimately show ?thesis
    using same by (simp add: enter_in_enum_def push_frame_def split: option.split)
qed

lemma enter_in_callable_ok:
  assumes "extract_pre source p s" "ex_frames s = f # fs" "fr_mode f = Callable i seen"
  shows "enters_ok source p s (enter_in_callable p i seen s)"
proof -
  have s: "ds_ok source (ex_symbols s)" "holds (ex_symbols s) (Some i) (place_range p)"
    using assms by (simp_all add: extract_pre_def)
  let ?t = "s\<lparr>ex_frames := f\<lparr>fr_mode := Callable i True\<rparr> # fs\<rparr>"
  have "entered source p s s" using entered_same [of source s s p] ds_grows_refl [OF s(1)] assms(2) by simp
  moreover have "entered source p s (push_frame (Body (Some i) []) ?t)"
    using entered_push [of source s ?t "Body (Some i) []" p] ds_grows_refl [OF s(1)] s(2) assms(2,3)
    by (simp add: frames_same_Cons frame_same_def)
  ultimately show ?thesis using assms(2,3) by (simp add: enter_in_callable_def push_frame_def)
qed

lemma extractor_enters:
  assumes "extract_pre source p s"
  shows "\<exists>t w. extractor_enter source (LineIndex_new source) p s = Returns (t, w) \<and> extract_inside source p s t"
proof -
  have "enters_ok source p s (enter_node source (LineIndex_new source) p s)"
  proof (cases "ex_frames s")
    case Nil
    have "ds_ok source (ex_symbols s)" using assms by (simp add: extract_pre_def)
    then have "entered source p s (push_frame (Body None []) s)"
      by (intro entered_push) (simp_all add: ds_grows_refl)
    then show ?thesis by (simp add: enter_node_def Nil push_frame_def)
  next
    case (Cons f fs)
    have "entered source p s s"
      using entered_same [of source s s p] assms Cons ds_grows_refl by (simp add: extract_pre_def)
    moreover have "enters_ok source p s (case fr_mode f of
          Body cont _ \<Rightarrow> enter_in_body source (LineIndex_new source) p cont s
        | EnumMembers enum_id \<Rightarrow> enter_in_enum source (LineIndex_new source) p enum_id s
        | Callable i body_seen \<Rightarrow> enter_in_callable p i body_seen s)"
      using enter_in_body_ok [OF assms Cons] enter_in_enum_ok [OF assms Cons] enter_in_callable_ok [OF assms Cons]
      by (cases "fr_mode f") simp_all
    ultimately show ?thesis by (simp add: enter_node_def Cons)
  qed
  then obtain t w where "enter_node source (LineIndex_new source) p s = Returns (t, w)"
    "entered source p s t" "ex_depth t = ex_depth s" by blast
  then show ?thesis
    using assms by (simp add: extractor_enter_def extract_inside_def entered_def)
qed

lemma extractor_leaves:
  assumes "extract_inside source p s0 s"
  shows "\<exists>t. extractor_leave s = Returns t \<and> extract_post source p s0 t"
proof -
  have depth: "ex_depth s = Suc (ex_depth s0)" and grown: "ds_grows source (ex_symbols s0) (ex_symbols s)"
    and less: "\<forall>f \<in> set (ex_frames s0). fr_depth f < ex_depth s0"
    using assms by (simp_all add: extract_inside_def entered_def extract_pre_def)
  consider f fs where "ex_frames s = f # fs" "fr_depth f = ex_depth s0" "frames_same (ex_frames s0) fs"
    | "ex_frames s0 \<noteq> []" "frames_same (ex_frames s0) (ex_frames s)"
    using assms by (auto simp: extract_inside_def entered_def)
  then show ?thesis
  proof cases
    case 1
    then show ?thesis using depth grown by (simp add: extractor_leave_def extract_post_def Let_def)
  next
    case 2
    then show ?thesis
      using depth grown frames_same_depth [OF 2(2) less]
      by (cases "ex_frames s") (auto simp: extractor_leave_def extract_post_def Let_def)
  qed
qed

lemma inside_descends:
  assumes "extract_inside source p s0 s" "q \<in> set (child_nodes p)"
  shows "extract_pre source q s"
proof -
  have p: "tree_in source p" and depth: "ex_depth s = Suc (ex_depth s0)"
    and grown: "ds_grows source (ex_symbols s0) (ex_symbols s)"
    and less: "\<forall>f \<in> set (ex_frames s0). fr_depth f < ex_depth s0"
    and top: "case ex_frames s0 of [] \<Rightarrow> True
      | f # _ \<Rightarrow> holds (ex_symbols s0) (mode_container (fr_mode f)) (place_range p)"
    using assms(1) by (simp_all add: extract_inside_def entered_def extract_pre_def)
  note inner = holds_encloses [OF _ tree_in_encloses [OF p assms(2)]]
  consider f fs where "ex_frames s = f # fs" "fr_depth f = ex_depth s0" "frames_same (ex_frames s0) fs"
      "holds (ex_symbols s) (mode_container (fr_mode f)) (place_range p)"
    | f fs g gs where "ex_frames s0 = f # fs" "ex_frames s = g # gs" "frame_same f g" "frames_same fs gs"
    using assms(1) by (cases "ex_frames s0") (auto simp: extract_inside_def entered_def frames_same_Cons)
  then have "(\<forall>f \<in> set (ex_frames s). fr_depth f < ex_depth s) \<and>
     (case ex_frames s of [] \<Rightarrow> True | f # _ \<Rightarrow> holds (ex_symbols s) (mode_container (fr_mode f)) (place_range q))"
  proof cases
    case 1
    then show ?thesis using depth inner frames_same_depth [OF 1(3) less] by auto
  next
    case 2
    have "holds (ex_symbols s) (mode_container (fr_mode g)) (place_range q)"
      using top 2 inner holds_grows [OF grown] mode_same_container by (auto simp: frame_same_def)
    moreover have "\<forall>f \<in> set (ex_frames s). fr_depth f < ex_depth s0"
      using frames_same_depth [OF _ less, of "ex_frames s"] 2 by (simp add: frames_same_Cons)
    ultimately show ?thesis using 2(2) depth by (auto intro: less_SucI)
  qed
  then show ?thesis
    using tree_in_child [OF p assms(2)] siblings_in_child [OF p assms(2)] ds_grows_ok [OF grown]
    by (simp add: extract_pre_def)
qed

lemma inside_returns:
  assumes "extract_inside source p s0 s" "extract_post source q s s'"
  shows "extract_inside source p s0 s'"
proof -
  have grown: "ds_grows source (ex_symbols s) (ex_symbols s')" and same: "frames_same (ex_frames s) (ex_frames s')"
    using assms(2) by (simp_all add: extract_post_def)
  have "\<exists>g gs. ex_frames s' = g # gs \<and> fr_depth g = ex_depth s0 \<and> frames_same (ex_frames s0) gs \<and>
      holds (ex_symbols s') (mode_container (fr_mode g)) (place_range p)"
    if "ex_frames s = f # fs" "fr_depth f = ex_depth s0" "frames_same (ex_frames s0) fs"
      "holds (ex_symbols s) (mode_container (fr_mode f)) (place_range p)" for f fs
    using same that frames_same_trans holds_grows [OF grown] mode_same_container
    by (fastforce simp: frames_same_Cons frame_same_def)
  moreover have "frames_same (ex_frames s0) (ex_frames s')" if "frames_same (ex_frames s0) (ex_frames s)"
    using that same frames_same_trans by blast
  ultimately show ?thesis
    using assms grown ds_grows_trans unfolding extract_inside_def entered_def extract_post_def by metis
qed

interpretation extraction: tree_invariant "symbol_extractor source (LineIndex_new source)"
  "extract_pre source" "extract_inside source" "extract_post source" for source
proof
  fix p s s0 s' q
  show "extract_pre source p s \<Longrightarrow>
      \<exists>s' w. enter (symbol_extractor source (LineIndex_new source)) p s = Returns (s', w) \<and> extract_inside source p s s'"
    using extractor_enters by (simp add: symbol_extractor_def)
  show "extract_inside source p s0 s \<Longrightarrow>
      \<exists>s'. leave (symbol_extractor source (LineIndex_new source)) p s = Returns s' \<and> extract_post source p s0 s'"
    using extractor_leaves by (simp add: symbol_extractor_def)
  assume i: "extract_inside source p s0 s" and q: "q \<in> set (child_nodes p)"
  then show "extract_pre source q s" by (rule inside_descends)
  show "extract_post source q s s' \<Longrightarrow> extract_inside source p s0 s'" by (rule inside_returns [OF i])
qed

text \<open>Extraction always returns a well-formed table, indexed.\<close>

lemma extraction_returns:
  assumes "tree_in source (Place root [])"
  shows "\<exists>ds. extract_symbols (Place root []) source (LineIndex_new source) = Returns ds \<and>
    syms_ok source (symbols ds) \<and> build_indexes (unindexed (symbols ds)) = Returns ds"
proof -
  have "extract_pre source (Place root []) SymbolExtractor_new"
    using assms by (simp add: extract_pre_def SymbolExtractor_new_def siblings_in_def ds_ok_def unindexed_def
        DocumentSymbols_default_def syms_ok_def)
  then obtain s where s: "walk (Place root []) (symbol_extractor source (LineIndex_new source)) SymbolExtractor_new = Returns s"
    "extract_post source (Place root []) SymbolExtractor_new s"
    using extraction.walk_post by blast
  then have ok: "ex_symbols s = unindexed (symbols (ex_symbols s))" "syms_ok source (symbols (ex_symbols s))"
    using ds_grows_ok by (auto simp: extract_post_def ds_ok_def)
  then have "table_ok (symbols (ex_symbols s))" by (simp add: syms_ok_def)
  then obtain ds where "build_indexes (unindexed (symbols (ex_symbols s))) = Returns ds" "symbols ds = symbols (ex_symbols s)"
    by (rule build_indexes_value)
  with s(1) ok show ?thesis by (auto simp: extract_symbols_def extractor_finish_def)
qed

subsection \<open>A concrete tree\<close>

definition sample_class_tree :: node where
  "sample_class_tree = sample_node ''script'' 0 9 [sample_node CLASS_DECL 0 9 [sample_node IDENT 6 7 []]]"

lemma sample_children:
  "child_nodes (Place (sample_node k a b cs) up) =
     map (\<lambda>i. Place (cs ! i) ((i, sample_node k a b cs) # up)) [0..<length cs]"
  by (simp add: child_nodes_def nth_child_def sample_node_def)

lemma sample_class_places:
  "set (subplaces (Place sample_class_tree [])) =
     {Place sample_class_tree [],
      Place (sample_node CLASS_DECL 0 9 [sample_node IDENT 6 7 []]) [(0, sample_class_tree)],
      Place (sample_node IDENT 6 7 []) [(0, sample_node CLASS_DECL 0 9 [sample_node IDENT 6 7 []]), (0, sample_class_tree)]}"
proof -
  have "subplaces (Place (sample_node k a b []) up) = [Place (sample_node k a b []) up]" for k a b up
    by (subst subplaces.simps) (simp add: sample_children)
  then have "subplaces (Place (sample_node k a b [sample_node k' a' b' []]) up) =
      [Place (sample_node k a b [sample_node k' a' b' []]) up,
       Place (sample_node k' a' b' []) ((0, sample_node k a b [sample_node k' a' b' []]) # up)]" for k a b k' a' b' up
    by (subst subplaces.simps) (simp add: sample_children)
  then show ?thesis unfolding sample_class_tree_def by (subst subplaces.simps) (simp add: sample_children)
qed

lemma sample_class_in: "tree_in ''class A{}'' (Place sample_class_tree [])"
proof -
  have boundary: "list_all (is_char_boundary ''class A{}'') [0..<10]" by code_simp
  have "utf8_wf ''class A{}''" by code_simp
  moreover have "node_in ''class A{}'' (Place (sample_node k a b cs) up)" if "a \<le> b" "b < 10" for k a b cs up
    using boundary that
    by (simp add: node_in_def sample_node_def sample_info_def LineIndex_new_def vget_def list_all_iff)
  ultimately show ?thesis
    by (simp add: tree_in_def sample_class_places)
      (simp add: sample_class_tree_def sample_children encloses_def place_range_def,
       simp add: sample_node_def sample_info_def)
qed

subsection \<open>Properties\<close>

text \<open>
  C6: extraction from a tree of the source never panics, and the symbol table it builds is well
  formed: ids are positions, a container comes before its contents and its range encloses them,
  each name is the source text at its selection, which lies in the declaration, and the recorded
  line and column ranges are those of the byte ranges.  The indexes are built over exactly this
  table.
\<close>

theorem extracted_table_ok:
  assumes "tree_in source (Place root [])"
  shows "\<exists>ds. extract_symbols (Place root []) source (LineIndex_new source) = Returns ds \<and>
    syms_ok source (symbols ds) \<and> build_indexes (unindexed (symbols ds)) = Returns ds"
  using assms by (rule extraction_returns)

theorem extracted_table_ok_witness:
  "\<exists>ds. extract_symbols (Place sample_class_tree []) ''class A{}'' (LineIndex_new ''class A{}'') = Returns ds \<and>
     table_ok (symbols ds)"
  using extracted_table_ok [OF sample_class_in] by (auto simp: syms_ok_def)

end
