(* ===== verification/Document_Parse.thy ===== *)
theory Document_Parse
  imports Symbol_Extract
begin

text \<open>
  The syntax diagnostics of \<^verbatim>\<open>src/diagnostics/mod.rs\<close> and the parse of a document in
  \<^verbatim>\<open>src/document.rs\<close>: tree-sitter's tree is walked once by two fused visitors, which report
  syntax errors and build the symbol table.  \<open>display\<close> and \<open>format_tree\<close> only print and are not
  modelled.
\<close>

subsection \<open>Integer literals\<close>

text \<open>\<open>char::to_digit\<close> and \<open>u64::from_str_radix\<close>, whose error kinds the program does not look at.\<close>

definition to_digit :: "nat \<Rightarrow> char \<Rightarrow> nat option" where
  "to_digit radix c =
     (let n = of_char c;
          d = (if 48 \<le> n \<and> n \<le> 57 then Some (n - 48)
               else if 97 \<le> n \<and> n \<le> 122 then Some (n - 87)
               else if 65 \<le> n \<and> n \<le> 90 then Some (n - 55) else None)
      in filter_option (\<lambda>d. d < radix) d)"

fun parse_digits :: "nat \<Rightarrow> nat \<Rightarrow> string \<Rightarrow> nat option" where
  "parse_digits radix acc [] = Some acc"
| "parse_digits radix acc (c # cs) =
     (case to_digit radix c of
        None \<Rightarrow> None
      | Some d \<Rightarrow>
          (let v = acc * radix + d in if v < 2 ^ 64 then parse_digits radix v cs else None))"

definition u64_from_str_radix :: "nat \<Rightarrow> string \<Rightarrow> nat option" where
  "u64_from_str_radix radix s =
     (if s \<in> {[], ''+'', ''-''} then None
      else parse_digits radix 0 (if hd s = CHR ''+'' then tl s else s))"

definition int_literal_overflows :: "string \<Rightarrow> string \<Rightarrow> bool outcome" where
  "int_literal_overflows k text =
     (if k = LITERAL_HEX
      then obind (or_panic (slice text 2 (length text))) (\<lambda>digits.
             Returns (case u64_from_str_radix 16 digits of None \<Rightarrow> True | Some v \<Rightarrow> 2147483647 < v))
      else let (negative, digits) =
                 (case text of
                    [] \<Rightarrow> (False, text)
                  | c # cs \<Rightarrow> if c = CHR ''-'' then (True, cs)
                              else if c = CHR ''+'' then (False, cs) else (False, text));
               max = 2147483647 + (if negative then 1 else 0)
           in Returns (case u64_from_str_radix 10 digits of None \<Rightarrow> True | Some v \<Rightarrow> max < v))"

subsection \<open>Diagnostics\<close>

record parse_diagnostic =
  pd_kind :: string
  pd_message :: string
  pd_start :: point
  pd_end :: point
  pd_byte_range :: byte_range
  pd_snippet :: "string option"

definition line_snippet :: "string \<Rightarrow> nat \<Rightarrow> string option" where
  "line_snippet source r = vget (lines source) r"

definition syntax_diagnostic :: "place \<Rightarrow> string \<Rightarrow> string \<Rightarrow> string \<Rightarrow> parse_diagnostic" where
  "syntax_diagnostic p source k message =
     \<lparr>pd_kind = k, pd_message = message, pd_start = start_point (info (here p)),
      pd_end = end_point (info (here p)), pd_byte_range = place_range p,
      pd_snippet = line_snippet source (row (start_point (info (here p))))\<rparr>"

definition tree_error_diagnostic :: "place \<Rightarrow> string \<Rightarrow> parse_diagnostic" where
  "tree_error_diagnostic p source =
     syntax_diagnostic p source (kind_of p)
       (if is_missing (info (here p)) then ''Missing '' @ kind_of p else ''Syntax error'')"

definition collect_event_return_type :: "place \<Rightarrow> string \<Rightarrow> parse_diagnostic list \<Rightarrow> parse_diagnostic list outcome" where
  "collect_event_return_type event source ds =
     (case child_by_field_name RETURN_TYPE_FIELD event of
        None \<Rightarrow> Returns ds
      | Some return_type \<Rightarrow>
          obind (node_text source return_type) (\<lambda>text.
            Returns (if text \<noteq> ''void''
              then ds @ [syntax_diagnostic return_type source ''event_return_not_void''
                     ''An event's return type, if specified, must be void'']
              else ds)))"

definition is_bare_return :: "place \<Rightarrow> bool" where
  "is_bare_return return_stmt = list_all (\<lambda>c. kind_of c = COMMENT) (named_child_nodes return_stmt)"

definition is_inside_event :: "place \<Rightarrow> bool" where
  "is_inside_event p =
     (case find_ancestor_of_kind p [EVENT_DECL, FUNC_DECL] of
        None \<Rightarrow> False | Some a \<Rightarrow> kind_of a = EVENT_DECL)"

abbreviation quote :: string where
  "quote \<equiv> [CHR 0x27]"

definition collect_non_constant_default :: "place \<Rightarrow> string \<Rightarrow> parse_diagnostic list \<Rightarrow> parse_diagnostic list" where
  "collect_non_constant_default default_val source ds =
     (case child_by_field_name VALUE_FIELD default_val of
        None \<Rightarrow> ds
      | Some v \<Rightarrow>
          if kind_of v \<in> {FUNC_CALL_EXPR, NEW_EXPR}
          then ds @ [syntax_diagnostic v source ''non_constant_default''
                 (quote @ ''default'' @ quote @ '' values must be compile-time constants; calls and '' @
                  quote @ ''new'' @ quote @ '' are not'')]
          else ds)"

definition collect_hex_default :: "place \<Rightarrow> string \<Rightarrow> parse_diagnostic list \<Rightarrow> parse_diagnostic list outcome" where
  "collect_hex_default default_val source ds =
     (case child_by_field_name VALUE_FIELD default_val of
        None \<Rightarrow> Returns ds
      | Some v \<Rightarrow>
          if kind_of v \<noteq> LITERAL_HEX then Returns ds
          else obind (node_text source v) (\<lambda>text.
               obind (or_panic (slice text 2 (length text))) (\<lambda>digits.
                 if list_all (\<lambda>b. b = CHR ''0'') digits then Returns ds
                 else Returns (ds @ [syntax_diagnostic v source ''hex_default_zero''
                   (''Hex notation in a class '' @ quote @ ''default'' @ quote @
                    '' always sets the field to 0. Use normal decimal values.'')]))))"

definition PRIMITIVE_CAST_TARGETS :: "string list" where
  "PRIMITIVE_CAST_TARGETS = [''bool'', ''byte'', ''int'', ''float'', ''name'', ''string'']"

definition cast_targets_primitive :: "place \<Rightarrow> string \<Rightarrow> bool outcome" where
  "cast_targets_primitive cast source =
     (case child_by_field_name TYPE_FIELD cast of
        None \<Rightarrow> Returns False
      | Some target \<Rightarrow>
          obind (utf8_text source (here target)) (\<lambda>name.
            Returns (case name of None \<Rightarrow> False | Some n \<Rightarrow> n \<in> set PRIMITIVE_CAST_TARGETS)))"

fun cast_loop :: "string \<Rightarrow> place list \<Rightarrow> parse_diagnostic list \<Rightarrow> parse_diagnostic list outcome" where
  "cast_loop source [] ds = Returns ds"
| "cast_loop source (cast # casts) ds =
     obind (cast_targets_primitive cast source) (\<lambda>primitive.
       cast_loop source casts
         (if primitive then ds
          else ds @ [syntax_diagnostic cast source ''cast_in_var_init''
                 ''Only casts to primitive types are allowed in local variable initializers'']))"

definition collect_cast_in_var_init :: "place \<Rightarrow> string \<Rightarrow> parse_diagnostic list \<Rightarrow> parse_diagnostic list outcome" where
  "collect_cast_in_var_init decl source ds =
     (case child_by_field_name INIT_VALUE_FIELD decl of
        None \<Rightarrow> Returns ds
      | Some init_value \<Rightarrow>
          obind (collect_descendants_of_kind init_value [CAST_EXPR] []) (\<lambda>casts. cast_loop source casts ds))"

fun late_loop :: "string \<Rightarrow> place list \<Rightarrow> bool \<Rightarrow> parse_diagnostic list \<Rightarrow> parse_diagnostic list" where
  "late_loop source [] saw_code_statement ds = ds"
| "late_loop source (c # cs) saw_code_statement ds =
     (if \<not> is_named c \<or> kind_of c \<in> {COMMENT, NOP} then late_loop source cs saw_code_statement ds
      else if kind_of c = LOCAL_VAR_DECL_STMT then
        late_loop source cs saw_code_statement
          (if saw_code_statement
           then ds @ [syntax_diagnostic c source ''late_local_var_decl''
                  ''Local variable declarations must precede executable statements'']
           else ds)
      else late_loop source cs True ds)"

definition collect_late_local_vars_in_block :: "place \<Rightarrow> string \<Rightarrow> parse_diagnostic list \<Rightarrow> parse_diagnostic list" where
  "collect_late_local_vars_in_block block source ds = late_loop source (child_nodes block) False ds"

fun modifier_loop :: "string \<Rightarrow> place list \<Rightarrow> parse_diagnostic list \<Rightarrow> parse_diagnostic list outcome" where
  "modifier_loop source [] ds = Returns ds"
| "modifier_loop source (sp # sps) ds =
     (if kind_of sp \<noteq> SPECIFIER then modifier_loop source sps ds
      else obind (node_text source sp) (\<lambda>keyword.
        modifier_loop source sps
          (if keyword \<in> {''private'', ''protected'', ''public''}
           then ds @ [syntax_diagnostic sp source ''struct_property_access_modifier''
                  ''Accessibility modifiers cannot be applied to struct properties'']
           else ds)))"

fun prop_loop :: "string \<Rightarrow> place list \<Rightarrow> parse_diagnostic list \<Rightarrow> parse_diagnostic list outcome" where
  "prop_loop source [] ds = Returns ds"
| "prop_loop source (prop # props) ds =
     (if kind_of prop \<noteq> MEMBER_VAR_DECL then prop_loop source props ds
      else obind (modifier_loop source (child_nodes prop) ds) (prop_loop source props))"

definition collect_struct_prop_access_modifiers ::
  "place \<Rightarrow> string \<Rightarrow> parse_diagnostic list \<Rightarrow> parse_diagnostic list outcome" where
  "collect_struct_prop_access_modifiers struct_def source ds = prop_loop source (child_nodes struct_def) ds"

subsection \<open>The visitor\<close>

text \<open>\<open>SyntaxDiagnostics\<close> holds the source and the list it pushes to; the state here is the list.
  Each check of \<open>enter\<close> is one step.\<close>

abbreviation whenever :: "bool \<Rightarrow> ('a \<Rightarrow> 'a outcome) \<Rightarrow> 'a \<Rightarrow> 'a outcome" where
  "whenever c f x \<equiv> (if c then f x else Returns x)"

definition check_string_linefeed :: "place \<Rightarrow> string \<Rightarrow> parse_diagnostic list \<Rightarrow> parse_diagnostic list outcome" where
  "check_string_linefeed p source ds =
     obind (node_text source p) (\<lambda>text.
       Returns (if newline \<in> set text
         then ds @ [syntax_diagnostic p source ''string_linefeed'' ''String literals cannot contain a linefeed'']
         else ds))"

definition check_int_overflow :: "place \<Rightarrow> string \<Rightarrow> parse_diagnostic list \<Rightarrow> parse_diagnostic list outcome" where
  "check_int_overflow p source ds =
     obind (node_text source p) (\<lambda>text.
     obind (int_literal_overflows (kind_of p) text) (\<lambda>over.
       Returns (if over
         then ds @ [syntax_diagnostic p source ''int_overflow'' ''Integer literal overflows a 32-bit int'']
         else ds)))"

definition syntax_enter :: "string \<Rightarrow> place \<Rightarrow> parse_diagnostic list \<Rightarrow> (parse_diagnostic list \<times> visit) outcome" where
  "syntax_enter source p ds =
     obind (whenever (is_error (info (here p)) \<or> is_missing (info (here p)))
       (\<lambda>ds. Returns (ds @ [tree_error_diagnostic p source])) ds) (\<lambda>ds.
     obind (whenever (kind_of p = INCOMPLETE_MEMBER_ACCESS_EXPR)
       (\<lambda>ds. Returns (ds @ [syntax_diagnostic p source ''incomplete_member_access_expr''
         (''Incomplete member access: expected identifier after '' @ quote @ ''.'' @ quote)])) ds) (\<lambda>ds.
     obind (whenever (kind_of p = LITERAL_STRING) (check_string_linefeed p source) ds) (\<lambda>ds.
     obind (whenever (kind_of p \<in> {LITERAL_INT, LITERAL_HEX}) (check_int_overflow p source) ds) (\<lambda>ds.
     obind (whenever (kind_of p = EVENT_DECL) (collect_event_return_type p source) ds) (\<lambda>ds.
     obind (whenever (kind_of p = RETURN_STMT \<and> is_bare_return p \<and> is_inside_event p)
       (\<lambda>ds. Returns (ds @ [syntax_diagnostic p source ''event_bare_return''
         (''Events return bool; a bare '' @ quote @ ''return;'' @ quote @ '' cannot convert void to bool'')])) ds) (\<lambda>ds.
     obind (whenever (kind_of p \<in> {MEMBER_DEFAULT_VAL, MEMBER_DEFAULT_VAL_BLOCK_ASSIGN})
       (\<lambda>ds. collect_hex_default p source (collect_non_constant_default p source ds)) ds) (\<lambda>ds.
     obind (whenever (kind_of p = FUNC_BLOCK)
       (\<lambda>ds. Returns (collect_late_local_vars_in_block p source ds)) ds) (\<lambda>ds.
     obind (whenever (kind_of p = STRUCT_DEF) (collect_struct_prop_access_modifiers p source) ds) (\<lambda>ds.
     obind (whenever (kind_of p = LOCAL_VAR_DECL_STMT) (collect_cast_in_var_init p source) ds) (\<lambda>ds.
       Returns (ds, Children)))))))))))"

definition SyntaxDiagnostics :: "string \<Rightarrow> parse_diagnostic list visitor" where
  "SyntaxDiagnostics source = \<lparr>enter = syntax_enter source, leave = (\<lambda>_ ds. Returns ds)\<rparr>"

definition collect_diagnostics :: "place \<Rightarrow> string \<Rightarrow> parse_diagnostic list outcome" where
  "collect_diagnostics root source = walk root (SyntaxDiagnostics source) []"

subsection \<open>Parsing a document\<close>

record parsed_document =
  doc_source :: string
  doc_tree :: node
  doc_line_index :: line_index
  doc_diagnostics :: "parse_diagnostic list"
  doc_symbols :: document_symbols
  parse_version :: u64

datatype parse_error = LanguageError | NoTree

text \<open>\<open>PARSE_VERSION\<close> is a process-wide counter, passed in and returned; it wraps.  Tree-sitter's
  \<open>Parser::parse\<close> is a parameter, the tree it yields for a source and a prior tree.\<close>

type_synonym ts_parse = "string \<Rightarrow> node option \<Rightarrow> node option"

definition next_parse_version :: "u64 \<Rightarrow> u64 \<times> u64" where
  "next_parse_version counter = (counter, counter + 1)"

definition parse_document_with_prior ::
  "ts_parse \<Rightarrow> string \<Rightarrow> node option \<Rightarrow> u64 \<Rightarrow> ((parse_error + parsed_document) \<times> u64) outcome" where
  "parse_document_with_prior parse source prior counter =
     (case parse source prior of
        None \<Rightarrow> Returns (Inl NoTree, counter)
      | Some tree \<Rightarrow>
          (let li = LineIndex_new source
           in obind (walk (Place tree [])
                (Fused (SyntaxDiagnostics source) (symbol_extractor source li))
                (Fused_new [] SymbolExtractor_new)) (\<lambda>f.
              obind (extractor_finish (snd_state f)) (\<lambda>syms.
                let (version, counter) = next_parse_version counter
                in Returns (Inr \<lparr>doc_source = source, doc_tree = tree, doc_line_index = li,
                     doc_diagnostics = fst_state f, doc_symbols = syms, parse_version = version\<rparr>, counter)))))"

subsection \<open>Literals\<close>

definition digits_value :: "nat \<Rightarrow> nat \<Rightarrow> string \<Rightarrow> nat" where
  "digits_value radix acc s = foldl (\<lambda>a c. a * radix + the (to_digit radix c)) acc s"

definition is_digits :: "nat \<Rightarrow> string \<Rightarrow> bool" where
  "is_digits radix s \<longleftrightarrow> s \<noteq> [] \<and> list_all (\<lambda>c. to_digit radix c \<noteq> None) s"

lemma digits_value_ge: "0 < radix \<Longrightarrow> acc \<le> digits_value radix acc s"
proof (induction s arbitrary: acc)
  case (Cons c s)
  have "acc \<le> acc * radix + the (to_digit radix c)" using Cons.prems by (simp add: trans_le_add1)
  also have "\<dots> \<le> digits_value radix (acc * radix + the (to_digit radix c)) s" by (rule Cons.IH [OF Cons.prems])
  finally show ?case by (simp add: digits_value_def)
qed (simp add: digits_value_def)

lemma parse_digits_value:
  "0 < radix \<Longrightarrow> acc < 2 ^ 64 \<Longrightarrow> list_all (\<lambda>c. to_digit radix c \<noteq> None) s \<Longrightarrow>
   parse_digits radix acc s = (if digits_value radix acc s < 2 ^ 64 then Some (digits_value radix acc s) else None)"
proof (induction s arbitrary: acc)
  case (Cons c s)
  then obtain d where d: "to_digit radix c = Some d" by auto
  show ?case
  proof (cases "acc * radix + d < 2 ^ 64")
    case True
    with Cons d show ?thesis by (simp add: Let_def digits_value_def)
  next
    case False
    then have "\<not> digits_value radix (acc * radix + d) s < 2 ^ 64"
      using digits_value_ge [OF Cons.prems(1), of "acc * radix + d" s] by linarith
    with False d show ?thesis by (simp add: Let_def digits_value_def)
  qed
qed (simp add: digits_value_def)

lemma sign_not_digit: "to_digit radix (CHR ''+'') = None" "to_digit radix (CHR ''-'') = None"
  by (simp_all add: to_digit_def)

lemma digit_not_cont: "to_digit radix c \<noteq> None \<Longrightarrow> \<not> is_cont c"
proof -
  assume "to_digit radix c \<noteq> None"
  then have "(of_char c :: nat) < 128" by (auto simp: to_digit_def Let_def split: if_splits)
  then show ?thesis using ascii_of_code is_ascii_not_cont by blast
qed

lemma unsigned_parse:
  assumes "is_digits radix s" "0 < radix"
  shows "u64_from_str_radix radix s =
    (if digits_value radix 0 s < 2 ^ 64 then Some (digits_value radix 0 s) else None)"
proof -
  have "s \<notin> {[], ''+'', ''-''}" "hd s \<noteq> CHR ''+''"
    using assms(1) by (cases s; auto simp: is_digits_def sign_not_digit)+
  then show ?thesis
    using parse_digits_value [of radix 0 s] assms by (simp add: u64_from_str_radix_def is_digits_def)
qed

subsection \<open>The syntax pass does not panic\<close>

text \<open>A hexadecimal literal is at least its two characters of prefix.\<close>

definition hex_spelled :: "string \<Rightarrow> place \<Rightarrow> bool" where
  "hex_spelled source root \<longleftrightarrow>
     (\<forall>p \<in> set (subplaces root). kind_of p = LITERAL_HEX \<longrightarrow>
        (\<forall>t. node_text source p = Returns t \<longrightarrow> slice t 2 (length t) \<noteq> None))"

lemma hex_spelled_child: "hex_spelled source p \<Longrightarrow> q \<in> set (child_nodes p) \<Longrightarrow> hex_spelled source q"
  by (auto simp: hex_spelled_def subplaces.simps [of p])

lemma child_text:
  assumes "tree_in source p" "q \<in> set (child_nodes p)"
  shows "\<exists>t. node_text source q = Returns t"
  using node_text_returns [OF tree_in_node [OF tree_in_child [OF assms]]] by blast

lemma utf8_text_returns: "node_in source p \<Longrightarrow> \<exists>t. utf8_text source (here p) = Returns t"
  by (auto simp: utf8_text_def node_in_def Let_def dest: boundary_le)

lemma cast_loop_returns: "(\<And>c. c \<in> set cs \<Longrightarrow> tree_in source c) \<Longrightarrow> \<exists>r. cast_loop source cs ds = Returns r"
proof (induction cs arbitrary: ds)
  case (Cons c cs)
  have "\<exists>b. cast_targets_primitive c source = Returns b"
  proof (cases "child_by_field_name TYPE_FIELD c")
    case (Some t)
    then have "node_in source t" using Cons.prems tree_in_child tree_in_node field_child by (metis list.set_intros(1))
    then show ?thesis using utf8_text_returns [of source t] by (auto simp: cast_targets_primitive_def Some)
  qed (intro exI [of _ False], simp add: cast_targets_primitive_def)
  with Cons show ?case by fastforce
qed simp

lemma subplaces_tree_in: "tree_in source p \<Longrightarrow> q \<in> set (subplaces p) \<Longrightarrow> tree_in source q"
proof (induction p rule: subplaces.induct)
  case (1 p)
  then show ?case using tree_in_child by (auto simp: subplaces.simps [of p])
qed

lemma modifier_loop_returns:
  "(\<And>c. c \<in> set cs \<Longrightarrow> node_in source c) \<Longrightarrow> \<exists>r. modifier_loop source cs ds = Returns r"
proof (induction cs arbitrary: ds)
  case (Cons c cs)
  then obtain t where "node_text source c = Returns t" using node_text_returns [of source c] by auto
  with Cons show ?case by simp
qed simp

lemma prop_loop_returns:
  "(\<And>c. c \<in> set cs \<Longrightarrow> tree_in source c) \<Longrightarrow> \<exists>r. prop_loop source cs ds = Returns r"
proof (induction cs arbitrary: ds)
  case (Cons c cs)
  have "\<exists>r. modifier_loop source (child_nodes c) ds = Returns r" for ds
    using modifier_loop_returns [of "child_nodes c" source] tree_in_child [of source c] tree_in_node Cons.prems by simp
  then obtain r where r: "modifier_loop source (child_nodes c) ds = Returns r" by blast
  have "\<exists>r'. prop_loop source cs d = Returns r'" for d using Cons by simp
  with r show ?case by simp
qed simp

lemma checks_return:
  assumes p: "tree_in source p" and hex: "hex_spelled source p"
  shows "\<exists>r. check_string_linefeed p source ds = Returns r"
    "\<exists>r. check_int_overflow p source ds = Returns r"
    "\<exists>r. collect_event_return_type p source ds = Returns r"
    "\<exists>r. collect_hex_default p source ds = Returns r"
    "\<exists>r. collect_struct_prop_access_modifiers p source ds = Returns r"
    "\<exists>r. collect_cast_in_var_init p source ds = Returns r"
proof -
  obtain t where t: "node_text source p = Returns t" using node_text_returns [OF tree_in_node [OF p]] by blast
  then show "\<exists>r. check_string_linefeed p source ds = Returns r" by (simp add: check_string_linefeed_def)
  have "kind_of p = LITERAL_HEX \<longrightarrow> slice t 2 (length t) \<noteq> None" using hex t by (auto simp: hex_spelled_def)
  then have "\<exists>b. int_literal_overflows (kind_of p) t = Returns b"
    by (auto simp: int_literal_overflows_def Let_def split: list.splits if_splits)
  then show "\<exists>r. check_int_overflow p source ds = Returns r" by (auto simp: check_int_overflow_def t)
  show "\<exists>r. collect_event_return_type p source ds = Returns r"
    using child_text [OF p field_child]
    by (cases "child_by_field_name RETURN_TYPE_FIELD p") (fastforce simp: collect_event_return_type_def)+
  show "\<exists>r. collect_hex_default p source ds = Returns r"
  proof (cases "child_by_field_name VALUE_FIELD p")
    case (Some v)
    note v = field_child [OF Some]
    obtain u where u: "node_text source v = Returns u" using child_text [OF p v] by blast
    have "kind_of v = LITERAL_HEX \<longrightarrow> slice u 2 (length u) \<noteq> None"
      using hex_spelled_child [OF hex v] u by (auto simp: hex_spelled_def)
    then show ?thesis by (auto simp: collect_hex_default_def Some u)
  qed (simp add: collect_hex_default_def)
  show "\<exists>r. collect_struct_prop_access_modifiers p source ds = Returns r"
    unfolding collect_struct_prop_access_modifiers_def by (rule prop_loop_returns) (rule tree_in_child [OF p])
  show "\<exists>r. collect_cast_in_var_init p source ds = Returns r"
  proof (cases "child_by_field_name INIT_VALUE_FIELD p")
    case (Some v)
    have "\<exists>r. cast_loop source (filter (\<lambda>p. kind_of p \<in> set [CAST_EXPR]) (subplaces v)) ds = Returns r"
      by (rule cast_loop_returns) (use subplaces_tree_in tree_in_child [OF p field_child [OF Some]] in auto)
    then show ?thesis
      by (simp add: collect_cast_in_var_init_def Some collect_descendants_of_kind_def walk_is_visit collector_visit)
  qed (simp add: collect_cast_in_var_init_def)
qed

lemma obind_returns: "\<exists>y. m = Returns y \<Longrightarrow> (\<And>y. \<exists>z. f y = Returns z) \<Longrightarrow> \<exists>z. obind m f = Returns z"
  by auto

lemma syntax_enter_returns:
  assumes "tree_in source p" "hex_spelled source p"
  shows "\<exists>ds'. syntax_enter source p ds = Returns (ds', Children)"
proof -
  have "\<exists>z. syntax_enter source p ds = Returns z"
    unfolding syntax_enter_def
    by (intro obind_returns) (use checks_return [OF assms] in simp_all)
  then obtain ds' w where *: "syntax_enter source p ds = Returns (ds', w)" by auto
  then have "w = Children" unfolding syntax_enter_def by (auto simp: obind_Returns_iff)
  with * show ?thesis by blast
qed

interpretation syntax_pass: tree_invariant "SyntaxDiagnostics source"
  "\<lambda>p _. tree_in source p \<and> hex_spelled source p"
  "\<lambda>p _ _. tree_in source p \<and> hex_spelled source p" "\<lambda>_ _ _. True" for source
proof
  fix p q s s0 s'
  show "tree_in source p \<and> hex_spelled source p \<Longrightarrow> \<exists>s' w. enter (SyntaxDiagnostics source) p s = Returns (s', w) \<and>
      tree_in source p \<and> hex_spelled source p"
    using syntax_enter_returns [of source p s] by (auto simp: SyntaxDiagnostics_def)
  show "\<exists>s'. leave (SyntaxDiagnostics source) p s = Returns s' \<and> True" by (simp add: SyntaxDiagnostics_def)
  assume "tree_in source p \<and> hex_spelled source p" "q \<in> set (child_nodes p)"
  then show "tree_in source q \<and> hex_spelled source q" using tree_in_child hex_spelled_child by blast
qed

lemma parse_two_passes:
  assumes "\<And>tree. parse source prior = Some tree \<Longrightarrow> tree_in source (Place tree []) \<and> hex_spelled source (Place tree [])"
  shows "\<exists>r. parse_document_with_prior parse source prior n = Returns r \<and>
    (case parse source prior of
       None \<Rightarrow> r = (Inl NoTree, n)
     | Some tree \<Rightarrow> \<exists>doc. r = (Inr doc, n + 1) \<and> doc_source doc = source \<and> doc_tree doc = tree \<and>
         doc_line_index doc = LineIndex_new source \<and> parse_version doc = n \<and>
         collect_diagnostics (Place tree []) source = Returns (doc_diagnostics doc) \<and>
         extract_symbols (Place tree []) source (LineIndex_new source) = Returns (doc_symbols doc))"
proof (cases "parse source prior")
  case (Some tree)
  let ?root = "Place tree []"
  obtain diags where diags: "walk ?root (SyntaxDiagnostics source) [] = Returns diags"
    using syntax_pass.walk_post [where root = ?root] assms [OF Some] by blast
  obtain ds where ds: "extract_symbols ?root source (LineIndex_new source) = Returns ds"
    using extraction_returns assms [OF Some] by blast
  then obtain s where s: "walk ?root (symbol_extractor source (LineIndex_new source)) SymbolExtractor_new = Returns s"
    "extractor_finish s = Returns ds" by (auto simp: extract_symbols_def obind_Returns_iff)
  have "parse_document_with_prior parse source prior n =
      Returns (Inr \<lparr>doc_source = source, doc_tree = tree, doc_line_index = LineIndex_new source,
        doc_diagnostics = diags, doc_symbols = ds, parse_version = n\<rparr>, n + 1)"
    unfolding parse_document_with_prior_def Some Let_def option.case
      fused_walk [OF diags s(1)]
    by (simp add: Fused_new_def s(2) next_parse_version_def)
  with diags ds show ?thesis by (simp add: Some collect_diagnostics_def)
qed (simp add: parse_document_with_prior_def)

subsection \<open>Properties\<close>

text \<open>
  C36: an integer literal is reported exactly when its value is not a 32-bit signed integer,
  however many digits it has: the sign belongs to a decimal literal, and a hexadecimal literal
  must be at most \<open>i32::MAX\<close>.
\<close>

theorem int_literal_bounds:
  assumes "is_digits 10 ds" "is_digits 16 hs"
  shows "int_literal_overflows LITERAL_INT ds = Returns (\<not> int (digits_value 10 0 ds) < 2 ^ 31) \<and>
    int_literal_overflows LITERAL_INT (''+'' @ ds) = Returns (\<not> int (digits_value 10 0 ds) < 2 ^ 31) \<and>
    int_literal_overflows LITERAL_INT (''-'' @ ds) = Returns (\<not> - (2 ^ 31) \<le> - int (digits_value 10 0 ds)) \<and>
    int_literal_overflows LITERAL_HEX (''0x'' @ hs) = Returns (\<not> int (digits_value 16 0 hs) < 2 ^ 31)"
proof -
  have kinds: "LITERAL_INT \<noteq> LITERAL_HEX" by (simp add: kind_names)
  obtain c cs where ds: "ds = c # cs" using assms(1) by (cases ds) (auto simp: is_digits_def)
  then have signs: "c \<noteq> CHR ''-''" "c \<noteq> CHR ''+''"
    using assms(1) sign_not_digit [of 10] by (auto simp: is_digits_def)
  have hs: "slice (''0x'' @ hs) 2 (length (''0x'' @ hs)) = Some hs"
  proof -
    have "\<not> is_cont (hd hs)" "hs \<noteq> []"
      using assms(2) digit_not_cont [of 16 "hd hs"] by (auto simp: is_digits_def neq_Nil_conv)
    then have "is_char_boundary (''0x'' @ hs) 2" by (simp add: is_char_boundary_def nth_append hd_conv_nth)
    moreover have "is_char_boundary (''0x'' @ hs) (length (''0x'' @ hs))" by (rule boundary_length)
    ultimately show ?thesis by (simp add: slice_def)
  qed
  show ?thesis
    using kinds unsigned_parse [OF assms(1)] unsigned_parse [OF assms(2)] hs ds signs
    by (auto simp: int_literal_overflows_def Let_def)
qed

theorem int_literal_bounds_witness:
  "int_literal_overflows LITERAL_INT ''2147483648'' = Returns True \<and>
   int_literal_overflows LITERAL_INT ''-2147483648'' = Returns False \<and>
   int_literal_overflows LITERAL_HEX ''0x7fffffff'' = Returns False"
proof -
  have "is_digits 10 ''2147483648''" "is_digits 16 ''7fffffff''" by code_simp+
  moreover have "digits_value 10 0 ''2147483648'' = 2147483648" "digits_value 16 0 ''7fffffff'' = 2147483647"
    by (simp_all add: digits_value_def to_digit_def)
  ultimately show ?thesis using int_literal_bounds [of "''2147483648''" "''7fffffff''"] by simp
qed

text \<open>
  C13: parsing a document runs its two passes in one walk without mixing them up.  When tree-sitter
  gives a tree of the source, parsing returns a document whose diagnostics are those of the syntax
  pass alone and whose symbols are those of the extraction alone, and whose line index is that of
  the text; its version is the counter's, which moves on by one.  Without a tree parsing reports
  the error and takes no version.
\<close>

theorem parse_is_two_passes:
  assumes "\<And>tree. parse source prior = Some tree \<Longrightarrow> tree_in source (Place tree []) \<and> hex_spelled source (Place tree [])"
  shows "\<exists>r. parse_document_with_prior parse source prior n = Returns r \<and>
    (case parse source prior of
       None \<Rightarrow> r = (Inl NoTree, n)
     | Some tree \<Rightarrow> \<exists>doc. r = (Inr doc, n + 1) \<and> doc_source doc = source \<and> doc_tree doc = tree \<and>
         doc_line_index doc = LineIndex_new source \<and> parse_version doc = n \<and>
         collect_diagnostics (Place tree []) source = Returns (doc_diagnostics doc) \<and>
         extract_symbols (Place tree []) source (LineIndex_new source) = Returns (doc_symbols doc))"
  using assms by (rule parse_two_passes)

theorem parse_is_two_passes_witness:
  "\<exists>doc. parse_document_with_prior (\<lambda>_ _. Some sample_class_tree) ''class A{}'' None 7 = Returns (Inr doc, 8) \<and>
     extract_symbols (Place sample_class_tree []) ''class A{}'' (LineIndex_new ''class A{}'') =
       Returns (doc_symbols doc)"
proof -
  have "hex_spelled ''class A{}'' (Place sample_class_tree [])"
    unfolding hex_spelled_def sample_class_places
    by (simp add: sample_class_tree_def sample_node_def sample_info_def kind_names)
  then show ?thesis
    using parse_is_two_passes [of "\<lambda>_ _. Some sample_class_tree" "''class A{}''" None 7] sample_class_in by auto
qed

end
