(* ===== verification/Reaching_Defs.thy ===== *)
theory Reaching_Defs
  imports Cst_Walk Db_Lookup
begin

unbundle bit_operations_syntax

text \<open>
  \<^verbatim>\<open>src/resolve/reaching_defs.rs\<close> and the write sites of \<^verbatim>\<open>src/resolve/writes.rs\<close>: which
  definitions of a local variable can reach a read.  The analysis is a structured walk over the
  body of a function with sets of definitions as 128-bit masks.  Each method of the analyzer is a
  definition that takes the recursive call as an argument; \<open>eval_stmt\<close> ties the knot.
\<close>

subsection \<open>Write sites\<close>

datatype write_site =
    AssignTarget place | AssignBase place | OutArg place | ReceiverBase place

fun write_site_node :: "write_site \<Rightarrow> place" where
  "write_site_node (AssignTarget n) = n"
| "write_site_node (AssignBase n) = n"
| "write_site_node (OutArg n) = n"
| "write_site_node (ReceiverBase n) = n"

function lvalue_base_ident :: "place \<Rightarrow> place option" where
  "lvalue_base_ident expr =
     (if kind_of expr = IDENT then Some expr
      else if kind_of expr = MEMBER_ACCESS_EXPR then
        (case first_named_child expr of
           None \<Rightarrow> None
         | Some c \<Rightarrow> if kind_of c = THIS_EXPR then member_access_member expr else lvalue_base_ident c)
      else if kind_of expr = NESTED_EXPR then
        (case first_named_child expr of None \<Rightarrow> None | Some c \<Rightarrow> lvalue_base_ident c)
      else if kind_of expr = ARRAY_EXPR then
        (case child_by_field_name ACCESSOR_FIELD expr of None \<Rightarrow> None | Some a \<Rightarrow> lvalue_base_ident a)
      else None)"
  by pat_completeness auto
termination
  by (relation "measure (\<lambda>p. size (here p))") (auto simp: first_named_child_size field_child_size)

declare lvalue_base_ident.simps [simp del]

definition method_call_receiver_base :: "place \<Rightarrow> place option" where
  "method_call_receiver_base call =
     Option.bind (call_callee call) (\<lambda>callee.
       if kind_of callee \<noteq> MEMBER_ACCESS_EXPR then None
       else Option.bind (first_named_child callee) lvalue_base_ident)"

definition is_value_type :: "ty \<Rightarrow> symbol_db \<Rightarrow> bool run" where
  "is_value_type t db =
     (case t of
        Array _ \<Rightarrow> run_return True
      | Map _ _ \<Rightarrow> run_return True
      | Named name \<Rightarrow>
          run_bind (Some (db_find_top_level db name)) (\<lambda>d.
            run_return (case d of None \<Rightarrow> False | Some d \<Rightarrow> sym_kind (def_symbol d) = Struct))
      | _ \<Rightarrow> run_return False)"

subsection \<open>Definitions of a local\<close>

type_synonym mask = "128 word"

definition MAX_DEFS :: nat where
  "MAX_DEFS = 128"

record local_definition =
  ld_value :: "place option"
  ld_stmt :: "place option"
  ld_is_decl :: bool
  ld_owner :: place

record reaching_result =
  per_read :: "(byte_range \<times> nat option) list"
  all_defs :: "local_definition list"

definition direct_assign_value :: "place \<Rightarrow> place option" where
  "direct_assign_value target =
     Option.bind (find_ancestor_of_kind target [ASSIGN_OP_EXPR]) (\<lambda>assign.
       if map_option kind_of (child_by_field_name OP_FIELD assign) = Some ASSIGN_OP_DIRECT
       then child_by_field_name RIGHT_FIELD assign else None)"

definition mutation_def :: "write_site \<Rightarrow> local_definition" where
  "mutation_def w =
     (let n = write_site_node w
      in \<lparr>ld_value = (case w of AssignTarget _ \<Rightarrow> direct_assign_value n | _ \<Rightarrow> None),
          ld_stmt = find_ancestor_of_kind n [EXPR_STMT], ld_is_decl = False, ld_owner = n\<rparr>)"

definition build_defs :: "place \<Rightarrow> nat \<Rightarrow> write_site list \<Rightarrow> local_definition list" where
  "build_defs decl names_len mutations =
     \<lparr>ld_value = (if names_len = 1 then child_by_field_name INIT_VALUE_FIELD decl else None),
      ld_stmt = None, ld_is_decl = True, ld_owner = decl\<rparr> # map mutation_def mutations"

text \<open>\<open>count_ones() == 1\<close> and \<open>trailing_zeros\<close>.\<close>

definition sole_def :: "mask \<Rightarrow> nat option" where
  "sole_def m =
     (let ones = filter (bit m) [0..<128] in if length ones = 1 then Some (hd ones) else None)"

datatype pass = Learn | Record

record flow =
  fl_normal :: "mask option"
  fl_breaks :: "mask option"
  fl_continues :: "mask option"
  fl_returns :: "mask option"

definition flow_pass :: "mask \<Rightarrow> flow" where
  "flow_pass state = \<lparr>fl_normal = Some state, fl_breaks = None, fl_continues = None, fl_returns = None\<rparr>"

fun union_masks :: "mask option \<Rightarrow> mask option \<Rightarrow> mask option" where
  "union_masks (Some x) (Some y) = Some (x OR y)"
| "union_masks x None = x"
| "union_masks None x = x"

definition within :: "place \<Rightarrow> place \<Rightarrow> bool" where
  "within inner outer \<longleftrightarrow> from_byte outer \<le> from_byte inner \<and> to_byte inner \<le> to_byte outer"

subsection \<open>The analyzer\<close>

text \<open>The definitions and reads of an \<open>Analyzer\<close> do not change; its output does and is passed
  through.  \<open>max_by_key\<close> takes the last of the greatest.\<close>

record analyzer =
  an_defs :: "local_definition list"
  an_reads :: "byte_range list"

type_synonym 'r evaluation = "mask \<Rightarrow> pass \<Rightarrow> mask list \<Rightarrow> 'r \<times> mask list"

definition an_record :: "analyzer \<Rightarrow> place \<Rightarrow> mask \<Rightarrow> pass \<Rightarrow> mask list \<Rightarrow> mask list" where
  "an_record a region state ps out =
     (if ps = Learn then out
      else map2 (\<lambda>read m. if from_byte region \<le> br_start read \<and> br_end read \<le> to_byte region
                          then m OR state else m) (an_reads a) out)"

definition poison :: "analyzer \<Rightarrow> place \<Rightarrow> pass \<Rightarrow> mask list \<Rightarrow> mask list" where
  "poison a region ps out = an_record a region (- 1) ps out"

definition max_by_key :: "('a \<Rightarrow> nat) \<Rightarrow> 'a list \<Rightarrow> 'a option" where
  "max_by_key key xs =
     (case xs of
        [] \<Rightarrow> None
      | x # rest \<Rightarrow> Some (fold (\<lambda>y best. if key best \<le> key y then y else best) rest x))"

definition gen_in :: "analyzer \<Rightarrow> place \<Rightarrow> mask \<Rightarrow> mask" where
  "gen_in a region state =
     (case max_by_key (\<lambda>i. from_byte (ld_owner (an_defs a ! i)))
             (filter (\<lambda>i. within (ld_owner (an_defs a ! i)) region) [0..<length (an_defs a)]) of
        Some i \<Rightarrow> push_bit i 1
      | None \<Rightarrow> state)"

definition eval_leaf :: "analyzer \<Rightarrow> place \<Rightarrow> mask evaluation" where
  "eval_leaf a n state ps out = (gen_in a n state, an_record a n state ps out)"

definition record_field :: "analyzer \<Rightarrow> string \<Rightarrow> place \<Rightarrow> mask \<Rightarrow> pass \<Rightarrow> mask list \<Rightarrow> mask list" where
  "record_field a f p state ps out =
     (case child_by_field_name f p of None \<Rightarrow> out | Some c \<Rightarrow> an_record a c state ps out)"

definition join_exits :: "flow \<Rightarrow> flow \<Rightarrow> flow" where
  "join_exits f g =
     \<lparr>fl_normal = fl_normal g, fl_breaks = union_masks (fl_breaks f) (fl_breaks g),
      fl_continues = union_masks (fl_continues f) (fl_continues g),
      fl_returns = union_masks (fl_returns f) (fl_returns g)\<rparr>"

fun eval_block :: "(place \<Rightarrow> flow evaluation) \<Rightarrow> place list \<Rightarrow> flow \<Rightarrow> pass \<Rightarrow> mask list \<Rightarrow> flow \<times> mask list" where
  "eval_block ev [] fl ps out = (fl, out)"
| "eval_block ev (s # ss) fl ps out =
     (case fl_normal fl of
        None \<Rightarrow> (fl, out)
      | Some cur \<Rightarrow>
          (case ev s cur ps out of (nxt, out') \<Rightarrow> eval_block ev ss (join_exits fl nxt) ps out'))"

definition eval_body :: "(place \<Rightarrow> flow evaluation) \<Rightarrow> string \<Rightarrow> place \<Rightarrow> flow evaluation" where
  "eval_body ev f p state ps out =
     (case child_by_field_name f p of Some n \<Rightarrow> ev n state ps out | None \<Rightarrow> (flow_pass state, out))"

definition eval_if :: "analyzer \<Rightarrow> (place \<Rightarrow> flow evaluation) \<Rightarrow> place \<Rightarrow> flow evaluation" where
  "eval_if a ev p state ps out =
     (let out = record_field a COND_FIELD p state ps out;
          (t, out) = eval_body ev BODY_FIELD p state ps out;
          (e, out) = eval_body ev ELSE_FIELD p state ps out
      in (\<lparr>fl_normal = union_masks (fl_normal t) (fl_normal e),
           fl_breaks = union_masks (fl_breaks t) (fl_breaks e),
           fl_continues = union_masks (fl_continues t) (fl_continues e),
           fl_returns = union_masks (fl_returns t) (fl_returns e)\<rparr>, out))"

definition unwrap_or :: "'a option \<Rightarrow> 'a \<Rightarrow> 'a" where
  "unwrap_or x d = (case x of None \<Rightarrow> d | Some y \<Rightarrow> y)"

definition eval_while :: "analyzer \<Rightarrow> (place \<Rightarrow> flow evaluation) \<Rightarrow> place \<Rightarrow> flow evaluation" where
  "eval_while a ev p state ps out =
     (let (body1, out) = eval_body ev BODY_FIELD p state Learn out;
          header = unwrap_or (union_masks (Some state) (union_masks (fl_normal body1) (fl_continues body1))) state;
          out = record_field a COND_FIELD p header ps out;
          (body2, out) = eval_body ev BODY_FIELD p header ps out
      in (\<lparr>fl_normal = union_masks (Some header) (fl_breaks body2), fl_breaks = None, fl_continues = None,
           fl_returns = fl_returns body2\<rparr>, out))"

definition eval_do_while :: "analyzer \<Rightarrow> (place \<Rightarrow> flow evaluation) \<Rightarrow> place \<Rightarrow> flow evaluation" where
  "eval_do_while a ev p state ps out =
     (let (body1, out) = eval_body ev BODY_FIELD p state Learn out;
          entry = unwrap_or (union_masks (Some state) (union_masks (fl_normal body1) (fl_continues body1))) state;
          (body2, out) = eval_body ev BODY_FIELD p entry ps out;
          out = record_field a COND_FIELD p
            (unwrap_or (union_masks (fl_normal body2) (fl_continues body2)) entry) ps out
      in (\<lparr>fl_normal = union_masks (fl_normal body2) (fl_breaks body2), fl_breaks = None, fl_continues = None,
           fl_returns = fl_returns body2\<rparr>, out))"

definition eval_for :: "analyzer \<Rightarrow> (place \<Rightarrow> flow evaluation) \<Rightarrow> place \<Rightarrow> flow evaluation" where
  "eval_for a ev p state ps out =
     (let (entry, out) = (case child_by_field_name INIT_FIELD p of
                            None \<Rightarrow> (state, out) | Some init \<Rightarrow> eval_leaf a init state ps out);
          (body1, out) = eval_body ev BODY_FIELD p entry Learn out;
          after_body1 = unwrap_or (union_masks (fl_normal body1) (fl_continues body1)) entry;
          after_iter1 = (case child_by_field_name ITER_FIELD p of
                           None \<Rightarrow> after_body1 | Some iter \<Rightarrow> gen_in a iter after_body1);
          header = unwrap_or (union_masks (Some entry) (Some after_iter1)) entry;
          out = record_field a COND_FIELD p header ps out;
          (body2, out) = eval_body ev BODY_FIELD p header ps out;
          out = record_field a ITER_FIELD p
            (unwrap_or (union_masks (fl_normal body2) (fl_continues body2)) header) ps out
      in (\<lparr>fl_normal = union_masks (Some header) (fl_breaks body2), fl_breaks = None, fl_continues = None,
           fl_returns = fl_returns body2\<rparr>, out))"

text \<open>The state of the loop over the sections of a \<open>switch\<close>: where control can be, and the exits.\<close>

record sections_state =
  sec_cur :: "mask option"
  sec_breaks :: "mask option"
  sec_continues :: "mask option"
  sec_returns :: "mask option"
  has_default :: bool

fun eval_sections ::
  "analyzer \<Rightarrow> (place \<Rightarrow> flow evaluation) \<Rightarrow> mask \<Rightarrow> pass \<Rightarrow> place list \<Rightarrow> sections_state \<Rightarrow> mask list \<Rightarrow>
   sections_state \<times> mask list" where
  "eval_sections a ev entry ps [] st out = (st, out)"
| "eval_sections a ev entry ps (sec # secs) st out =
     (if kind_of sec = SWITCH_CASE_LABEL then
        eval_sections a ev entry ps secs (st\<lparr>sec_cur := union_masks (sec_cur st) (Some entry)\<rparr>)
          (record_field a VALUE_FIELD sec entry ps out)
      else if kind_of sec = SWITCH_DEFAULT_LABEL then
        eval_sections a ev entry ps secs
          (st\<lparr>has_default := True, sec_cur := union_masks (sec_cur st) (Some entry)\<rparr>) out
      else (case ev sec (unwrap_or (sec_cur st) entry) ps out of (fl, out') \<Rightarrow>
        eval_sections a ev entry ps secs
          (st\<lparr>sec_cur := fl_normal fl, sec_breaks := union_masks (sec_breaks st) (fl_breaks fl),
             sec_continues := union_masks (sec_continues st) (fl_continues fl),
             sec_returns := union_masks (sec_returns st) (fl_returns fl)\<rparr>) out'))"

definition eval_switch :: "analyzer \<Rightarrow> (place \<Rightarrow> flow evaluation) \<Rightarrow> place \<Rightarrow> flow evaluation" where
  "eval_switch a ev p state ps out =
     (let out = record_field a COND_FIELD p state ps out
      in case child_by_field_name BODY_FIELD p of
           None \<Rightarrow> (flow_pass state, out)
         | Some block \<Rightarrow>
             (let (st, out) = eval_sections a ev state ps (named_child_nodes block)
                    \<lparr>sec_cur = None, sec_breaks = None, sec_continues = None, sec_returns = None, has_default = False\<rparr> out;
                  normal = union_masks (sec_breaks st) (sec_cur st);
                  normal = (if has_default st then normal else union_masks normal (Some state))
              in (\<lparr>fl_normal = normal, fl_breaks = None, fl_continues = sec_continues st,
                   fl_returns = sec_returns st\<rparr>, out)))"

definition eval_step :: "analyzer \<Rightarrow> (place \<Rightarrow> flow evaluation) \<Rightarrow> place \<Rightarrow> flow evaluation" where
  "eval_step a ev p state ps out =
     (if kind_of p = FUNC_BLOCK then eval_block ev (named_child_nodes p) (flow_pass state) ps out
      else if kind_of p \<in> {LOCAL_VAR_DECL_STMT, EXPR_STMT, DELETE_STMT} then
        (case eval_leaf a p state ps out of (end', out) \<Rightarrow> (flow_pass end', out))
      else if kind_of p = RETURN_STMT then
        (case eval_leaf a p state ps out of (end', out) \<Rightarrow>
           (\<lparr>fl_normal = None, fl_breaks = None, fl_continues = None, fl_returns = Some end'\<rparr>, out))
      else if kind_of p = BREAK_STMT then
        (\<lparr>fl_normal = None, fl_breaks = Some state, fl_continues = None, fl_returns = None\<rparr>, out)
      else if kind_of p = CONTINUE_STMT then
        (\<lparr>fl_normal = None, fl_breaks = None, fl_continues = Some state, fl_returns = None\<rparr>, out)
      else if kind_of p = IF_STMT then eval_if a ev p state ps out
      else if kind_of p = WHILE_STMT then eval_while a ev p state ps out
      else if kind_of p = DO_WHILE_STMT then eval_do_while a ev p state ps out
      else if kind_of p = FOR_STMT then eval_for a ev p state ps out
      else if kind_of p = SWITCH_STMT then eval_switch a ev p state ps out
      else if kind_of p = NOP then (flow_pass state, out)
      else (flow_pass state, poison a p ps out))"

lemma eval_block_cong [fundef_cong]:
  "ss = ss' \<Longrightarrow> (\<And>q. q \<in> set ss' \<Longrightarrow> ev q = ev' q) \<Longrightarrow> fl = fl' \<Longrightarrow> ps = ps' \<Longrightarrow> out = out' \<Longrightarrow>
   eval_block ev ss fl ps out = eval_block ev' ss' fl' ps' out'"
proof (induction ss arbitrary: ss' fl fl' out out')
  case (Cons s ss)
  then have "ev s = ev' s" by auto
  with Cons show ?case by (auto split: option.split prod.split)
qed simp

lemma eval_sections_cong [fundef_cong]:
  "ss = ss' \<Longrightarrow> (\<And>q. q \<in> set ss' \<Longrightarrow> ev q = ev' q) \<Longrightarrow> en = en' \<Longrightarrow> ps = ps' \<Longrightarrow> st = st' \<Longrightarrow> out = out' \<Longrightarrow>
   eval_sections a ev en ps ss st out = eval_sections a ev' en' ps' ss' st' out'"
proof (induction ss arbitrary: ss' st st' out out')
  case (Cons s ss)
  then have "ev s = ev' s" by auto
  with Cons show ?case by (auto split: prod.split)
qed simp

lemma eval_step_cong [fundef_cong]:
  assumes "p = p'" "\<And>q. size (here q) < size (here p') \<Longrightarrow> ev q = ev' q"
  shows "eval_step a ev p = eval_step a ev' p'"
proof -
  have body: "eval_body ev f p' = eval_body ev' f p'" for f
    using assms(2) field_child_size by (auto simp: eval_body_def fun_eq_iff split: option.split)
  have block: "eval_block ev (named_child_nodes p') fl ps out = eval_block ev' (named_child_nodes p') fl ps out" for fl ps out
    using assms(2) named_child_size by (intro eval_block_cong) auto
  have switch: "eval_switch a ev p' = eval_switch a ev' p'"
  proof (cases "child_by_field_name BODY_FIELD p'")
    case (Some b)
    have "q \<in> set (named_child_nodes b) \<Longrightarrow> ev q = ev' q" for q
      using assms(2) [of q] named_child_size [of q b] field_child_size [OF Some] by simp
    then have "eval_sections a ev en ps (named_child_nodes b) st out = eval_sections a ev' en ps (named_child_nodes b) st out"
      for en ps st out by (intro eval_sections_cong) auto
    then show ?thesis by (simp add: eval_switch_def Some fun_eq_iff)
  qed (simp add: eval_switch_def fun_eq_iff)
  have "eval_if a ev p' = eval_if a ev' p'" "eval_while a ev p' = eval_while a ev' p'"
    "eval_do_while a ev p' = eval_do_while a ev' p'" "eval_for a ev p' = eval_for a ev' p'"
    by (intro ext; unfold eval_if_def eval_while_def eval_do_while_def eval_for_def body; rule refl)+
  then show ?thesis unfolding assms(1) by (intro ext) (unfold eval_step_def block switch, simp only:)
qed

function eval_stmt :: "analyzer \<Rightarrow> place \<Rightarrow> flow evaluation" where
  "eval_stmt a p = eval_step a (eval_stmt a) p"
  by pat_completeness auto
termination
  by (relation "measure (\<lambda>(a, p). size (here p))") auto

declare eval_stmt.simps [simp del]

definition reaching_defs :: "place \<Rightarrow> place \<Rightarrow> nat \<Rightarrow> write_site list \<Rightarrow> byte_range list \<Rightarrow> reaching_result" where
  "reaching_defs body decl names_len mutations reads =
     (let defs = build_defs decl names_len mutations
      in if MAX_DEFS < length defs then \<lparr>per_read = map (\<lambda>r. (r, None)) reads, all_defs = defs\<rparr>
         else let a = \<lparr>an_defs = defs, an_reads = reads\<rparr>;
                  out = snd (eval_block (eval_stmt a) (named_child_nodes body) (flow_pass 0) Record
                              (replicate (length reads) 0))
              in \<lparr>per_read = zip reads (map sole_def out), all_defs = defs\<rparr>)"

end
