(* ===== verification/Reaching_Sound.thy ===== *)
theory Reaching_Sound
  imports Reaching_Defs
begin

text \<open>
  Soundness of the analysis of \<^verbatim>\<open>src/resolve/reaching_defs.rs\<close>: the executions of a body as far as one
  local variable goes, the transfer functions of the analysis as gen-and-kill functions, and the
  proof that a definition reported as the only one reaching a read is the one an execution finds
  there.  The last part holds two small bodies for which the analysis is wrong.
\<close>

unbundle bit_operations_syntax

subsection \<open>Executions\<close>

text \<open>
  What the analysis is about: the executions of a statement, as far as the one variable goes.  The
  state is the definition that last ran, if any; an observation is a region of the text evaluated
  in a state.  A region may set the variable through any definition inside it.  An execution may
  also stop anywhere, so that the prefixes of endless executions are covered.
\<close>

datatype way_out = Falls | Broke | Continued | Returned | Stopped

type_synonym observation = "place \<times> nat option"

definition sets_in :: "local_definition list \<Rightarrow> place \<Rightarrow> nat set" where
  "sets_in D r = set (filter (\<lambda>i. within (ld_owner (D ! i)) r) [0..<length D])"

definition after :: "local_definition list \<Rightarrow> place \<Rightarrow> nat option \<Rightarrow> nat option \<Rightarrow> bool" where
  "after D r d d' \<longleftrightarrow> (if sets_in D r = {} then d' = d else \<exists>i \<in> sets_in D r. d' = Some i)"

definition test :: "local_definition list \<Rightarrow> place option \<Rightarrow> nat option \<Rightarrow> observation list \<Rightarrow> nat option \<Rightarrow> bool" where
  "test D c d os d' \<longleftrightarrow>
     (case c of None \<Rightarrow> os = [] \<and> d' = d | Some r \<Rightarrow> os = [(r, d)] \<and> after D r d d')"

definition goes_on :: "way_out \<Rightarrow> bool" where
  "goes_on e \<longleftrightarrow> e = Falls \<or> e = Continued"

definition out_of_loop :: "way_out \<Rightarrow> way_out" where
  "out_of_loop e = (if e = Broke then Falls else e)"

definition is_label :: "place \<Rightarrow> bool" where
  "is_label q \<longleftrightarrow> kind_of q = SWITCH_CASE_LABEL \<or> kind_of q = SWITCH_DEFAULT_LABEL"

definition case_values :: "place \<Rightarrow> place list" where
  "case_values block =
     List.map_filter (child_by_field_name VALUE_FIELD)
       (filter (\<lambda>q. kind_of q = SWITCH_CASE_LABEL) (named_child_nodes block))"

definition modelled_kinds :: "string set" where
  "modelled_kinds = {FUNC_BLOCK, LOCAL_VAR_DECL_STMT, EXPR_STMT, DELETE_STMT, RETURN_STMT, BREAK_STMT,
     CONTINUE_STMT, IF_STMT, WHILE_STMT, DO_WHILE_STMT, FOR_STMT, SWITCH_STMT, NOP}"

inductive runs :: "local_definition list \<Rightarrow> place \<Rightarrow> nat option \<Rightarrow> observation list \<Rightarrow> way_out \<Rightarrow> nat option \<Rightarrow> bool"
  and runs_opt :: "local_definition list \<Rightarrow> place option \<Rightarrow> nat option \<Rightarrow> observation list \<Rightarrow> way_out \<Rightarrow> nat option \<Rightarrow> bool"
  and runs_seq :: "local_definition list \<Rightarrow> bool \<Rightarrow> place list \<Rightarrow> nat option \<Rightarrow> observation list \<Rightarrow> way_out \<Rightarrow> nat option \<Rightarrow> bool"
  and loops :: "local_definition list \<Rightarrow> place option \<Rightarrow> place option \<Rightarrow> place option \<Rightarrow> nat option \<Rightarrow>
    observation list \<Rightarrow> way_out \<Rightarrow> nat option \<Rightarrow> bool"
  for D where
  stop: "runs D p d [] Stopped d"
| block: "kind_of p = FUNC_BLOCK \<Longrightarrow> runs_seq D False (named_child_nodes p) d os e d' \<Longrightarrow> runs D p d os e d'"
| simple: "kind_of p \<in> {LOCAL_VAR_DECL_STMT, EXPR_STMT, DELETE_STMT} \<Longrightarrow> after D p d d' \<Longrightarrow>
    runs D p d [(p, d)] Falls d'"
| return: "kind_of p = RETURN_STMT \<Longrightarrow> after D p d d' \<Longrightarrow> runs D p d [(p, d)] Returned d'"
| break: "kind_of p = BREAK_STMT \<Longrightarrow> runs D p d [] Broke d"
| continue: "kind_of p = CONTINUE_STMT \<Longrightarrow> runs D p d [] Continued d"
| if_then: "kind_of p = IF_STMT \<Longrightarrow> test D (child_by_field_name COND_FIELD p) d os d1 \<Longrightarrow>
    runs_opt D (child_by_field_name BODY_FIELD p) d1 os' e d' \<Longrightarrow> runs D p d (os @ os') e d'"
| if_else: "kind_of p = IF_STMT \<Longrightarrow> test D (child_by_field_name COND_FIELD p) d os d1 \<Longrightarrow>
    runs_opt D (child_by_field_name ELSE_FIELD p) d1 os' e d' \<Longrightarrow> runs D p d (os @ os') e d'"
| while_loop: "kind_of p = WHILE_STMT \<Longrightarrow>
    loops D (child_by_field_name COND_FIELD p) (child_by_field_name BODY_FIELD p) None d os e d' \<Longrightarrow> runs D p d os e d'"
| do_loop: "kind_of p = DO_WHILE_STMT \<Longrightarrow> runs_opt D (child_by_field_name BODY_FIELD p) d os e d1 \<Longrightarrow> goes_on e \<Longrightarrow>
    loops D (child_by_field_name COND_FIELD p) (child_by_field_name BODY_FIELD p) None d1 os' e' d' \<Longrightarrow>
    runs D p d (os @ os') e' d'"
| do_leave: "kind_of p = DO_WHILE_STMT \<Longrightarrow> runs_opt D (child_by_field_name BODY_FIELD p) d os e d' \<Longrightarrow> \<not> goes_on e \<Longrightarrow>
    runs D p d os (out_of_loop e) d'"
| for_loop: "kind_of p = FOR_STMT \<Longrightarrow> test D (child_by_field_name INIT_FIELD p) d os d1 \<Longrightarrow>
    loops D (child_by_field_name COND_FIELD p) (child_by_field_name BODY_FIELD p) (child_by_field_name ITER_FIELD p)
      d1 os' e d' \<Longrightarrow> runs D p d (os @ os') e d'"
| switch_no_body: "kind_of p = SWITCH_STMT \<Longrightarrow> test D (child_by_field_name COND_FIELD p) d os d' \<Longrightarrow>
    child_by_field_name BODY_FIELD p = None \<Longrightarrow> runs D p d os Falls d'"
| switch_past: "kind_of p = SWITCH_STMT \<Longrightarrow> test D (child_by_field_name COND_FIELD p) d os d' \<Longrightarrow>
    child_by_field_name BODY_FIELD p = Some b \<Longrightarrow>
    \<forall>q \<in> set (named_child_nodes b). kind_of q \<noteq> SWITCH_DEFAULT_LABEL \<Longrightarrow>
    runs D p d (os @ map (\<lambda>v. (v, d')) (case_values b)) Falls d'"
| switch_at: "kind_of p = SWITCH_STMT \<Longrightarrow> test D (child_by_field_name COND_FIELD p) d os d1 \<Longrightarrow>
    child_by_field_name BODY_FIELD p = Some b \<Longrightarrow> named_child_nodes b = before @ l # secs \<Longrightarrow> is_label l \<Longrightarrow>
    runs_seq D True secs d1 os' e d' \<Longrightarrow>
    runs D p d (os @ map (\<lambda>v. (v, d1)) (case_values b) @ os') (out_of_loop e) d'"
| nop: "kind_of p = NOP \<Longrightarrow> runs D p d [] Falls d"
| other: "kind_of p \<notin> modelled_kinds \<Longrightarrow> (\<And>i. x = Some i \<Longrightarrow> i < length D) \<Longrightarrow> runs D p d [(p, x)] Falls d"
| no_body: "runs_opt D None d [] Falls d"
| some_body: "runs D p d os e d' \<Longrightarrow> runs_opt D (Some p) d os e d'"
| seq_done: "runs_seq D skip [] d [] Falls d"
| seq_label: "is_label q \<Longrightarrow> runs_seq D True qs d os e d' \<Longrightarrow> runs_seq D True (q # qs) d os e d'"
| seq_next: "skip \<longrightarrow> \<not> is_label q \<Longrightarrow> runs D q d os Falls d1 \<Longrightarrow> runs_seq D skip qs d1 os' e d' \<Longrightarrow>
    runs_seq D skip (q # qs) d (os @ os') e d'"
| seq_leave: "skip \<longrightarrow> \<not> is_label q \<Longrightarrow> runs D q d os e d' \<Longrightarrow> e \<noteq> Falls \<Longrightarrow> runs_seq D skip (q # qs) d os e d'"
| loop_stop: "loops D c b i d [] Stopped d"
| loop_done: "test D c d os d' \<Longrightarrow> loops D c b i d os Falls d'"
| loop_again: "test D c d os d1 \<Longrightarrow> runs_opt D b d1 os1 e1 d2 \<Longrightarrow> goes_on e1 \<Longrightarrow> test D i d2 os2 d3 \<Longrightarrow>
    loops D c b i d3 os3 e d' \<Longrightarrow> loops D c b i d (os @ os1 @ os2 @ os3) e d'"
| loop_leave: "test D c d os d1 \<Longrightarrow> runs_opt D b d1 os1 e d' \<Longrightarrow> \<not> goes_on e \<Longrightarrow>
    loops D c b i d (os @ os1) (out_of_loop e) d'"

text \<open>What the analysis relies on: a simple statement sets the variable in one place at most,
  conditions not at all, and no \<open>continue\<close> stands in a \<open>do\<close> loop.\<close>

definition sets_at_most :: "nat \<Rightarrow> local_definition list \<Rightarrow> place option \<Rightarrow> bool" where
  "sets_at_most n D c \<longleftrightarrow> (case c of None \<Rightarrow> True | Some r \<Rightarrow> card (sets_in D r) \<le> n)"

definition analysable_at :: "local_definition list \<Rightarrow> place \<Rightarrow> bool" where
  "analysable_at D q \<longleftrightarrow>
     (kind_of q \<in> {LOCAL_VAR_DECL_STMT, EXPR_STMT, DELETE_STMT, RETURN_STMT} \<longrightarrow> card (sets_in D q) \<le> 1) \<and>
     sets_at_most 0 D (child_by_field_name COND_FIELD q) \<and>
     (kind_of q = FOR_STMT \<longrightarrow>
        sets_at_most 1 D (child_by_field_name INIT_FIELD q) \<and> sets_at_most 1 D (child_by_field_name ITER_FIELD q)) \<and>
     (kind_of q = DO_WHILE_STMT \<longrightarrow> list_all (\<lambda>c. kind_of c \<noteq> CONTINUE_STMT) (subplaces q))"

definition analysable :: "local_definition list \<Rightarrow> place \<Rightarrow> bool" where
  "analysable D p \<longleftrightarrow> list_all (analysable_at D) (subplaces p)"

subsection \<open>Sets of definitions\<close>

definition covers :: "mask \<Rightarrow> nat option \<Rightarrow> bool" where
  "covers m d \<longleftrightarrow> (case d of None \<Rightarrow> True | Some i \<Rightarrow> bit m i)"

definition covers_opt :: "mask option \<Rightarrow> nat option \<Rightarrow> bool" where
  "covers_opt m d \<longleftrightarrow> (\<exists>x. m = Some x \<and> covers x d)"

definition mask_le :: "mask \<Rightarrow> mask \<Rightarrow> bool" where
  "mask_le m n \<longleftrightarrow> (\<forall>i. bit m i \<longrightarrow> bit n i)"

lemma covers_simps [simp]: "covers m None" "covers m (Some i) \<longleftrightarrow> bit m i"
  by (simp_all add: covers_def)

lemma covers_or: "covers (m OR n) d \<longleftrightarrow> covers m d \<or> covers n d"
  by (cases d) (simp_all add: bit_or_iff)

lemma covers_le: "mask_le m n \<Longrightarrow> covers m d \<Longrightarrow> covers n d"
  by (cases d) (simp_all add: mask_le_def)

lemma covers_opt_Some [simp]: "covers_opt (Some m) d \<longleftrightarrow> covers m d"
  by (simp add: covers_opt_def)

lemma covers_opt_None [simp]: "\<not> covers_opt None d"
  by (simp add: covers_opt_def)

lemma covers_union: "covers_opt (union_masks x y) d \<longleftrightarrow> covers_opt x d \<or> covers_opt y d"
  by (cases x; cases y) (simp_all add: covers_or)

lemma unwrap_or_simps [simp]: "unwrap_or (Some x) d = x" "unwrap_or None d = d"
  by (simp_all add: unwrap_or_def)

lemma covers_unwrap: "covers_opt x d \<Longrightarrow> covers (unwrap_or x m) d"
  by (auto simp: covers_opt_def unwrap_or_def)

subsection \<open>Transfer functions are gen and kill\<close>

text \<open>Every exit of a statement is unreachable whatever the state, or has a fixed set of
  definitions, or that set and all of the state.\<close>

definition gen_kill :: "(mask \<Rightarrow> mask option) \<Rightarrow> bool" where
  "gen_kill f \<longleftrightarrow> (\<forall>st. f st = None) \<or> (\<exists>g. \<forall>st. f st = Some g) \<or> (\<exists>g. \<forall>st. f st = Some (g OR st))"

lemma gen_killE:
  assumes "gen_kill f"
  obtains "f = (\<lambda>st. None)" | g where "f = (\<lambda>st. Some g)" | g where "f = (\<lambda>st. Some (g OR st))"
  using assms unfolding gen_kill_def by (metis ext)

lemma gk_None [simp]: "gen_kill (\<lambda>st. None)"
  by (simp add: gen_kill_def)

lemma gk_id [simp]: "gen_kill Some" "gen_kill (\<lambda>st. Some st)"
proof -
  show "gen_kill (\<lambda>st. Some st)" unfolding gen_kill_def by (metis or.left_neutral)
  then show "gen_kill Some" by (simp add: gen_kill_def)
qed

lemma gk_const [simp]: "gen_kill (\<lambda>st. Some g)"
  by (auto simp: gen_kill_def)

lemma gk_or [simp]: "gen_kill (\<lambda>st. Some (g OR st))"
  by (auto simp: gen_kill_def)

lemma gk_union: "gen_kill f \<Longrightarrow> gen_kill h \<Longrightarrow> gen_kill (\<lambda>st. union_masks (f st) (h st))"
proof (elim gen_killE)
  fix g k
  show "f = (\<lambda>st. Some (g OR st)) \<Longrightarrow> h = (\<lambda>st. Some (k OR st)) \<Longrightarrow> ?thesis"
    using gk_or [of "g OR k"] by (simp add: or.assoc or.left_commute)
  show "f = (\<lambda>st. Some (g OR st)) \<Longrightarrow> h = (\<lambda>st. Some k) \<Longrightarrow> ?thesis"
    using gk_or [of "k OR g"] by (simp add: ac_simps)
  show "f = (\<lambda>st. Some g) \<Longrightarrow> h = (\<lambda>st. Some (k OR st)) \<Longrightarrow> ?thesis"
    using gk_or [of "g OR k"] by (simp add: ac_simps)
qed simp_all

lemma gk_state: "gen_kill (\<lambda>st. Some (s st)) \<Longrightarrow> gen_kill f \<Longrightarrow> gen_kill (\<lambda>st. f (s st))"
  by (elim gen_killE) (auto simp: fun_eq_iff or.assoc [symmetric])

lemma gk_unwrap: "gen_kill f \<Longrightarrow> gen_kill (\<lambda>st. Some (s st)) \<Longrightarrow> gen_kill (\<lambda>st. Some (unwrap_or (f st) (s st)))"
  by (elim gen_killE [of f]) (simp_all add: unwrap_or_def)

lemma gk_gen_in [simp]: "gen_kill (\<lambda>st. Some (gen_in a r st))"
  unfolding gen_in_def
  by (cases "max_by_key (\<lambda>i. from_byte (ld_owner (an_defs a ! i)))
               (filter (\<lambda>i. within (ld_owner (an_defs a ! i)) r) [0..<length (an_defs a)])") simp_all

text \<open>One round through a loop adds nothing after the first.\<close>

lemma gk_closed:
  assumes "gen_kill f" "\<And>d. covers_opt (f st) d \<Longrightarrow> covers h d" "\<And>d. covers st d \<Longrightarrow> covers h d" "covers_opt (f h) d"
  shows "covers h d"
  using assms by (elim gen_killE [of f]) (auto simp: covers_or)


subsection \<open>The flow of a statement does not depend on what is recorded\<close>

definition exits :: "flow \<Rightarrow> way_out \<Rightarrow> mask option" where
  "exits fl e = (case e of Falls \<Rightarrow> fl_normal fl | Broke \<Rightarrow> fl_breaks fl | Continued \<Rightarrow> fl_continues fl
     | Returned \<Rightarrow> fl_returns fl | Stopped \<Rightarrow> None)"

lemma exits_simps [simp]:
  "exits fl Falls = fl_normal fl" "exits fl Broke = fl_breaks fl" "exits fl Continued = fl_continues fl"
  "exits fl Returned = fl_returns fl" "exits fl Stopped = None"
  by (simp_all add: exits_def)

definition gk_flow :: "(mask \<Rightarrow> flow) \<Rightarrow> bool" where
  "gk_flow F \<longleftrightarrow> (\<forall>e. gen_kill (\<lambda>st. exits (F st) e))"

lemma gk_flowI:
  "gen_kill (\<lambda>st. fl_normal (F st)) \<Longrightarrow> gen_kill (\<lambda>st. fl_breaks (F st)) \<Longrightarrow> gen_kill (\<lambda>st. fl_continues (F st)) \<Longrightarrow>
   gen_kill (\<lambda>st. fl_returns (F st)) \<Longrightarrow> gk_flow F"
  unfolding gk_flow_def by (intro allI) (case_tac e; simp)

lemma gk_flowD:
  assumes "gk_flow F"
  shows "gen_kill (\<lambda>st. fl_normal (F st))" "gen_kill (\<lambda>st. fl_breaks (F st))"
    "gen_kill (\<lambda>st. fl_continues (F st))" "gen_kill (\<lambda>st. fl_returns (F st))"
  using assms [unfolded gk_flow_def, rule_format, of Falls] assms [unfolded gk_flow_def, rule_format, of Broke]
    assms [unfolded gk_flow_def, rule_format, of Continued] assms [unfolded gk_flow_def, rule_format, of Returned]
  by simp_all

lemma gk_flow_at: "gk_flow F \<Longrightarrow> gen_kill (\<lambda>st. Some (s st)) \<Longrightarrow> gk_flow (\<lambda>st. F (s st))"
  unfolding gk_flow_def using gk_state [of s "\<lambda>st. exits (F st) e" for e] by blast

lemma gk_flow_pass: "gen_kill (\<lambda>st. Some (s st)) \<Longrightarrow> gk_flow (\<lambda>st. flow_pass (s st))"
  by (rule gk_flowI) (simp_all add: flow_pass_def)

lemma gk_pass [simp]: "gk_flow flow_pass"
  using gk_flow_pass [of "\<lambda>st. st"] by simp

lemma gk_flow_join: "gk_flow F \<Longrightarrow> gk_flow G \<Longrightarrow> gk_flow (\<lambda>st. join_exits (F st) (G st))"
  by (rule gk_flowI) (simp_all add: join_exits_def gk_flowD gk_union)

definition grows :: "mask list \<Rightarrow> mask list \<Rightarrow> bool" where
  "grows out out' \<longleftrightarrow> list_all2 mask_le out out'"

lemma mask_le_refl [simp]: "mask_le m m"
  by (simp add: mask_le_def)

lemma mask_le_trans: "mask_le l m \<Longrightarrow> mask_le m n \<Longrightarrow> mask_le l n"
  by (simp add: mask_le_def)

lemma grows_refl [simp]: "grows out out"
  by (simp add: grows_def list_all2_refl)

lemma grows_trans [trans]: "grows o1 o2 \<Longrightarrow> grows o2 o3 \<Longrightarrow> grows o1 o3"
  unfolding grows_def by (rule list_all2_trans [OF mask_le_trans])

lemma grows_length: "grows o1 o2 \<Longrightarrow> length o2 = length o1"
  unfolding grows_def by (simp add: list_all2_lengthD)

lemma an_record_grows: "length out = length (an_reads a) \<Longrightarrow> grows out (an_record a r m ps out)"
  by (auto simp: an_record_def grows_def list_all2_conv_all_nth mask_le_def bit_or_iff)

lemma record_field_grows: "length out = length (an_reads a) \<Longrightarrow> grows out (record_field a f p m ps out)"
  by (simp add: record_field_def an_record_grows split: option.split)

text \<open>The flow an evaluation gives from a state; evaluations for which that is all, and which
  only add to what is recorded.\<close>

definition transfer :: "flow evaluation \<Rightarrow> mask \<Rightarrow> flow" where
  "transfer e st = fst (e st Record [])"

definition tame :: "analyzer \<Rightarrow> flow evaluation \<Rightarrow> bool" where
  "tame a e \<longleftrightarrow> (\<forall>st ps out. fst (e st ps out) = transfer e st) \<and> gk_flow (transfer e) \<and>
     (\<forall>st ps out. length out = length (an_reads a) \<longrightarrow> grows out (snd (e st ps out)))"

lemma tameI:
  assumes "\<And>st ps out. fst (e st ps out) = F st" "gk_flow F"
    "\<And>st ps out. length out = length (an_reads a) \<Longrightarrow> grows out (snd (e st ps out))"
  shows "tame a e"
proof -
  have "transfer e = F" by (simp add: transfer_def assms(1) fun_eq_iff)
  with assms show ?thesis by (simp add: tame_def)
qed

lemma tame_fst: "tame a e \<Longrightarrow> fst (e st ps out) = transfer e st"
  by (simp add: tame_def)

lemma tame_gk: "tame a e \<Longrightarrow> gk_flow (transfer e)"
  by (simp add: tame_def)

lemma tame_grows: "tame a e \<Longrightarrow> length out = length (an_reads a) \<Longrightarrow> grows out (snd (e st ps out))"
  by (simp add: tame_def)


lemma tame_then:
  "tame a e \<Longrightarrow> length out = length (an_reads a) \<Longrightarrow> grows out o' \<Longrightarrow> grows out (snd (e st ps o'))"
  by (metis tame_grows grows_length grows_trans)

lemma record_then: "length out = length (an_reads a) \<Longrightarrow> grows out o' \<Longrightarrow> grows out (record_field a f p m ps o')"
  by (metis record_field_grows grows_length grows_trans)

lemma tame_flow_pass: "tame a (\<lambda>st ps out. (flow_pass st, out))"
  by (rule tameI [where F = flow_pass]) simp_all

lemma tame_body:
  assumes "\<And>q. child_by_field_name f p = Some q \<Longrightarrow> tame a (ev q)"
  shows "tame a (eval_body ev f p)"
proof (cases "child_by_field_name f p")
  case None
  then have "eval_body ev f p = (\<lambda>st ps out. (flow_pass st, out))" by (simp add: eval_body_def fun_eq_iff)
  then show ?thesis by (simp only: tame_flow_pass)
next
  case (Some q)
  then have "eval_body ev f p = ev q" by (simp add: eval_body_def fun_eq_iff)
  then show ?thesis by (simp only: assms [OF Some])
qed

lemma block_fst:
  "(\<And>q. q \<in> set qs \<Longrightarrow> tame a (ev q)) \<Longrightarrow> fst (eval_block ev qs fl ps out) = fst (eval_block ev qs fl Record [])"
proof (induction qs arbitrary: fl ps out)
  case (Cons q qs)
  have "fst (eval_block ev qs fl' ps out') = fst (eval_block ev qs fl' Record out'')" for fl' ps out' out''
    using Cons.IH [of fl' ps out'] Cons.IH [of fl' Record out''] Cons.prems by simp
  moreover have "fst (ev q st ps out) = fst (ev q st Record [])" for st
    using tame_fst [OF Cons.prems, of q] by simp
  ultimately show ?case by (auto simp: case_prod_beta split: option.split)
qed simp

lemma block_gk:
  "(\<And>q. q \<in> set qs \<Longrightarrow> tame a (ev q)) \<Longrightarrow> gk_flow G \<Longrightarrow> gk_flow (\<lambda>st. fst (eval_block ev qs (G st) Record []))"
proof (induction qs arbitrary: G)
  case (Cons q qs)
  have rest: "fst (eval_block ev qs fl Record out') = fst (eval_block ev qs fl Record [])" for fl out'
    using Cons.prems(1) by (intro block_fst) auto
  have q: "tame a (ev q)" using Cons.prems(1) by simp
  have IH: "gk_flow G' \<Longrightarrow> gk_flow (\<lambda>st. fst (eval_block ev qs (G' st) Record []))" for G'
    using Cons.IH Cons.prems(1) by simp
  have step: "gk_flow (\<lambda>st. fst (eval_block ev (q # qs) (G st) Record []))"
    if s: "\<And>st. fl_normal (G st) = Some (s st)" for s
  proof -
    have "gen_kill (\<lambda>st. Some (s st))" using gk_flowD(1) [OF Cons.prems(2)] unfolding s .
    note IH [OF gk_flow_join [OF Cons.prems(2) gk_flow_at [OF tame_gk [OF q] this]]]
    moreover have "fst (eval_block ev (q # qs) (G st) Record []) =
        fst (eval_block ev qs (join_exits (G st) (transfer (ev q) (s st))) Record [])" for st
      using rest [of _ "snd (ev q (s st) Record [])"] tame_fst [OF q, of "s st" Record "[]"] s by (simp add: case_prod_beta)
    ultimately show ?thesis by (simp only:)
  qed
  from gk_flowD(1) [OF Cons.prems(2)] show ?case
  proof (cases rule: gen_killE)
    case 1
    then have "\<And>st. fl_normal (G st) = None" by metis
    then show ?thesis using Cons.prems(2) by simp
  next
    case (2 g)
    then show ?thesis by (intro step [of "\<lambda>_. g"]) metis
  next
    case (3 g)
    then show ?thesis by (intro step [of "\<lambda>st. g OR st"]) metis
  qed
qed simp

lemma block_grows:
  "(\<And>q. q \<in> set qs \<Longrightarrow> tame a (ev q)) \<Longrightarrow> length out = length (an_reads a) \<Longrightarrow>
   grows out (snd (eval_block ev qs fl ps out))"
proof (induction qs arbitrary: fl out)
  case (Cons q qs)
  have g: "grows out (snd (ev q st ps out))" for st
    using Cons.prems by (intro tame_grows [of a]) simp_all
  have "grows (snd (ev q st ps out)) (snd (eval_block ev qs fl' ps (snd (ev q st ps out))))" for st fl'
    using Cons.prems grows_length [OF g [of st]] by (intro Cons.IH) auto
  with g show ?case by (auto simp: case_prod_beta split: option.split intro: grows_trans)
qed simp

lemma tame_block:
  assumes "\<And>q. q \<in> set qs \<Longrightarrow> tame a (ev q)"
  shows "tame a (\<lambda>st. eval_block ev qs (flow_pass st))"
  by (rule tameI [where F = "\<lambda>st. fst (eval_block ev qs (flow_pass st) Record [])"])
    (use assms block_gk [OF assms gk_pass] in \<open>auto intro: block_fst block_grows\<close>)

subsection \<open>Branches and loops\<close>

lemmas gk_intros = gk_union gk_state gk_unwrap gk_flow_pass gk_flow_at gk_flowI

lemma if_fst:
  assumes "tame a (eval_body ev BODY_FIELD p)" "tame a (eval_body ev ELSE_FIELD p)"
  shows "fst (eval_if a ev p st ps out) =
    (let t = transfer (eval_body ev BODY_FIELD p) st; e = transfer (eval_body ev ELSE_FIELD p) st
     in \<lparr>fl_normal = union_masks (fl_normal t) (fl_normal e), fl_breaks = union_masks (fl_breaks t) (fl_breaks e),
         fl_continues = union_masks (fl_continues t) (fl_continues e),
         fl_returns = union_masks (fl_returns t) (fl_returns e)\<rparr>)"
  by (simp add: eval_if_def Let_def case_prod_beta tame_fst [OF assms(1)] tame_fst [OF assms(2)])

lemma tame_if:
  assumes "tame a (eval_body ev BODY_FIELD p)" "tame a (eval_body ev ELSE_FIELD p)"
  shows "tame a (eval_if a ev p)"
proof (rule tameI [OF if_fst [OF assms]])
  note gk = gk_flowD [OF tame_gk [OF assms(1)]] gk_flowD [OF tame_gk [OF assms(2)]]
  show "gk_flow (\<lambda>st. let t = transfer (eval_body ev BODY_FIELD p) st; e = transfer (eval_body ev ELSE_FIELD p) st
     in \<lparr>fl_normal = union_masks (fl_normal t) (fl_normal e), fl_breaks = union_masks (fl_breaks t) (fl_breaks e),
         fl_continues = union_masks (fl_continues t) (fl_continues e),
         fl_returns = union_masks (fl_returns t) (fl_returns e)\<rparr>)"
    by (rule gk_flowI) (simp_all add: Let_def gk gk_union)
next
  fix st ps and out :: "mask list" assume n: "length out = length (an_reads a)"
  show "grows out (snd (eval_if a ev p st ps out))"
    unfolding eval_if_def Let_def case_prod_beta
    by simp (intro tame_then [OF assms(1)] tame_then [OF assms(2)] record_then n grows_refl)
qed


lemma loop_body_gk:
  assumes "tame a (eval_body ev BODY_FIELD p)" "gen_kill (\<lambda>st. Some (s st))"
  shows "gen_kill (\<lambda>st. fl_normal (transfer (eval_body ev BODY_FIELD p) (s st)))"
    "gen_kill (\<lambda>st. fl_breaks (transfer (eval_body ev BODY_FIELD p) (s st)))"
    "gen_kill (\<lambda>st. fl_continues (transfer (eval_body ev BODY_FIELD p) (s st)))"
    "gen_kill (\<lambda>st. fl_returns (transfer (eval_body ev BODY_FIELD p) (s st)))"
  using gk_flowD [OF gk_flow_at [OF tame_gk [OF assms(1)] assms(2)]] by simp_all

definition back_edge :: "(mask \<Rightarrow> flow) \<Rightarrow> mask \<Rightarrow> mask" where
  "back_edge F st = unwrap_or (union_masks (Some st) (union_masks (fl_normal (F st)) (fl_continues (F st)))) st"

lemma gk_back_edge: "gk_flow F \<Longrightarrow> gen_kill (\<lambda>st. Some (back_edge F st))"
  unfolding back_edge_def by (intro gk_unwrap gk_union gk_flowD gk_id)

lemma while_fst:
  assumes "tame a (eval_body ev BODY_FIELD p)"
  shows "fst (eval_while a ev p st ps out) =
    (let F = transfer (eval_body ev BODY_FIELD p); h = back_edge F st
     in \<lparr>fl_normal = union_masks (Some h) (fl_breaks (F h)), fl_breaks = None, fl_continues = None,
         fl_returns = fl_returns (F h)\<rparr>)"
  by (simp add: eval_while_def Let_def case_prod_beta tame_fst [OF assms] back_edge_def)

lemma tame_while:
  assumes "tame a (eval_body ev BODY_FIELD p)"
  shows "tame a (eval_while a ev p)"
proof (rule tameI [OF while_fst [OF assms]])
  note gk = gk_back_edge [OF tame_gk [OF assms]]
  show "gk_flow (\<lambda>st. let F = transfer (eval_body ev BODY_FIELD p); h = back_edge F st
     in \<lparr>fl_normal = union_masks (Some h) (fl_breaks (F h)), fl_breaks = None, fl_continues = None,
         fl_returns = fl_returns (F h)\<rparr>)"
    by (rule gk_flowI) (simp_all add: Let_def gk loop_body_gk [OF assms gk] gk_union)
next
  fix st ps and out :: "mask list" assume n: "length out = length (an_reads a)"
  show "grows out (snd (eval_while a ev p st ps out))"
    unfolding eval_while_def Let_def case_prod_beta
    by simp (intro tame_then [OF assms] record_then n grows_refl)
qed

lemma do_while_fst:
  assumes "tame a (eval_body ev BODY_FIELD p)"
  shows "fst (eval_do_while a ev p st ps out) =
    (let F = transfer (eval_body ev BODY_FIELD p); h = back_edge F st
     in \<lparr>fl_normal = union_masks (fl_normal (F h)) (fl_breaks (F h)), fl_breaks = None, fl_continues = None,
         fl_returns = fl_returns (F h)\<rparr>)"
  by (simp add: eval_do_while_def Let_def case_prod_beta tame_fst [OF assms] back_edge_def)

lemma tame_do_while:
  assumes "tame a (eval_body ev BODY_FIELD p)"
  shows "tame a (eval_do_while a ev p)"
proof (rule tameI [OF do_while_fst [OF assms]])
  note gk = gk_back_edge [OF tame_gk [OF assms]]
  show "gk_flow (\<lambda>st. let F = transfer (eval_body ev BODY_FIELD p); h = back_edge F st
     in \<lparr>fl_normal = union_masks (fl_normal (F h)) (fl_breaks (F h)), fl_breaks = None, fl_continues = None,
         fl_returns = fl_returns (F h)\<rparr>)"
    by (rule gk_flowI) (simp_all add: Let_def gk loop_body_gk [OF assms gk] gk_union)
next
  fix st ps and out :: "mask list" assume n: "length out = length (an_reads a)"
  show "grows out (snd (eval_do_while a ev p st ps out))"
    unfolding eval_do_while_def Let_def case_prod_beta
    by simp (intro tame_then [OF assms] record_then n grows_refl)
qed

text \<open>The states of a \<open>for\<close> loop: after the initialiser, and at the condition.\<close>

definition gen_field :: "analyzer \<Rightarrow> string \<Rightarrow> place \<Rightarrow> mask \<Rightarrow> mask" where
  "gen_field a f p st = (case child_by_field_name f p of None \<Rightarrow> st | Some r \<Rightarrow> gen_in a r st)"

definition for_header :: "analyzer \<Rightarrow> (mask \<Rightarrow> flow) \<Rightarrow> place \<Rightarrow> mask \<Rightarrow> mask" where
  "for_header a F p st =
     (st OR gen_field a ITER_FIELD p (unwrap_or (union_masks (fl_normal (F st)) (fl_continues (F st))) st))"

lemma gk_gen_field: "gen_kill (\<lambda>st. Some (s st)) \<Longrightarrow> gen_kill (\<lambda>st. Some (gen_field a f p (s st)))"
  unfolding gen_field_def
  by (cases "child_by_field_name f p") (use gk_state [of s "\<lambda>st. Some (gen_in a r st)" for r] in simp_all)

lemma gk_for_header: 
  assumes "gk_flow F" 
  shows "gen_kill (\<lambda>st. Some (for_header a F p st))"
proof -
  have "gen_kill (\<lambda>st. union_masks (Some st)
      (Some (gen_field a ITER_FIELD p (unwrap_or (union_masks (fl_normal (F st)) (fl_continues (F st))) st))))"
    by (intro gk_union gk_gen_field gk_unwrap gk_flowD [OF assms] gk_id)
  then show ?thesis by (simp add: for_header_def)
qed

lemma for_fst:
  assumes "tame a (eval_body ev BODY_FIELD p)"
  shows "fst (eval_for a ev p st ps out) =
    (let F = transfer (eval_body ev BODY_FIELD p); h = for_header a F p (gen_field a INIT_FIELD p st)
     in \<lparr>fl_normal = union_masks (Some h) (fl_breaks (F h)), fl_breaks = None, fl_continues = None,
         fl_returns = fl_returns (F h)\<rparr>)"
  by (cases "child_by_field_name INIT_FIELD p"; cases "child_by_field_name ITER_FIELD p")
    (simp_all add: eval_for_def Let_def case_prod_beta tame_fst [OF assms] for_header_def gen_field_def eval_leaf_def)

lemma for_snd:
  assumes "tame a (eval_body ev BODY_FIELD p)"
  shows "snd (eval_for a ev p st ps out) =
    (let F = transfer (eval_body ev BODY_FIELD p); e = gen_field a INIT_FIELD p st; h = for_header a F p e;
         o1 = record_field a INIT_FIELD p st ps out; o2 = snd (eval_body ev BODY_FIELD p e Learn o1);
         o3 = record_field a COND_FIELD p h ps o2; o4 = snd (eval_body ev BODY_FIELD p h ps o3)
     in record_field a ITER_FIELD p (unwrap_or (union_masks (fl_normal (F h)) (fl_continues (F h))) h) ps o4)"
  by (cases "child_by_field_name INIT_FIELD p"; cases "child_by_field_name COND_FIELD p"; cases "child_by_field_name ITER_FIELD p")
    (simp_all add: eval_for_def Let_def case_prod_beta tame_fst [OF assms] for_header_def gen_field_def
      eval_leaf_def record_field_def)

lemma tame_for:
  assumes "tame a (eval_body ev BODY_FIELD p)"
  shows "tame a (eval_for a ev p)"
proof (rule tameI [OF for_fst [OF assms]])
  have gk: "gen_kill (\<lambda>st. Some (for_header a (transfer (eval_body ev BODY_FIELD p)) p (gen_field a INIT_FIELD p st)))"
    using gk_state [OF gk_gen_field [OF gk_id(2)] gk_for_header [OF tame_gk [OF assms]]] .
  show "gk_flow (\<lambda>st. let F = transfer (eval_body ev BODY_FIELD p); h = for_header a F p (gen_field a INIT_FIELD p st)
     in \<lparr>fl_normal = union_masks (Some h) (fl_breaks (F h)), fl_breaks = None, fl_continues = None,
         fl_returns = fl_returns (F h)\<rparr>)"
    by (rule gk_flowI) (simp_all add: Let_def gk loop_body_gk [OF assms gk] gk_union)
next
  fix st ps and out :: "mask list" assume n: "length out = length (an_reads a)"
  show "grows out (snd (eval_for a ev p st ps out))"
    unfolding for_snd [OF assms] Let_def by (intro tame_then [OF assms] record_then n grows_refl)
qed


text \<open>The sections of a \<open>switch\<close>: the exits collected so far, as a flow.\<close>

definition sections_flow :: "sections_state \<Rightarrow> flow" where
  "sections_flow S = \<lparr>fl_normal = sec_cur S, fl_breaks = sec_breaks S, fl_continues = sec_continues S,
     fl_returns = sec_returns S\<rparr>"

lemma sections_flow_simps [simp]:
  "fl_normal (sections_flow S) = sec_cur S" "fl_breaks (sections_flow S) = sec_breaks S"
  "fl_continues (sections_flow S) = sec_continues S" "fl_returns (sections_flow S) = sec_returns S"
  by (simp_all add: sections_flow_def)

lemma sections_fst:
  "(\<And>q. q \<in> set qs \<Longrightarrow> tame a (ev q)) \<Longrightarrow>
   fst (eval_sections a ev en ps qs S out) = fst (eval_sections a ev en Record qs S [])"
proof (induction qs arbitrary: S ps out)
  case (Cons q qs)
  have "fst (eval_sections a ev en ps qs S' out') = fst (eval_sections a ev en Record qs S' out'')" for S' ps out' out''
    using Cons.IH [of ps S' out'] Cons.IH [of Record S' out''] Cons.prems by simp
  moreover have "fst (ev q st ps out) = fst (ev q st Record [])" for st
    using tame_fst [OF Cons.prems, of q] by simp
  ultimately show ?case by (auto simp: case_prod_beta)
qed simp

lemma sections_gk:
  "(\<And>q. q \<in> set qs \<Longrightarrow> tame a (ev q)) \<Longrightarrow> gk_flow (\<lambda>st. sections_flow (S st)) \<Longrightarrow> (\<And>st. has_default (S st) = dflt) \<Longrightarrow>
   gk_flow (\<lambda>st. sections_flow (fst (eval_sections a ev st Record qs (S st) []))) \<and>
   (\<forall>st. has_default (fst (eval_sections a ev st Record qs (S st) [])) \<longleftrightarrow>
      dflt \<or> (\<exists>q \<in> set qs. kind_of q = SWITCH_DEFAULT_LABEL))"
proof (induction qs arbitrary: S dflt)
  case (Cons q qs)
  have rest: "fst (eval_sections a ev st Record qs S' out') = fst (eval_sections a ev st Record qs S' [])" for st S' out'
    using Cons.prems(1) by (intro sections_fst) auto
  have q: "tame a (ev q)" using Cons.prems(1) by simp
  note gk = gk_flowD [OF Cons.prems(2), simplified]
  have IH: "gk_flow (\<lambda>st. sections_flow (S' st)) \<Longrightarrow> (\<And>st. has_default (S' st) = d) \<Longrightarrow>
      gk_flow (\<lambda>st. sections_flow (fst (eval_sections a ev st Record qs (S' st) []))) \<and>
      (\<forall>st. has_default (fst (eval_sections a ev st Record qs (S' st) [])) \<longleftrightarrow>
        d \<or> (\<exists>q \<in> set qs. kind_of q = SWITCH_DEFAULT_LABEL))" for S' d
    using Cons.IH Cons.prems(1) by simp
  show ?case
  proof (cases "is_label q")
    case True
    have "gk_flow (\<lambda>st. sections_flow (S st\<lparr>sec_cur := union_masks (sec_cur (S st)) (Some st)\<rparr>))"
      "gk_flow (\<lambda>st. sections_flow (S st\<lparr>has_default := True, sec_cur := union_masks (sec_cur (S st)) (Some st)\<rparr>))"
      by (rule gk_flowI; simp add: gk gk_union)+
    note IH [OF this(1), of dflt] IH [OF this(2), of True]
    with True Cons.prems(3) show ?thesis
      using rest [of _ _ "record_field a VALUE_FIELD q st Record []" for st]
      by (auto simp: is_label_def SWITCH_CASE_LABEL_def SWITCH_DEFAULT_LABEL_def)
  next
    case False
    define S' where "S' st = (let fl = transfer (ev q) (unwrap_or (sec_cur (S st)) st) in
      S st\<lparr>sec_cur := fl_normal fl, sec_breaks := union_masks (sec_breaks (S st)) (fl_breaks fl),
           sec_continues := union_masks (sec_continues (S st)) (fl_continues fl),
           sec_returns := union_masks (sec_returns (S st)) (fl_returns fl)\<rparr>)" for st
    have "gen_kill (\<lambda>st. Some (unwrap_or (sec_cur (S st)) st))" by (intro gk_unwrap gk gk_id)
    note q_gk = gk_flowD [OF gk_flow_at [OF tame_gk [OF q] this]]
    have "gk_flow (\<lambda>st. sections_flow (S' st))"
      by (rule gk_flowI) (simp_all add: S'_def Let_def gk q_gk gk_union)
    note IH [OF this, of dflt]
    moreover have "fst (eval_sections a ev st Record (q # qs) (S st) []) =
        fst (eval_sections a ev st Record qs (S' st) [])" for st
      using False rest [of st _ "snd (ev q (unwrap_or (sec_cur (S st)) st) Record [])"]
        tame_fst [OF q, of "unwrap_or (sec_cur (S st)) st" Record "[]"]
      by (simp add: case_prod_beta is_label_def S'_def Let_def)
    moreover have "has_default (S' st) = dflt" for st by (simp add: S'_def Let_def Cons.prems(3))
    ultimately show ?thesis using False by (simp add: is_label_def)
  qed
qed simp

lemma sections_grows:
  "(\<And>q. q \<in> set qs \<Longrightarrow> tame a (ev q)) \<Longrightarrow> length out = length (an_reads a) \<Longrightarrow> grows out o' \<Longrightarrow>
   grows out (snd (eval_sections a ev en ps qs S o'))"
proof (induction qs arbitrary: S o')
  case (Cons q qs)
  have "tame a (ev q)" using Cons.prems(1) by simp
  note tame_then [OF this Cons.prems(2,3)] record_then [OF Cons.prems(2,3)]
  with Cons show ?case by (simp add: case_prod_beta)
qed simp

lemma tame_switch:
  assumes "\<And>b q. child_by_field_name BODY_FIELD p = Some b \<Longrightarrow> q \<in> set (named_child_nodes b) \<Longrightarrow> tame a (ev q)"
  shows "tame a (eval_switch a ev p)"
proof (cases "child_by_field_name BODY_FIELD p")
  case None
  then show ?thesis
    by (intro tameI [where F = flow_pass]) (simp_all add: eval_switch_def Let_def record_then)
next
  case (Some b)
  let ?S = "\<lparr>sec_cur = None, sec_breaks = None, sec_continues = None, sec_returns = None, has_default = False\<rparr>"
  let ?qs = "named_child_nodes b"
  let ?T = "\<lambda>st. fst (eval_sections a ev st Record ?qs ?S [])"
  let ?F = "\<lambda>st. \<lparr>fl_normal = (if has_default (?T st) then union_masks (sec_breaks (?T st)) (sec_cur (?T st))
        else union_masks (union_masks (sec_breaks (?T st)) (sec_cur (?T st))) (Some st)),
      fl_breaks = None, fl_continues = sec_continues (?T st), fl_returns = sec_returns (?T st)\<rparr>"
  have q: "\<And>q. q \<in> set ?qs \<Longrightarrow> tame a (ev q)" using assms Some by simp
  have fst: "fst (eval_switch a ev p st ps out) = ?F st" for st ps out
    by (simp add: eval_switch_def Let_def case_prod_beta Some sections_fst [OF q, of ?qs, where ps = ps])
  have "gk_flow (\<lambda>st. sections_flow ?S)" by (rule gk_flowI) simp_all
  note gk = sections_gk [where qs = ?qs and dflt = False, OF q this, simplified]
  note gks = gk_flowD [OF conjunct1 [OF gk], simplified]
  have "gk_flow ?F"
    by (rule gk_flowI; cases "\<exists>q \<in> set ?qs. kind_of q = SWITCH_DEFAULT_LABEL")
      (simp_all add: gk gks gk_union)
  moreover have "length out = length (an_reads a) \<Longrightarrow> grows out (snd (eval_switch a ev p st ps out))" for st ps out
    by (simp add: eval_switch_def Let_def case_prod_beta Some sections_grows [OF q] record_then)
  ultimately show ?thesis using fst by (intro tameI)
qed


lemma tame_cond:
  "(c \<Longrightarrow> tame a f) \<Longrightarrow> (\<not> c \<Longrightarrow> tame a g) \<Longrightarrow> tame a (\<lambda>st ps out. if c then f st ps out else g st ps out)"
  by (cases c) simp_all

lemma tame_eval: "tame a (eval_stmt a p)"
proof (induction "size (here p)" arbitrary: p rule: less_induct)
  case less
  then have named: "q \<in> set (named_child_nodes p) \<Longrightarrow> tame a (eval_stmt a q)" for q by (simp add: named_child_size)
  have body: "tame a (eval_body (eval_stmt a) f p)" for f
    by (rule tame_body) (use less in \<open>simp add: field_child_size\<close>)
  have switch: "tame a (eval_switch a (eval_stmt a) p)"
  proof (rule tame_switch)
    fix b q assume "child_by_field_name BODY_FIELD p = Some b" "q \<in> set (named_child_nodes b)"
    then have "size (here q) < size (here p)" using field_child_size named_child_size less_trans by blast
    then show "tame a (eval_stmt a q)" using less by simp
  qed
  have leaf: "tame a (\<lambda>st ps out. (F (gen_in a p st), an_record a p st ps out))"
    if "gk_flow (\<lambda>st. F (gen_in a p st))" for F
    by (rule tameI [OF _ that]) (simp_all add: an_record_grows)
  have simple: "gk_flow (\<lambda>st. flow_pass (gen_in a p st))" by (rule gk_flow_pass) simp
  have ret: "gk_flow (\<lambda>st. \<lparr>fl_normal = None, fl_breaks = None, fl_continues = None, fl_returns = Some (gen_in a p st)\<rparr>)"
    by (rule gk_flowI) simp_all
  have "tame a (\<lambda>st ps out. (\<lparr>fl_normal = None, fl_breaks = Some st, fl_continues = None, fl_returns = None\<rparr>, out))"
    "tame a (\<lambda>st ps out. (\<lparr>fl_normal = None, fl_breaks = None, fl_continues = Some st, fl_returns = None\<rparr>, out))"
    "tame a (\<lambda>st ps out. (flow_pass st, poison a p ps out))"
    by (rule tameI, rule fst_conv, rule gk_flowI, simp_all add: poison_def an_record_grows flow_pass_def)+
  note tames = this tame_block [OF named] tame_if [OF body body] tame_while [OF body] tame_do_while [OF body]
    tame_for [OF body] switch tame_flow_pass leaf [OF simple] leaf [OF ret]
  have "tame a (\<lambda>st ps out. eval_step a (eval_stmt a) p st ps out)"
    unfolding eval_step_def eval_leaf_def prod.case by (intro tame_cond tames)
  then show ?case by (simp add: eval_stmt.simps [of a p])
qed


subsection \<open>Soundness\<close>

definition seen :: "analyzer \<Rightarrow> mask list \<Rightarrow> observation list \<Rightarrow> bool" where
  "seen a out os \<longleftrightarrow>
     (\<forall>(r, x) \<in> set os. \<forall>j < length out.
        from_byte r \<le> br_start (an_reads a ! j) \<and> br_end (an_reads a ! j) \<le> to_byte r \<longrightarrow> covers (out ! j) x)"

lemma seen_simps [simp]: "seen a out []" "seen a out (os @ os') \<longleftrightarrow> seen a out os \<and> seen a out os'"
  by (auto simp: seen_def)

lemma seen_grows:
  assumes "seen a out os" "grows out out'"
  shows "seen a out' os"
  unfolding seen_def
proof (intro ballI, clarify)
  fix r x j
  assume "(r, x) \<in> set os" "j < length out'" "from_byte r \<le> br_start (an_reads a ! j)" "br_end (an_reads a ! j) \<le> to_byte r"
  moreover from assms(2) have "length out' = length out" "j < length out \<Longrightarrow> mask_le (out ! j) (out' ! j)"
    by (simp_all add: grows_def list_all2_conv_all_nth)
  ultimately show "covers (out' ! j) x" using assms(1) covers_le by (fastforce simp: seen_def)
qed

lemma seen_record:
  "covers m x \<Longrightarrow> length out = length (an_reads a) \<Longrightarrow> seen a (an_record a r m Record out) [(r, x)]"
  by (simp add: seen_def an_record_def covers_or)

lemma max_by_key_in: "max_by_key key xs = Some y \<Longrightarrow> y \<in> set xs"
proof -
  have "fold (\<lambda>y best. if key best \<le> key y then y else best) ys x \<in> insert x (set ys)" for ys x
    by (induction ys arbitrary: x) auto
  then show "max_by_key key xs = Some y \<Longrightarrow> y \<in> set xs" by (auto simp: max_by_key_def split: list.splits)
qed

lemma max_by_key_None: "max_by_key key xs = None \<longleftrightarrow> xs = []"
  by (simp add: max_by_key_def split: list.split)

lemma gen_in_covers:
  assumes "length (an_defs a) \<le> MAX_DEFS" "card (sets_in (an_defs a) r) \<le> 1" "after (an_defs a) r d d'" "covers st d"
  shows "covers (gen_in a r st) d'"
proof -
  let ?is = "filter (\<lambda>i. within (ld_owner (an_defs a ! i)) r) [0..<length (an_defs a)]"
  have set: "set ?is = sets_in (an_defs a) r" by (simp add: sets_in_def)
  show ?thesis
  proof (cases "max_by_key (\<lambda>i. from_byte (ld_owner (an_defs a ! i))) ?is")
    case None
    then have "sets_in (an_defs a) r = {}" by (simp add: max_by_key_None flip: set)
    with assms None show ?thesis by (simp add: gen_in_def after_def)
  next
    case (Some i)
    then have i: "i \<in> sets_in (an_defs a) r" using max_by_key_in [OF Some] unfolding set by simp
    moreover have "finite (sets_in (an_defs a) r)" by (simp add: sets_in_def)
    then have "j \<in> sets_in (an_defs a) r \<Longrightarrow> j = i" for j
      using card_le_Suc0_iff_eq [of "sets_in (an_defs a) r"] assms(2) i by simp
    moreover from i have "sets_in (an_defs a) r \<noteq> {}" by blast
    with assms(3) obtain j where "j \<in> sets_in (an_defs a) r" "d' = Some j" unfolding after_def by (simp only: if_False) blast
    ultimately have "d' = Some i" by blast
    moreover have "i < 128" using i assms(1) by (simp add: sets_in_def MAX_DEFS_def)
    ultimately show ?thesis using Some by (simp add: gen_in_def bit_exp_iff possible_bit_word)
  qed
qed

lemma test_seen:
  "test D (child_by_field_name f p) d os d' \<Longrightarrow> covers m d \<Longrightarrow> length out = length (an_reads a) \<Longrightarrow>
   seen a (record_field a f p m Record out) os"
  by (auto simp: test_def record_field_def seen_record split: option.splits)

lemma test_same:
  "test D c d os d' \<Longrightarrow> (\<And>r. c = Some r \<Longrightarrow> sets_in D r = {}) \<Longrightarrow> d' = d"
  by (auto simp: test_def after_def split: option.splits)

lemma test_covers:
  "test (an_defs a) (child_by_field_name f p) d os d' \<Longrightarrow> covers m d \<Longrightarrow> length (an_defs a) \<le> MAX_DEFS \<Longrightarrow>
   (\<And>r. child_by_field_name f p = Some r \<Longrightarrow> card (sets_in (an_defs a) r) \<le> 1) \<Longrightarrow> covers (gen_field a f p m) d'"
  by (auto simp: test_def gen_field_def gen_in_covers split: option.splits)

definition good_exit :: "flow \<Rightarrow> way_out \<Rightarrow> nat option \<Rightarrow> bool" where
  "good_exit fl e d \<longleftrightarrow> e = Stopped \<or> covers_opt (exits fl e) d"

lemma good_exit_simps [simp]:
  "good_exit fl Falls d \<longleftrightarrow> covers_opt (fl_normal fl) d" "good_exit fl Broke d \<longleftrightarrow> covers_opt (fl_breaks fl) d"
  "good_exit fl Continued d \<longleftrightarrow> covers_opt (fl_continues fl) d" "good_exit fl Returned d \<longleftrightarrow> covers_opt (fl_returns fl) d"
  "good_exit fl Stopped d"
  by (simp_all add: good_exit_def)

definition sound :: "analyzer \<Rightarrow> (nat option \<Rightarrow> observation list \<Rightarrow> way_out \<Rightarrow> nat option \<Rightarrow> bool) \<Rightarrow> flow evaluation \<Rightarrow> bool" where
  "sound a R ev \<longleftrightarrow>
     (\<forall>d os e d' st out. R d os e d' \<longrightarrow> covers st d \<longrightarrow> length out = length (an_reads a) \<longrightarrow>
        good_exit (transfer ev st) e d' \<and> seen a (snd (ev st Record out)) os)"

lemma soundI:
  "(\<And>d os e d' st out. R d os e d' \<Longrightarrow> covers st d \<Longrightarrow> length out = length (an_reads a) \<Longrightarrow>
     good_exit (transfer ev st) e d' \<and> seen a (snd (ev st Record out)) os) \<Longrightarrow> sound a R ev"
  by (simp add: sound_def)

lemma soundD:
  "sound a R ev \<Longrightarrow> R d os e d' \<Longrightarrow> covers st d \<Longrightarrow> length out = length (an_reads a) \<Longrightarrow> good_exit (transfer ev st) e d'"
  "sound a R ev \<Longrightarrow> R d os e d' \<Longrightarrow> covers st d \<Longrightarrow> length out = length (an_reads a) \<Longrightarrow> seen a (snd (ev st Record out)) os"
  by (simp_all add: sound_def)

inductive_cases runs_optE: "runs_opt D c d os e d'"
inductive_cases seq_NilE: "runs_seq D skip [] d os e d'"
inductive_cases seq_ConsE: "runs_seq D skip (q # qs) d os e d'"

lemma seq_cases:
  assumes "runs_seq D skip (q # qs) d os e d'"
  obtains (label) skip "is_label q" "runs_seq D True qs d os e d'"
  | (go_on) os1 d1 os2 where "os = os1 @ os2" "\<not> (skip \<and> is_label q)" "runs D q d os1 Falls d1" "runs_seq D skip qs d1 os2 e d'"
  | (leave) "\<not> (skip \<and> is_label q)" "runs D q d os e d'" "e \<noteq> Falls"
  using assms by (elim seq_ConsE) blast+

lemma sound_body:
  assumes "\<And>q. child_by_field_name f p = Some q \<Longrightarrow> sound a (runs D q) (eval_stmt a q)"
  shows "sound a (runs_opt D (child_by_field_name f p)) (eval_body (eval_stmt a) f p)"
proof (cases "child_by_field_name f p")
  case None
  then show ?thesis
    by (intro soundI) (auto elim!: runs_optE simp: eval_body_def transfer_def flow_pass_def)
next
  case (Some q)
  then have "eval_body (eval_stmt a) f p = eval_stmt a q" by (simp add: eval_body_def fun_eq_iff)
  with assms [OF Some] show ?thesis by (auto simp: sound_def Some elim!: runs_optE)
qed

lemma block_keeps:
  "e \<noteq> Falls \<Longrightarrow> good_exit fl e d \<Longrightarrow> good_exit (fst (eval_block ev qs fl ps out)) e d"
proof (induction qs arbitrary: fl out)
  case (Cons q qs)
  have "good_exit (join_exits fl nxt) e d" for nxt
    using Cons.prems by (cases e) (auto simp: join_exits_def covers_union)
  with Cons show ?case by (auto simp: case_prod_beta split: option.split)
qed simp

lemma sound_block:
  assumes "\<And>q. q \<in> set qs \<Longrightarrow> sound a (runs D q) (eval_stmt a q)"
  shows "runs_seq D False qs d os e d' \<Longrightarrow> fl_normal fl = Some st \<Longrightarrow> covers st d \<Longrightarrow> length out = length (an_reads a) \<Longrightarrow>
    good_exit (fst (eval_block (eval_stmt a) qs fl Record out)) e d' \<and>
    seen a (snd (eval_block (eval_stmt a) qs fl Record out)) os"
  using assms
proof (induction qs arbitrary: d os fl st out)
  case Nil
  then show ?case by (auto elim: seq_NilE)
next
  case (Cons q qs)
  have q: "sound a (runs D q) (eval_stmt a q)" using Cons.prems by simp
  let ?o = "snd (eval_stmt a q st Record out)" and ?fl = "join_exits fl (transfer (eval_stmt a q) st)"
  have eq: "eval_block (eval_stmt a) (q # qs) fl Record out = eval_block (eval_stmt a) qs ?fl Record ?o"
    using Cons.prems by (simp add: case_prod_beta tame_fst [OF tame_eval])
  have len: "length ?o = length (an_reads a)" using tame_grows [OF tame_eval] grows_length Cons.prems(4) by metis
  have rest: "grows ?o (snd (eval_block (eval_stmt a) qs ?fl Record ?o))" by (rule block_grows [OF tame_eval len])
  from Cons.prems(1) show ?case
  proof (cases rule: seq_cases)
    case (go_on os1 d1 os2)
    note g = soundD [OF q go_on(3) Cons.prems(3,4)]
    then obtain st1 where "fl_normal ?fl = Some st1" "covers st1 d1" by (auto simp: join_exits_def covers_opt_def)
    from Cons.IH [OF go_on(4) this len] Cons.prems g seen_grows [OF g(2) rest] show ?thesis unfolding eq go_on(1) by simp
  next
    case leave
    note g = soundD [OF q leave(2) Cons.prems(3,4)]
    then have "good_exit ?fl e d'" using leave(3) by (cases e) (auto simp: join_exits_def covers_union)
    from block_keeps [OF leave(3) this] seen_grows [OF g(2) rest] show ?thesis unfolding eq by blast
  qed simp
qed


lemma sections_keeps:
  "e \<noteq> Falls \<Longrightarrow> good_exit (sections_flow S) e d \<Longrightarrow>
   good_exit (sections_flow (fst (eval_sections a ev en ps qs S out))) e d"
proof (induction qs arbitrary: S out)
  case (Cons q qs)
  have k1: "good_exit (sections_flow (S\<lparr>sec_cur := m, sec_breaks := union_masks (sec_breaks S) (fl_breaks nxt),
      sec_continues := union_masks (sec_continues S) (fl_continues nxt),
      sec_returns := union_masks (sec_returns S) (fl_returns nxt)\<rparr>)) e d" for m nxt
    using Cons.prems by (cases e) (auto simp: covers_union)
  have k2: "good_exit (sections_flow (S\<lparr>sec_cur := m\<rparr>)) e d"
    "good_exit (sections_flow (S\<lparr>has_default := True, sec_cur := m\<rparr>)) e d" for m
    using Cons.prems by (cases e; auto)+
  show ?case
    unfolding eval_sections.simps case_prod_beta
    by (split if_split, intro conjI impI Cons.IH [OF Cons.prems(1)] k2)
      (split if_split, intro conjI impI Cons.IH [OF Cons.prems(1)] k1 k2)
qed simp

lemma sections_append:
  "eval_sections a ev en ps (xs @ ys) S out =
     (case eval_sections a ev en ps xs S out of (S', out') \<Rightarrow> eval_sections a ev en ps ys S' out')"
  by (induction xs arbitrary: S out) (simp_all add: case_prod_beta)

text \<open>After a label the state is covered wherever it is by the entry.\<close>

lemma sections_label:
  assumes "is_label q"
  obtains S' out' where "eval_sections a ev en ps (q # qs) S out = eval_sections a ev en ps qs S' out'"
    "sec_cur S' = union_masks (sec_cur S) (Some en)"
    "length out = length (an_reads a) \<Longrightarrow> grows out out'"
  using assms unfolding is_label_def
proof
  assume "kind_of q = SWITCH_CASE_LABEL"
  then show thesis
    by (intro that [of "S\<lparr>sec_cur := union_masks (sec_cur S) (Some en)\<rparr>" "record_field a VALUE_FIELD q en ps out"])
      (simp_all add: sections_flow_def record_then)
next
  assume "kind_of q = SWITCH_DEFAULT_LABEL"
  then show thesis
    by (intro that [of "S\<lparr>has_default := True, sec_cur := union_masks (sec_cur S) (Some en)\<rparr>" out])
      (simp_all add: sections_flow_def SWITCH_CASE_LABEL_def SWITCH_DEFAULT_LABEL_def)
qed

lemma sound_sections:
  assumes "\<And>q. q \<in> set qs \<Longrightarrow> sound a (runs D q) (eval_stmt a q)"
  shows "runs_seq D True qs d os e d' \<Longrightarrow> covers_opt (sec_cur S) d \<Longrightarrow> length out = length (an_reads a) \<Longrightarrow>
    good_exit (sections_flow (fst (eval_sections a (eval_stmt a) en Record qs S out))) e d' \<and>
    seen a (snd (eval_sections a (eval_stmt a) en Record qs S out)) os"
  using assms
proof (induction qs arbitrary: d os S out)
  case Nil
  then show ?case by (auto elim: seq_NilE)
next
  case (Cons q qs)
  have q: "sound a (runs D q) (eval_stmt a q)" using Cons.prems by simp
  obtain st where st: "sec_cur S = Some st" "covers st d" using Cons.prems(2) by (auto simp: covers_opt_def)
  let ?o = "snd (eval_stmt a q st Record out)" and ?fl = "transfer (eval_stmt a q) st"
  let ?S = "S\<lparr>sec_cur := fl_normal ?fl, sec_breaks := union_masks (sec_breaks S) (fl_breaks ?fl),
      sec_continues := union_masks (sec_continues S) (fl_continues ?fl),
      sec_returns := union_masks (sec_returns S) (fl_returns ?fl)\<rparr>"
  have eq: "eval_sections a (eval_stmt a) en Record (q # qs) S out = eval_sections a (eval_stmt a) en Record qs ?S ?o"
    if "\<not> is_label q" using that st by (simp add: case_prod_beta tame_fst [OF tame_eval] is_label_def)
  have len: "length ?o = length (an_reads a)" using tame_grows [OF tame_eval] grows_length Cons.prems(3) by metis
  have rest: "grows ?o (snd (eval_sections a (eval_stmt a) en Record qs ?S ?o))"
    by (rule sections_grows [OF tame_eval len grows_refl])
  from Cons.prems(1) show ?case
  proof (cases rule: seq_cases)
    case label
    obtain S' out' where l: "eval_sections a (eval_stmt a) en Record (q # qs) S out = eval_sections a (eval_stmt a) en Record qs S' out'"
      "sec_cur S' = union_masks (sec_cur S) (Some en)" "length out = length (an_reads a) \<Longrightarrow> grows out out'"
      using sections_label [OF label(2), where a = a and ev = "eval_stmt a" and en = en and ps = Record and qs = qs and S = S and out = out]
      by metis
    have "covers_opt (sec_cur S') d" "length out' = length (an_reads a)"
      using l(2) Cons.prems(2) grows_length [OF l(3)] Cons.prems(3) by (simp_all add: covers_union)
    from Cons.IH [OF label(3) this] Cons.prems show ?thesis unfolding l(1) by simp
  next
    case (go_on os1 d1 os2)
    note g = soundD [OF q go_on(3) st(2) Cons.prems(3)]
    then have "covers_opt (sec_cur ?S) d1" by simp
    from Cons.IH [OF go_on(4) this len] Cons.prems seen_grows [OF g(2) rest] go_on(2)
    show ?thesis unfolding go_on(1) by (simp add: eq del: eval_sections.simps)
  next
    case leave
    note g = soundD [OF q leave(2) st(2) Cons.prems(3)]
    then have "good_exit (sections_flow ?S) e d'" using leave(3) by (cases e) (auto simp: covers_union)
    from sections_keeps [OF leave(3) this] seen_grows [OF g(2) rest] leave(1)
    show ?thesis by (simp add: eq del: eval_sections.simps)
  qed
qed

lemma sections_values:
  assumes "q \<in> set qs" "kind_of q = SWITCH_CASE_LABEL" "child_by_field_name VALUE_FIELD q = Some v" "covers en d"
    "length out = length (an_reads a)"
  shows "seen a (snd (eval_sections a (eval_stmt a) en Record qs S out)) [(v, d)]"
proof -
  from assms(1) obtain xs ys where qs: "qs = xs @ q # ys" by (meson split_list)
  let ?o1 = "snd (eval_sections a (eval_stmt a) en Record xs S out)"
  have len: "length ?o1 = length (an_reads a)"
    using grows_length [OF sections_grows [OF tame_eval assms(5) grows_refl]] assms(5) by simp
  let ?o2 = "record_field a VALUE_FIELD q en Record ?o1"
  have "length ?o2 = length (an_reads a)" using grows_length [OF record_then [OF len grows_refl]] len by simp
  note g = sections_grows [OF tame_eval this grows_refl]
  have "seen a ?o2 [(v, d)]" using assms len by (simp add: record_field_def seen_record)
  from seen_grows [OF this g] have "seen a (snd (eval_sections a (eval_stmt a) en Record ys S' ?o2)) [(v, d)]" for S' .
  then show ?thesis by (simp add: qs sections_append case_prod_beta assms(2))
qed


lemma loops_induct [consumes 1, case_names stop finish again leave]:
  assumes "loops D c b i d os e d'"
    "\<And>d. P d [] Stopped d"
    "\<And>d os d'. test D c d os d' \<Longrightarrow> P d os Falls d'"
    "\<And>d os d1 os1 e1 d2 os2 d3 os3 e d'. test D c d os d1 \<Longrightarrow> runs_opt D b d1 os1 e1 d2 \<Longrightarrow> goes_on e1 \<Longrightarrow>
       test D i d2 os2 d3 \<Longrightarrow> P d3 os3 e d' \<Longrightarrow> P d (os @ os1 @ os2 @ os3) e d'"
    "\<And>d os d1 os1 e d'. test D c d os d1 \<Longrightarrow> runs_opt D b d1 os1 e d' \<Longrightarrow> \<not> goes_on e \<Longrightarrow>
       P d (os @ os1) (out_of_loop e) d'"
  shows "P d os e d'"
proof -
  have "(runs D p x os0 w y \<longrightarrow> True) \<and> (runs_opt D q x os0 w y \<longrightarrow> True) \<and> (runs_seq D k qs x os0 w y \<longrightarrow> True) \<and>
    (loops D c' b' i' d os e d' \<longrightarrow> c' = c \<longrightarrow> b' = b \<longrightarrow> i' = i \<longrightarrow> P d os e d')" for p x os0 w y q k qs c' b' i'
    by (induction rule: runs_runs_opt_runs_seq_loops.induct) (use assms(2-) in auto)
  with assms(1) show ?thesis by blast
qed

text \<open>A loop with state \<open>Q\<close> at its condition and \<open>hb\<close> at its body.\<close>

lemma sound_loop:
  assumes body: "sound a (runs_opt D b) ev"
    and cond: "\<And>d os d'. Q d \<Longrightarrow> test D c d os d' \<Longrightarrow> d' = d \<and> seen a outF os"
    and enter: "\<And>d. Q d \<Longrightarrow> covers hb d"
    and out: "length out = length (an_reads a)" "grows (snd (ev hb Record out)) outF"
    and iter: "\<And>d0 os0 e1 d2 os2 d3. runs_opt D b d0 os0 e1 d2 \<Longrightarrow> goes_on e1 \<Longrightarrow> good_exit (transfer ev hb) e1 d2 \<Longrightarrow>
      test D i d2 os2 d3 \<Longrightarrow> Q d3 \<and> seen a outF os2"
    and exit: "\<And>d. Q d \<Longrightarrow> covers_opt (fl_normal fl) d" "\<And>d. covers_opt (fl_breaks (transfer ev hb)) d \<Longrightarrow> covers_opt (fl_normal fl) d"
      "fl_returns fl = fl_returns (transfer ev hb)"
  shows "loops D c b i d os e d' \<Longrightarrow> Q d \<Longrightarrow> good_exit fl e d' \<and> seen a outF os"
proof (induction rule: loops_induct)
  case (finish d os d')
  then show ?case using cond exit(1) by auto
next
  case (again d os d1 os1 e1 d2 os2 d3 os3 e d')
  from cond [OF again(6,1)] have d1: "d1 = d" "seen a outF os" by auto
  note g = soundD [OF body again(2) _ out(1), unfolded d1, OF enter [OF again(6)]]
  from iter [OF again(2,3) g(1) again(4)] again(5) d1 seen_grows [OF g(2) out(2)] show ?case by simp
next
  case (leave d os d1 os1 e d')
  from cond [OF leave(4,1)] have d1: "d1 = d" "seen a outF os" by auto
  note g = soundD [OF body leave(2) _ out(1), unfolded d1, OF enter [OF leave(4)]]
  from leave(3) g(1) exit have "good_exit fl (out_of_loop e) d'" by (cases e) (auto simp: goes_on_def out_of_loop_def)
  with d1 seen_grows [OF g(2) out(2)] show ?case by simp
qed simp

lemma back_edge_covers: "covers (back_edge F st) d \<longleftrightarrow> covers st d \<or> covers_opt (fl_normal (F st)) d \<or> covers_opt (fl_continues (F st)) d"
  unfolding back_edge_def
  by (cases "fl_normal (F st)"; cases "fl_continues (F st)") (auto simp: covers_or)

lemma back_edge_closed:
  assumes "gk_flow F" "goes_on e" "good_exit (F (back_edge F st)) e d"
  shows "covers (back_edge F st) d"
  using assms(2) unfolding goes_on_def
proof
  assume "e = Falls"
  with assms(3) have "covers_opt (fl_normal (F (back_edge F st))) d" by simp
  then show ?thesis
    by (rule gk_closed [OF gk_flowD(1) [OF assms(1)], where st = st, rotated 2]) (auto simp: back_edge_covers)
next
  assume "e = Continued"
  with assms(3) have "covers_opt (fl_continues (F (back_edge F st))) d" by simp
  then show ?thesis
    by (rule gk_closed [OF gk_flowD(3) [OF assms(1)], where st = st, rotated 2]) (auto simp: back_edge_covers)
qed

lemma analysable_sub:
  assumes "analysable D p" "q \<in> set (child_nodes p)"
  shows "analysable D q"
proof -
  have "set (subplaces q) \<subseteq> set (subplaces p)" using assms(2) by (auto simp: subplaces.simps [of p])
  with assms(1) show ?thesis unfolding analysable_def list_all_iff by blast
qed

lemma analysable_here:
  assumes "analysable D p"
  shows "kind_of p \<in> {LOCAL_VAR_DECL_STMT, EXPR_STMT, DELETE_STMT, RETURN_STMT} \<Longrightarrow> card (sets_in D p) \<le> 1"
    "child_by_field_name COND_FIELD p = Some c \<Longrightarrow> sets_in D c = {}"
    "kind_of p = FOR_STMT \<Longrightarrow> child_by_field_name INIT_FIELD p = Some c \<Longrightarrow> card (sets_in D c) \<le> 1"
    "kind_of p = FOR_STMT \<Longrightarrow> child_by_field_name ITER_FIELD p = Some c \<Longrightarrow> card (sets_in D c) \<le> 1"
    "kind_of p = DO_WHILE_STMT \<Longrightarrow> q \<in> set (subplaces p) \<Longrightarrow> kind_of q \<noteq> CONTINUE_STMT"
proof -
  have "p \<in> set (subplaces p)" by (simp add: subplaces.simps [of p])
  with assms have "analysable_at D p" by (simp add: analysable_def list_all_iff)
  then show "kind_of p \<in> {LOCAL_VAR_DECL_STMT, EXPR_STMT, DELETE_STMT, RETURN_STMT} \<Longrightarrow> card (sets_in D p) \<le> 1"
    "child_by_field_name COND_FIELD p = Some c \<Longrightarrow> sets_in D c = {}"
    "kind_of p = FOR_STMT \<Longrightarrow> child_by_field_name INIT_FIELD p = Some c \<Longrightarrow> card (sets_in D c) \<le> 1"
    "kind_of p = FOR_STMT \<Longrightarrow> child_by_field_name ITER_FIELD p = Some c \<Longrightarrow> card (sets_in D c) \<le> 1"
    "kind_of p = DO_WHILE_STMT \<Longrightarrow> q \<in> set (subplaces p) \<Longrightarrow> kind_of q \<noteq> CONTINUE_STMT"
    by (simp_all add: analysable_at_def sets_at_most_def list_all_iff sets_in_def)
qed


lemma subplaces_child: "q \<in> set (child_nodes p) \<Longrightarrow> set (subplaces q) \<subseteq> set (subplaces p)"
  by (auto simp: subplaces.simps [of p])

lemma subplaces_field: "child_by_field_name f p = Some q \<Longrightarrow> set (subplaces q) \<subseteq> set (subplaces p)"
  by (blast dest: field_child subplaces_child)

lemma subplaces_named: "q \<in> set (named_child_nodes p) \<Longrightarrow> set (subplaces q) \<subseteq> set (subplaces p)"
  using subplaces_child by (auto simp: named_child_nodes_def)

definition no_continue :: "place \<Rightarrow> bool" where
  "no_continue p \<longleftrightarrow> (\<forall>q \<in> set (subplaces p). kind_of q \<noteq> CONTINUE_STMT)"

lemma no_continue_sub:
  "no_continue p \<Longrightarrow> kind_of p \<noteq> CONTINUE_STMT"
  "no_continue p \<Longrightarrow> child_by_field_name f p = Some q \<Longrightarrow> no_continue q"
  "no_continue p \<Longrightarrow> q \<in> set (named_child_nodes p) \<Longrightarrow> no_continue q"
  using subplaces_field [of f p q] subplaces_named [of q p]
  by (auto simp: no_continue_def subplaces.simps [of p])

lemma never_continues:
  "(runs D p d os e d' \<longrightarrow> no_continue p \<longrightarrow> e \<noteq> Continued) \<and>
   (runs_opt D c x os1 e1 x' \<longrightarrow> (\<forall>q. c = Some q \<longrightarrow> no_continue q) \<longrightarrow> e1 \<noteq> Continued) \<and>
   (runs_seq D k qs y os2 e2 y' \<longrightarrow> (\<forall>q \<in> set qs. no_continue q) \<longrightarrow> e2 \<noteq> Continued) \<and>
   (loops D c' b i z os3 e3 z' \<longrightarrow> e3 \<noteq> Continued)"
proof (induction rule: runs_runs_opt_runs_seq_loops.induct)
  case (switch_at p d os d1 b before l secs os' e d')
  have "\<forall>q \<in> set secs. no_continue q" if "no_continue p"
    using no_continue_sub(3) [OF no_continue_sub(2) [OF that \<open>child_by_field_name BODY_FIELD p = Some b\<close>]]
      \<open>named_child_nodes b = before @ l # secs\<close> by simp
  with switch_at show ?case by (simp add: out_of_loop_def)
qed (auto simp: out_of_loop_def goes_on_def dest: no_continue_sub)

lemmas opt_never_continues = never_continues [THEN conjunct2, THEN conjunct1, rule_format]

lemma cond_seen:
  assumes "analysable (an_defs a) p" "covers m d" "test (an_defs a) (child_by_field_name COND_FIELD p) d os d'"
    "length out = length (an_reads a)" "grows (record_field a COND_FIELD p m Record out) outF"
  shows "d' = d \<and> seen a outF os"
  using test_same [OF assms(3) analysable_here(2) [OF assms(1)]] seen_grows [OF test_seen [OF assms(3,2,4)] assms(5)] by simp

lemma sound_while:
  assumes "sound a (runs_opt (an_defs a) (child_by_field_name BODY_FIELD p)) (eval_body (eval_stmt a) BODY_FIELD p)"
    "analysable (an_defs a) p" "covers st d" "length out = length (an_reads a)"
    "loops (an_defs a) (child_by_field_name COND_FIELD p) (child_by_field_name BODY_FIELD p) None d os e d'"
  shows "good_exit (fst (eval_while a (eval_stmt a) p st Record out)) e d' \<and>
    seen a (snd (eval_while a (eval_stmt a) p st Record out)) os"
proof -
  let ?ev = "eval_body (eval_stmt a) BODY_FIELD p"
  have ev: "tame a ?ev" by (rule tame_body [OF tame_eval])
  let ?h = "back_edge (transfer ?ev) st"
  define o2 where "o2 = record_field a COND_FIELD p ?h Record (snd (?ev st Learn out))"
  have n1: "length (snd (?ev st Learn out)) = length (an_reads a)"
    using grows_length [OF tame_grows [OF ev assms(4)]] assms(4) by simp
  have n2: "length o2 = length (an_reads a)"
    using grows_length [OF record_field_grows [OF n1]] n1 by (simp add: o2_def)
  have out: "snd (eval_while a (eval_stmt a) p st Record out) = snd (?ev ?h Record o2)"
    by (simp add: eval_while_def Let_def case_prod_beta tame_fst [OF ev] back_edge_def o2_def)
  show ?thesis
    unfolding out while_fst [OF ev] Let_def
  proof (rule sound_loop [OF assms(1) _ _ n2 grows_refl _ _ _ _ assms(5), where Q = "covers ?h"])
    fix d os d' assume "covers ?h d" "test (an_defs a) (child_by_field_name COND_FIELD p) d os d'"
    then show "d' = d \<and> seen a (snd (?ev ?h Record o2)) os"
      by (intro cond_seen [OF assms(2) _ _ n1]) (auto simp: o2_def intro: tame_grows [OF ev n2 [unfolded o2_def]])
  next
    fix d0 os0 e1 d2 os2 d3
    assume "goes_on e1" "good_exit (transfer ?ev ?h) e1 d2" "test (an_defs a) None d2 os2 d3"
    then show "covers ?h d3 \<and> seen a (snd (?ev ?h Record o2)) os2"
      using back_edge_closed [OF tame_gk [OF ev]] by (auto simp: test_def)
  qed (use assms(3) in \<open>auto simp: covers_union back_edge_covers\<close>)
qed


lemma sound_do_while:
  assumes "sound a (runs_opt (an_defs a) (child_by_field_name BODY_FIELD p)) (eval_body (eval_stmt a) BODY_FIELD p)"
    "analysable (an_defs a) p" "kind_of p = DO_WHILE_STMT" "covers st d" "length out = length (an_reads a)"
    "runs_opt (an_defs a) (child_by_field_name BODY_FIELD p) d os e d1"
  shows "\<not> goes_on e \<Longrightarrow> good_exit (fst (eval_do_while a (eval_stmt a) p st Record out)) (out_of_loop e) d1 \<and>
      seen a (snd (eval_do_while a (eval_stmt a) p st Record out)) os"
    and "goes_on e \<Longrightarrow> loops (an_defs a) (child_by_field_name COND_FIELD p) (child_by_field_name BODY_FIELD p) None d1 os' e' d' \<Longrightarrow>
      good_exit (fst (eval_do_while a (eval_stmt a) p st Record out)) e' d' \<and>
      seen a (snd (eval_do_while a (eval_stmt a) p st Record out)) (os @ os')"
proof -
  let ?ev = "eval_body (eval_stmt a) BODY_FIELD p" and ?D = "an_defs a"
  let ?fl = "fst (eval_do_while a (eval_stmt a) p st Record out)"
  let ?out = "snd (eval_do_while a (eval_stmt a) p st Record out)"
  have ev: "tame a ?ev" by (rule tame_body [OF tame_eval])
  let ?F = "transfer ?ev" and ?h = "back_edge (transfer ?ev) st"
  define o1 where "o1 = snd (?ev st Learn out)"
  define o2 where "o2 = snd (?ev ?h Record o1)"
  have n1: "length o1 = length (an_reads a)"
    using grows_length [OF tame_grows [OF ev assms(5)]] assms(5) by (simp add: o1_def)
  have n2: "length o2 = length (an_reads a)"
    using grows_length [OF tame_grows [OF ev n1]] n1 by (simp add: o2_def)
  have out: "?out = record_field a COND_FIELD p (unwrap_or (union_masks (fl_normal (?F ?h)) (fl_continues (?F ?h))) ?h) Record o2"
    by (simp add: eval_do_while_def Let_def case_prod_beta tame_fst [OF ev] back_edge_def o1_def o2_def)
  have fl: "fl_normal ?fl = union_masks (fl_normal (?F ?h)) (fl_breaks (?F ?h))" "fl_returns ?fl = fl_returns (?F ?h)"
    by (simp_all add: do_while_fst [OF ev] Let_def)
  have grow: "grows (snd (?ev ?h Record o1)) ?out" using record_field_grows [OF n2] by (simp add: out o2_def)
  have "covers ?h d" using assms(4) by (simp add: back_edge_covers)
  note g = soundD [OF assms(1,6) this n1]
  note s = seen_grows [OF g(2) grow]
  have falls: "e1 = Falls" if "runs_opt ?D (child_by_field_name BODY_FIELD p) d0 os0 e1 d2" "goes_on e1" for d0 os0 e1 d2
    using opt_never_continues [OF that(1)] analysable_here(5) [OF assms(2,3)] subplaces_field that(2)
    by (fastforce simp: no_continue_def goes_on_def)
  show "\<not> goes_on e \<Longrightarrow> good_exit ?fl (out_of_loop e) d1 \<and> seen a ?out os"
    using g(1) s by (cases e) (auto simp: goes_on_def out_of_loop_def fl covers_union)
  have loop: "good_exit ?fl e' d' \<and> seen a ?out os'"
    if "covers_opt (fl_normal (?F ?h)) d1" "loops ?D (child_by_field_name COND_FIELD p) (child_by_field_name BODY_FIELD p) None d1 os' e' d'"
  proof (rule sound_loop [OF assms(1) _ _ n1 grow _ _ _ fl(2) that(2), where Q = "covers_opt (fl_normal (?F ?h))"])
    fix d os d' assume "covers_opt (fl_normal (?F ?h)) d" and t: "test ?D (child_by_field_name COND_FIELD p) d os d'"
    then have "covers (unwrap_or (union_masks (fl_normal (?F ?h)) (fl_continues (?F ?h))) ?h) d"
      by (intro covers_unwrap) (simp add: covers_union)
    from cond_seen [OF assms(2) this t n2 grows_refl] show "d' = d \<and> seen a ?out os" unfolding out .
  next
    fix d assume "covers_opt (fl_normal (?F ?h)) d"
    then show "covers ?h d" using back_edge_closed [OF tame_gk [OF ev], of Falls] by (simp add: goes_on_def)
  next
    fix d0 os0 e1 d2 os2 d3
    assume "runs_opt ?D (child_by_field_name BODY_FIELD p) d0 os0 e1 d2" "goes_on e1" "good_exit (?F ?h) e1 d2" "test ?D None d2 os2 d3"
    then show "covers_opt (fl_normal (?F ?h)) d3 \<and> seen a ?out os2"
      using falls by (fastforce simp: test_def)
  qed (use that fl in \<open>auto simp: covers_union\<close>)
  show "goes_on e \<Longrightarrow> loops ?D (child_by_field_name COND_FIELD p) (child_by_field_name BODY_FIELD p) None d1 os' e' d' \<Longrightarrow>
      good_exit ?fl e' d' \<and> seen a ?out (os @ os')"
    using loop falls [OF assms(6)] g(1) s by auto
qed

lemma for_header_covers:
  "covers (for_header a F p st) d \<longleftrightarrow> covers st d \<or>
     covers (gen_field a ITER_FIELD p (unwrap_or (union_masks (fl_normal (F st)) (fl_continues (F st))) st)) d"
  by (simp add: for_header_def covers_or)

lemma for_header_closed:
  assumes "gk_flow F" "h = for_header a F p st"
    "covers (gen_field a ITER_FIELD p (unwrap_or (union_masks (fl_normal (F h)) (fl_continues (F h))) h)) d"
  shows "covers h d"
proof -
  have "gen_kill (\<lambda>st. Some (gen_field a ITER_FIELD p (unwrap_or (union_masks (fl_normal (F st)) (fl_continues (F st))) st)))"
    by (intro gk_gen_field gk_unwrap gk_union gk_flowD [OF assms(1)] gk_id)
  then show ?thesis
    by (rule gk_closed [where st = st]) (use assms(2,3) in \<open>auto simp: for_header_covers\<close>)
qed

lemma sound_for:
  assumes "sound a (runs_opt (an_defs a) (child_by_field_name BODY_FIELD p)) (eval_body (eval_stmt a) BODY_FIELD p)"
    "analysable (an_defs a) p" "kind_of p = FOR_STMT" "covers st d" "length out = length (an_reads a)"
    "length (an_defs a) \<le> MAX_DEFS" "test (an_defs a) (child_by_field_name INIT_FIELD p) d os d1"
    "loops (an_defs a) (child_by_field_name COND_FIELD p) (child_by_field_name BODY_FIELD p) (child_by_field_name ITER_FIELD p) d1 os' e d'"
  shows "good_exit (fst (eval_for a (eval_stmt a) p st Record out)) e d' \<and>
    seen a (snd (eval_for a (eval_stmt a) p st Record out)) (os @ os')"
proof -
  let ?ev = "eval_body (eval_stmt a) BODY_FIELD p" and ?D = "an_defs a"
  let ?out = "snd (eval_for a (eval_stmt a) p st Record out)"
  have ev: "tame a ?ev" by (rule tame_body [OF tame_eval])
  let ?F = "transfer ?ev" and ?e = "gen_field a INIT_FIELD p st"
  define h where "h = for_header a ?F p ?e"
  define hi where "hi = unwrap_or (union_masks (fl_normal (?F h)) (fl_continues (?F h))) h"
  define o1 where "o1 = record_field a INIT_FIELD p st Record out"
  define o2 where "o2 = snd (?ev ?e Learn o1)"
  define o3 where "o3 = record_field a COND_FIELD p h Record o2"
  define o4 where "o4 = snd (?ev h Record o3)"
  have n1: "length o1 = length (an_reads a)" 
    using grows_length [OF record_field_grows [OF assms(5)]] assms(5) by (simp add: o1_def)
  have n2: "length o2 = length (an_reads a)" using grows_length [OF tame_grows [OF ev n1]] n1 by (simp add: o2_def)
  have n3: "length o3 = length (an_reads a)" using grows_length [OF record_field_grows [OF n2]] n2 by (simp add: o3_def)
  have n4: "length o4 = length (an_reads a)" using grows_length [OF tame_grows [OF ev n3]] n3 by (simp add: o4_def)
  have out: "?out = record_field a ITER_FIELD p hi Record o4"
    unfolding for_snd [OF ev] Let_def h_def hi_def o4_def o3_def o2_def o1_def by simp
  have g4: "grows o4 ?out" unfolding out by (rule record_field_grows [OF n4])
  have g3: "grows o3 ?out" using grows_trans [OF tame_grows [OF ev n3] g4 [unfolded o4_def]] .
  have g1: "grows o1 ?out"
    using grows_trans [OF tame_grows [OF ev n1]] grows_trans [OF record_field_grows [OF n2]] g3
    unfolding o2_def o3_def by blast
  have init: "seen a ?out os" using seen_grows [OF test_seen [OF assms(7,4,5)] g1 [unfolded o1_def]] .
  have "covers ?e d1" using test_covers [OF assms(7,4,6)] analysable_here(3) [OF assms(2,3)] by blast
  then have "covers h d1" by (simp add: h_def for_header_covers)
  have "good_exit (fst (eval_for a (eval_stmt a) p st Record out)) e d' \<and> seen a ?out os'"
  proof (rule sound_loop [OF assms(1) _ _ n3 g4 [unfolded o4_def] _ _ _ _ assms(8), where Q = "covers h"])
    fix d os d' assume "covers h d" "test ?D (child_by_field_name COND_FIELD p) d os d'"
    then show "d' = d \<and> seen a ?out os" by (intro cond_seen [OF assms(2) _ _ n2 g3 [unfolded o3_def]])
  next
    fix d0 os0 e1 d2 os2 d3
    assume e1: "goes_on e1" "good_exit (?F h) e1 d2" and t: "test ?D (child_by_field_name ITER_FIELD p) d2 os2 d3"
    then have "covers hi d2" unfolding hi_def by (intro covers_unwrap) (auto simp: goes_on_def covers_union)
    then show "covers h d3 \<and> seen a ?out os2"
      using test_covers [OF t _ assms(6)] analysable_here(4) [OF assms(2,3)] test_seen [OF t _ n4]
        for_header_closed [OF tame_gk [OF ev] h_def] unfolding out hi_def by blast
  qed (use \<open>covers h d1\<close> in \<open>auto simp: for_fst [OF ev] Let_def h_def covers_union\<close>)
  with init show ?thesis by simp
qed


lemma case_values_in:
  "v \<in> set (case_values b) \<Longrightarrow>
   \<exists>q \<in> set (named_child_nodes b). kind_of q = SWITCH_CASE_LABEL \<and> child_by_field_name VALUE_FIELD q = Some v"
  by (auto simp: case_values_def List.map_filter_def)

lemma seen_map: "seen a out (map (\<lambda>v. (v, d)) vs) \<longleftrightarrow> (\<forall>v \<in> set vs. seen a out [(v, d)])"
  by (auto simp: seen_def)

lemma sound_switch:
  assumes b: "child_by_field_name BODY_FIELD p = Some b"
    and q: "\<And>q. q \<in> set (named_child_nodes b) \<Longrightarrow> sound a (runs (an_defs a) q) (eval_stmt a q)"
    and st: "analysable (an_defs a) p" "covers st d" "length out = length (an_reads a)"
    and t: "test (an_defs a) (child_by_field_name COND_FIELD p) d os d1"
  shows "seen a (snd (eval_switch a (eval_stmt a) p st Record out)) (os @ map (\<lambda>v. (v, d1)) (case_values b))"
    and "\<forall>q \<in> set (named_child_nodes b). kind_of q \<noteq> SWITCH_DEFAULT_LABEL \<Longrightarrow>
      covers_opt (fl_normal (fst (eval_switch a (eval_stmt a) p st Record out))) d1"
    and "named_child_nodes b = before @ l # secs \<Longrightarrow> is_label l \<Longrightarrow> runs_seq (an_defs a) True secs d1 os' e d' \<Longrightarrow>
      good_exit (fst (eval_switch a (eval_stmt a) p st Record out)) (out_of_loop e) d' \<and>
      seen a (snd (eval_switch a (eval_stmt a) p st Record out)) os'"
proof -
  let ?S = "\<lparr>sec_cur = None, sec_breaks = None, sec_continues = None, sec_returns = None, has_default = False\<rparr>"
  let ?fl = "fst (eval_switch a (eval_stmt a) p st Record out)" and ?out = "snd (eval_switch a (eval_stmt a) p st Record out)"
  define o1 where "o1 = record_field a COND_FIELD p st Record out"
  have n1: "length o1 = length (an_reads a)"
    using grows_length [OF record_field_grows [OF st(3)]] st(3) by (simp add: o1_def)
  define T where "T = eval_sections a (eval_stmt a) st Record (named_child_nodes b) ?S o1"
  have out: "?out = snd T" by (simp add: eval_switch_def Let_def case_prod_beta b T_def o1_def)
  have fl: "covers_opt (fl_normal ?fl) x \<longleftrightarrow>
      covers_opt (sec_breaks (fst T)) x \<or> covers_opt (sec_cur (fst T)) x \<or> \<not> has_default (fst T) \<and> covers st x"
    "fl_continues ?fl = sec_continues (fst T)" "fl_returns ?fl = sec_returns (fst T)" for x
    by (simp_all add: eval_switch_def Let_def case_prod_beta b T_def o1_def covers_union)
  have g: "grows o1 ?out" unfolding out T_def by (rule sections_grows [OF tame_eval n1 grows_refl])
  have d1: "d1 = d" "seen a ?out os" using cond_seen [OF st(1,2) t st(3) g [unfolded o1_def]] by simp_all
  have "seen a ?out [(v, d)]" if "v \<in> set (case_values b)" for v
    using case_values_in [OF that] sections_values [OF _ _ _ st(2) n1] unfolding out T_def by blast
  with d1 show "seen a ?out (os @ map (\<lambda>v. (v, d1)) (case_values b))" by (simp add: seen_map)
  have "gk_flow (\<lambda>st. sections_flow ?S)" by (rule gk_flowI) simp_all
  note dflt = sections_gk [where qs = "named_child_nodes b" and dflt = False and ev = "eval_stmt a", OF tame_eval this, simplified, THEN conjunct2, rule_format]
  have "has_default (fst T) \<longleftrightarrow> (\<exists>q \<in> set (named_child_nodes b). kind_of q = SWITCH_DEFAULT_LABEL)"
    unfolding T_def sections_fst [OF tame_eval, where out = o1] using dflt by blast
  with d1 st(2) show "\<forall>q \<in> set (named_child_nodes b). kind_of q \<noteq> SWITCH_DEFAULT_LABEL \<Longrightarrow> covers_opt (fl_normal ?fl) d1"
    by (simp add: fl)
  assume l: "named_child_nodes b = before @ l # secs" "is_label l" and r: "runs_seq (an_defs a) True secs d1 os' e d'"
  obtain S0 o2 where before: "eval_sections a (eval_stmt a) st Record before ?S o1 = (S0, o2)" by fastforce
  have n2: "length o2 = length (an_reads a)"
    using grows_length [OF sections_grows [where ev = "eval_stmt a" and qs = before and S = ?S and en = st and ps = Record, OF tame_eval n1 grows_refl]] n1
    by (simp add: before)
  obtain S1 o3 where S1: "eval_sections a (eval_stmt a) st Record (l # secs) S0 o2 = eval_sections a (eval_stmt a) st Record secs S1 o3"
    "sec_cur S1 = union_masks (sec_cur S0) (Some st)" "length o2 = length (an_reads a) \<Longrightarrow> grows o2 o3"
    using sections_label [OF l(2), where a = a and ev = "eval_stmt a" and en = st and ps = Record and qs = secs and S = S0 and out = o2]
    by metis
  have T: "T = eval_sections a (eval_stmt a) st Record secs S1 o3"
    using S1(1) by (simp add: T_def l(1) sections_append before del: eval_sections.simps)
  have "covers_opt (sec_cur S1) d1" "length o3 = length (an_reads a)"
    using S1(2) d1(1) st(2) grows_length [OF S1(3) [OF n2]] n2 by (simp_all add: covers_union)
  from sound_sections [OF _ r this, of st] q l(1)
  have "good_exit (sections_flow (fst T)) e d' \<and> seen a (snd T) os'" by (simp add: T)
  then show "good_exit ?fl (out_of_loop e) d' \<and> seen a ?out os'"
    by (cases e) (auto simp: out fl out_of_loop_def)
qed


inductive_cases runsE: "runs D p d os e d'"

lemmas statement_kinds =
  FUNC_BLOCK_def LOCAL_VAR_DECL_STMT_def EXPR_STMT_def DELETE_STMT_def RETURN_STMT_def BREAK_STMT_def CONTINUE_STMT_def
  IF_STMT_def WHILE_STMT_def DO_WHILE_STMT_def FOR_STMT_def SWITCH_STMT_def NOP_def

text \<open>The evaluation of each kind of statement.\<close>

lemma eval_kinds:
  "kind_of p = FUNC_BLOCK \<Longrightarrow> eval_stmt a p = (\<lambda>st. eval_block (eval_stmt a) (named_child_nodes p) (flow_pass st))"
  "kind_of p \<in> {LOCAL_VAR_DECL_STMT, EXPR_STMT, DELETE_STMT} \<Longrightarrow>
     eval_stmt a p = (\<lambda>st ps out. (flow_pass (gen_in a p st), an_record a p st ps out))"
  "kind_of p = RETURN_STMT \<Longrightarrow> eval_stmt a p = (\<lambda>st ps out.
     (\<lparr>fl_normal = None, fl_breaks = None, fl_continues = None, fl_returns = Some (gen_in a p st)\<rparr>, an_record a p st ps out))"
  "kind_of p = BREAK_STMT \<Longrightarrow> eval_stmt a p = (\<lambda>st ps out.
     (\<lparr>fl_normal = None, fl_breaks = Some st, fl_continues = None, fl_returns = None\<rparr>, out))"
  "kind_of p = CONTINUE_STMT \<Longrightarrow> eval_stmt a p = (\<lambda>st ps out.
     (\<lparr>fl_normal = None, fl_breaks = None, fl_continues = Some st, fl_returns = None\<rparr>, out))"
  "kind_of p = IF_STMT \<Longrightarrow> eval_stmt a p = eval_if a (eval_stmt a) p"
  "kind_of p = WHILE_STMT \<Longrightarrow> eval_stmt a p = eval_while a (eval_stmt a) p"
  "kind_of p = DO_WHILE_STMT \<Longrightarrow> eval_stmt a p = eval_do_while a (eval_stmt a) p"
  "kind_of p = FOR_STMT \<Longrightarrow> eval_stmt a p = eval_for a (eval_stmt a) p"
  "kind_of p = SWITCH_STMT \<Longrightarrow> eval_stmt a p = eval_switch a (eval_stmt a) p"
  "kind_of p = NOP \<Longrightarrow> eval_stmt a p = (\<lambda>st ps out. (flow_pass st, out))"
  "kind_of p \<notin> modelled_kinds \<Longrightarrow> eval_stmt a p = (\<lambda>st ps out. (flow_pass st, poison a p ps out))"
  by (simp_all add: eval_stmt.simps [of a p] eval_step_def eval_leaf_def modelled_kinds_def statement_kinds fun_eq_iff)
    (elim disjE; simp)

lemma sound_if:
  assumes "\<And>f. sound a (runs_opt (an_defs a) (child_by_field_name f p)) (eval_body (eval_stmt a) f p)"
    "analysable (an_defs a) p" "covers st d" "length out = length (an_reads a)"
    "test (an_defs a) (child_by_field_name COND_FIELD p) d os d1" "f = BODY_FIELD \<or> f = ELSE_FIELD"
    "runs_opt (an_defs a) (child_by_field_name f p) d1 os' e d'"
  shows "good_exit (fst (eval_if a (eval_stmt a) p st Record out)) e d' \<and>
    seen a (snd (eval_if a (eval_stmt a) p st Record out)) (os @ os')"
proof -
  let ?t = "eval_body (eval_stmt a) BODY_FIELD p" and ?e = "eval_body (eval_stmt a) ELSE_FIELD p"
  let ?out = "snd (eval_if a (eval_stmt a) p st Record out)"
  have ev: "tame a (eval_body (eval_stmt a) f p)" for f by (rule tame_body [OF tame_eval])
  define o1 where "o1 = record_field a COND_FIELD p st Record out"
  define o2 where "o2 = snd (?t st Record o1)"
  have n1: "length o1 = length (an_reads a)"
    using grows_length [OF record_field_grows [OF assms(4)]] assms(4) by (simp add: o1_def)
  have n2: "length o2 = length (an_reads a)" using grows_length [OF tame_grows [OF ev n1]] n1 by (simp add: o2_def)
  have out: "?out = snd (?e st Record o2)" by (simp add: eval_if_def Let_def case_prod_beta o1_def o2_def)
  have g2: "grows o2 ?out" unfolding out by (rule tame_grows [OF ev n2])
  have g1: "grows o1 ?out" using grows_trans [OF tame_grows [OF ev n1] g2 [unfolded o2_def]] .
  have d1: "d1 = d" "seen a ?out os" using cond_seen [OF assms(2,3,5,4) g1 [unfolded o1_def]] by simp_all
  note g = soundD [OF assms(1) assms(7) [unfolded d1(1)] assms(3)]
  have "good_exit (fst (eval_if a (eval_stmt a) p st Record out)) e d'"
    using g(1) [OF n1] assms(6) by (cases e) (auto simp: if_fst [OF ev ev] Let_def covers_union)
  moreover have "seen a ?out os'"
    using assms(6) seen_grows [OF g(2) [OF n1]] g2 g(2) [OF n2] by (auto simp: out o2_def)
  ultimately show ?thesis using d1 by simp
qed


theorem eval_stmt_sound:
  assumes "length (an_defs a) \<le> MAX_DEFS"
  shows "analysable (an_defs a) p \<Longrightarrow> sound a (runs (an_defs a) p) (eval_stmt a p)"
proof (induction "size (here p)" arbitrary: p rule: less_induct)
  case less
  have named: "sound a (runs (an_defs a) q) (eval_stmt a q)" if "q \<in> set (named_child_nodes p')"
    "analysable (an_defs a) p'" "size (here p') \<le> size (here p)" for q p'
    using that less(1) [of q] named_child_size [of q p'] analysable_sub [of "an_defs a" p' q] by (auto simp: named_child_nodes_def)
  have body: "sound a (runs_opt (an_defs a) (child_by_field_name f p)) (eval_body (eval_stmt a) f p)" for f
    by (rule sound_body) (use less field_child_size analysable_sub field_child in blast)
  have sections: "sound a (runs (an_defs a) q) (eval_stmt a q)"
    if "child_by_field_name BODY_FIELD p = Some b" "q \<in> set (named_child_nodes b)" for b q
    using named [OF that(2)] analysable_sub [OF less(2) field_child [OF that(1)]] field_child_size [OF that(1)] by simp
  note an = less(2)
  show ?case
  proof (rule soundI)
    fix d os e d' st and out :: "mask list"
    assume r: "runs (an_defs a) p d os e d'" and st: "covers st d" and n: "length out = length (an_reads a)"
    have eq: "transfer (eval_stmt a p) st = fst (eval_stmt a p st Record out)" by (simp add: tame_fst [OF tame_eval])
    from r show "good_exit (transfer (eval_stmt a p) st) e d' \<and> seen a (snd (eval_stmt a p st Record out)) os"
    proof (cases rule: runs.cases)
      case block
      then show ?thesis using sound_block [OF named [OF _ an order_refl] block(2), of "flow_pass st" st] st n
        unfolding eq by (simp add: eval_kinds flow_pass_def)
    next
      case simple
      then show ?thesis
        using gen_in_covers [OF assms analysable_here(1) [OF an] _ st] seen_record [OF st n]
        unfolding eq by (auto simp: eval_kinds flow_pass_def)
    next
      case return
      then show ?thesis
        using gen_in_covers [OF assms analysable_here(1) [OF an] _ st] seen_record [OF st n]
        unfolding eq by (auto simp: eval_kinds)
    next
      case (if_then os1 d1 os2)
      then show ?thesis using sound_if [OF body an st n, of os1 d1 BODY_FIELD] unfolding eq by (simp add: eval_kinds)
    next
      case (if_else os1 d1 os2)
      then show ?thesis using sound_if [OF body an st n, of os1 d1 ELSE_FIELD] unfolding eq by (simp add: eval_kinds)
    next
      case while_loop
      then show ?thesis using sound_while [OF body an st n] unfolding eq by (simp add: eval_kinds)
    next
      case (do_loop os1 e1 d1 os2)
      then show ?thesis using sound_do_while(2) [OF body an _ st n] unfolding eq by (simp add: eval_kinds)
    next
      case (do_leave e1)
      then show ?thesis using sound_do_while(1) [OF body an _ st n] unfolding eq by (simp add: eval_kinds)
    next
      case (for_loop os1 d1 os2)
      then show ?thesis using sound_for [OF body an _ st n assms] unfolding eq by (simp add: eval_kinds)
    next
      case switch_no_body
      then show ?thesis
        using cond_seen [OF an st _ n grows_refl] st
        unfolding eq by (simp add: eval_kinds eval_switch_def Let_def flow_pass_def) blast
    next
      case (switch_past os1 b)
      then show ?thesis using sound_switch(1,2) [OF _ sections an st n] unfolding eq by (simp add: eval_kinds)
    next
      case (switch_at os1 d1 b before l secs os2 e1)
      then show ?thesis
        using sound_switch(1) [OF switch_at(5) sections [OF switch_at(5)] an st n switch_at(4)]
          sound_switch(3) [OF switch_at(5) sections [OF switch_at(5)] an st n switch_at(4)]
        unfolding eq by (simp add: eval_kinds)
    next
      case (other x)
      moreover have "covers (- 1) x" using other(5) assms by (cases x) (auto simp: MAX_DEFS_def bit_minus_1_iff possible_bit_word)
      ultimately show ?thesis using seen_record [OF _ n] st unfolding eq by (simp add: eval_kinds flow_pass_def poison_def)
    qed (unfold eq, use st in \<open>simp_all add: eval_kinds flow_pass_def\<close>)
  qed
qed


lemma sole_def_only: "sole_def m = Some k \<Longrightarrow> bit m i \<Longrightarrow> i = k"
proof -
  assume k: "sole_def m = Some k" and i: "bit m i"
  then have "filter (bit m) [0..<128] = [k]"
    by (auto simp: sole_def_def Let_def length_Suc_conv split: if_splits)
  moreover have "i < 128" using bit_imp_le_length [OF i] by simp
  with i have "i \<in> set (filter (bit m) [0..<128])" by simp
  ultimately show "i = k" by simp
qed

subsection \<open>Sample bodies\<close>

definition idents_of :: "place \<Rightarrow> place list" where
  "idents_of p = filter (\<lambda>q. kind_of q = IDENT) (subplaces p)"

text \<open>\<open>var x; x = 1; F(x);\<close>\<close>

definition sample_line :: place where
  "sample_line = Place (sample_node FUNC_BLOCK 0 30
     [sample_node LOCAL_VAR_DECL_STMT 1 7 [], sample_node EXPR_STMT 8 14 [sample_node IDENT 8 9 []],
      sample_node EXPR_STMT 15 20 [sample_node IDENT 17 18 []]]) []"

text \<open>\<open>var x; do { x = 2; if (c) continue; x = 3; } while (k); F(x);\<close>\<close>

definition sample_do :: place where
  "sample_do = Place (sample_node FUNC_BLOCK 0 100
     [sample_node LOCAL_VAR_DECL_STMT 1 7 [],
      sample_node DO_WHILE_STMT 12 70
        [in_field BODY_FIELD (sample_node FUNC_BLOCK 15 55
           [sample_node EXPR_STMT 17 23 [sample_node IDENT 17 18 []],
            sample_node IF_STMT 25 41 [in_field COND_FIELD (sample_node LITERAL_BOOL 29 30 []),
              in_field BODY_FIELD (sample_node CONTINUE_STMT 32 41 [])],
            sample_node EXPR_STMT 43 49 [sample_node IDENT 43 44 []]]),
         in_field COND_FIELD (sample_node LITERAL_BOOL 64 65 [])],
      sample_node EXPR_STMT 72 77 [sample_node IDENT 74 75 []]]) []"

text \<open>\<open>var x; if (G(x)) { } F(x);\<close> where \<open>G\<close> has an \<open>out\<close> parameter\<close>

definition sample_if :: place where
  "sample_if = Place (sample_node FUNC_BLOCK 0 60
     [sample_node LOCAL_VAR_DECL_STMT 1 7 [],
      sample_node IF_STMT 12 30
        [in_field COND_FIELD (sample_node FUNC_CALL_EXPR 16 20 [sample_node IDENT 18 19 []]),
         in_field BODY_FIELD (sample_node FUNC_BLOCK 28 30 [])],
      sample_node EXPR_STMT 32 37 [sample_node IDENT 34 35 []]]) []"

definition nth_stmt :: "place \<Rightarrow> nat \<Rightarrow> place" where
  "nth_stmt p i = named_child_nodes p ! i"

definition sample_result :: "place \<Rightarrow> (place \<Rightarrow> write_site) \<Rightarrow> nat list \<Rightarrow> nat \<Rightarrow> reaching_result" where
  "sample_result body how writes read =
     reaching_defs body (nth_stmt body 0) 1 (map (\<lambda>i. how (idents_of body ! i)) writes) [place_range (idents_of body ! read)]"

definition in_body :: "place \<Rightarrow> place" where
  "in_body p = the (child_by_field_name BODY_FIELD p)"

definition in_cond :: "place \<Rightarrow> place" where
  "in_cond p = the (child_by_field_name COND_FIELD p)"

lemma sample_line_runs:
  "runs_seq (all_defs (sample_result sample_line AssignTarget [0] 1)) False (named_child_nodes sample_line) None
     [(nth_stmt sample_line 0, None), (nth_stmt sample_line 1, Some 0), (nth_stmt sample_line 2, Some 1)] Falls (Some 1)"
proof -
  let ?D = "all_defs (sample_result sample_line AssignTarget [0] 1)" and ?s = "nth_stmt sample_line"
  have kids: "named_child_nodes sample_line = [?s 0, ?s 1, ?s 2]" by code_simp
  have r: "runs ?D (?s 0) None [(?s 0, None)] Falls (Some 0)" "runs ?D (?s 1) (Some 0) [(?s 1, Some 0)] Falls (Some 1)"
    "runs ?D (?s 2) (Some 1) [(?s 2, Some 1)] Falls (Some 1)"
    by (rule simple; code_simp)+
  have "runs_seq ?D False [?s 0, ?s 1, ?s 2] None ([(?s 0, None)] @ [(?s 1, Some 0)] @ [(?s 2, Some 1)] @ []) Falls (Some 1)"
    by (rule seq_next [OF _ r(1) seq_next [OF _ r(2) seq_next [OF _ r(3) seq_done]]]) simp_all
  then show ?thesis unfolding kids by simp
qed

lemma sample_do_runs:
  "\<exists>os e d'. runs_seq (all_defs (sample_result sample_do AssignTarget [0, 1] 2)) False (named_child_nodes sample_do) None os e d' \<and>
     (nth_stmt sample_do 2, Some 1) \<in> set os"
proof -
  let ?D = "all_defs (sample_result sample_do AssignTarget [0, 1] 2)" and ?s = "nth_stmt sample_do"
  let ?b = "in_body (?s 1)" and ?k = "in_cond (?s 1)" and ?if = "nth_stmt (in_body (?s 1)) 1"
  let ?os = "[(nth_stmt ?b 0, Some 0)] @ [(in_cond ?if, Some 1)] @ []"
  have kids: "named_child_nodes sample_do = [?s 0, ?s 1, ?s 2]" by code_simp
  have body: "child_by_field_name BODY_FIELD (?s 1) = Some ?b" "child_by_field_name COND_FIELD (?s 1) = Some ?k"
    "named_child_nodes ?b = [nth_stmt ?b 0, ?if, nth_stmt ?b 2]"
    "child_by_field_name BODY_FIELD ?if = Some (in_body ?if)" by code_simp+
  have kinds: "kind_of ?if = IF_STMT" "kind_of ?b = FUNC_BLOCK" "kind_of (?s 1) = DO_WHILE_STMT" by code_simp+
  have r: "runs ?D (?s 0) None [(?s 0, None)] Falls (Some 0)" "runs ?D (?s 2) (Some 1) [(?s 2, Some 1)] Falls (Some 1)"
    "runs ?D (nth_stmt ?b 0) (Some 0) [(nth_stmt ?b 0, Some 0)] Falls (Some 1)"
    by (rule simple; code_simp)+
  have c: "test ?D (child_by_field_name COND_FIELD ?if) (Some 1) [(in_cond ?if, Some 1)] (Some 1)"
    "test ?D (child_by_field_name COND_FIELD (?s 1)) (Some 1) [(?k, Some 1)] (Some 1)" by code_simp+
  have "runs ?D (in_body ?if) (Some 1) [] Continued (Some 1)" by (rule continue) code_simp
  then have "runs ?D ?if (Some 1) ([(in_cond ?if, Some 1)] @ []) Continued (Some 1)"
    using if_then [OF kinds(1) c(1)] body(4) some_body by simp
  then have "runs_seq ?D False (named_child_nodes ?b) (Some 0) ?os Continued (Some 1)"
    unfolding body(3) by (intro seq_next [OF _ r(3)] seq_leave) simp_all
  from some_body [OF block [OF kinds(2) this]]
  have "runs_opt ?D (child_by_field_name BODY_FIELD (?s 1)) (Some 0) ?os Continued (Some 1)" by (simp only: body(1))
  from do_loop [OF kinds(3) this _ loop_done [OF c(2)]]
  have "runs ?D (?s 1) (Some 0) (?os @ [(?k, Some 1)]) Falls (Some 1)" by (simp add: goes_on_def)
  from seq_next [OF _ r(1) seq_next [OF _ this seq_next [OF _ r(2) seq_done]], of False]
  have "runs_seq ?D False (named_child_nodes sample_do) None
    ([(?s 0, None)] @ (?os @ [(?k, Some 1)]) @ [(?s 2, Some 1)] @ []) Falls (Some 1)" unfolding kids by simp
  then show ?thesis by (intro exI conjI) (assumption, simp)
qed

lemma sample_if_runs:
  "\<exists>os e d'. runs_seq (all_defs (sample_result sample_if OutArg [0] 1)) False (named_child_nodes sample_if) None os e d' \<and>
     (nth_stmt sample_if 2, Some 1) \<in> set os"
proof -
  let ?D = "all_defs (sample_result sample_if OutArg [0] 1)" and ?s = "nth_stmt sample_if"
  let ?b = "in_body (?s 1)" and ?c = "in_cond (?s 1)"
  have kids: "named_child_nodes sample_if = [?s 0, ?s 1, ?s 2]" "named_child_nodes ?b = []"
    "child_by_field_name BODY_FIELD (?s 1) = Some ?b" by code_simp+
  have kinds: "kind_of (?s 1) = IF_STMT" "kind_of ?b = FUNC_BLOCK" by code_simp+
  have r: "runs ?D (?s 0) None [(?s 0, None)] Falls (Some 0)" "runs ?D (?s 2) (Some 1) [(?s 2, Some 1)] Falls (Some 1)"
    by (rule simple; code_simp)+
  have c: "test ?D (child_by_field_name COND_FIELD (?s 1)) (Some 0) [(?c, Some 0)] (Some 1)" by code_simp
  have "runs ?D ?b (Some 1) [] Falls (Some 1)" by (rule block [OF kinds(2)]) (simp only: kids(2) seq_done)
  then have "runs ?D (?s 1) (Some 0) ([(?c, Some 0)] @ []) Falls (Some 1)"
    using if_then [OF kinds(1) c] kids(3) some_body by simp
  from seq_next [OF _ r(1) seq_next [OF _ this seq_next [OF _ r(2) seq_done]], of False]
  have "runs_seq ?D False (named_child_nodes sample_if) None
    ([(?s 0, None)] @ ([(?c, Some 0)] @ []) @ [(?s 2, Some 1)] @ []) Falls (Some 1)" unfolding kids(1) by simp
  then show ?thesis by (intro exI conjI) (assumption, simp)
qed

lemma sample_results:
  "per_read (sample_result sample_line AssignTarget [0] 1) = [(\<lparr>br_start = 17, br_end = 18\<rparr>, Some 1)]"
  "per_read (sample_result sample_do AssignTarget [0, 1] 2) = [(\<lparr>br_start = 74, br_end = 75\<rparr>, Some 2)]"
  "per_read (sample_result sample_if OutArg [0] 1) = [(\<lparr>br_start = 34, br_end = 35\<rparr>, Some 0)]"
  by code_simp+

lemma sample_defs: "all_defs (sample_result body how writes read) =
    build_defs (nth_stmt body 0) 1 (map (\<lambda>i. how (idents_of body ! i)) writes)"
  by (simp add: sample_result_def reaching_defs_def Let_def)

subsection \<open>Properties\<close>



text \<open>
  C37: both restrictions matter.  In
  \<open>var x; do { x = 2; if (c) continue; x = 3; } while (k); F(x);\<close> the analysis reports \<open>x = 3\<close> as
  the only definition reaching the call, though \<open>x = 2\<close> gets there through \<open>continue\<close>; in
  \<open>var x; if (G(x)) { } F(x);\<close>, where \<open>G\<close> sets its argument, it reports the declaration.
\<close>

theorem reaching_definitions_missed:
  "(\<exists>os e d' region. runs_seq (all_defs (sample_result sample_do AssignTarget [0, 1] 2)) False (named_child_nodes sample_do) None os e d' \<and>
      (region, Some 1) \<in> set os \<and> from_byte region \<le> 74 \<and> 75 \<le> to_byte region \<and>
      per_read (sample_result sample_do AssignTarget [0, 1] 2) = [(\<lparr>br_start = 74, br_end = 75\<rparr>, Some 2)]) \<and>
   (\<exists>os e d' region. runs_seq (all_defs (sample_result sample_if OutArg [0] 1)) False (named_child_nodes sample_if) None os e d' \<and>
      (region, Some 1) \<in> set os \<and> from_byte region \<le> 34 \<and> 35 \<le> to_byte region \<and>
      per_read (sample_result sample_if OutArg [0] 1) = [(\<lparr>br_start = 34, br_end = 35\<rparr>, Some 0)])"
proof -
  have "from_byte (nth_stmt sample_do 2) \<le> 74" "75 \<le> to_byte (nth_stmt sample_do 2)"
    "from_byte (nth_stmt sample_if 2) \<le> 34" "35 \<le> to_byte (nth_stmt sample_if 2)" by code_simp+
  with sample_do_runs sample_if_runs sample_results show ?thesis by blast
qed

end
