(* ===== verification/Server_State.thy ===== *)
theory Server_State
  imports Document_Parse Symbol_Db Subscriptions
begin

text \<open>
  The state of the language server and the operations on its published snapshot:
  \<^verbatim>\<open>src/bin/witcherscript-lsp/compilation.rs\<close>, \<^verbatim>\<open>file_scope.rs\<close>, \<^verbatim>\<open>backend.rs\<close>,
  \<^verbatim>\<open>indexing/helpers.rs\<close>, \<^verbatim>\<open>indexing/legacy.rs\<close>, \<^verbatim>\<open>indexing/open_documents.rs\<close> and the status
  notifications of \<^verbatim>\<open>diagnostics_publish.rs\<close>.  The \<open>url\<close> crate, the file system, the \<open>ignore\<close>
  crate and tree-sitter are the fields of a \<open>platform\<close>, an argument of the operations.  Paths are
  lists of components, so that \<open>Path::starts_with\<close> is the prefix order.
\<close>

type_synonym url = string
type_synonym path = "string list"

record platform =
  to_file_path :: "url \<Rightarrow> path option"
  from_file_path :: "path \<Rightarrow> url option"
  url_parse :: "string \<Rightarrow> url option"
  path_from :: "string \<Rightarrow> path"
  is_dir :: "path \<Rightarrow> bool"
  read_dir :: "path \<Rightarrow> string list option"
  read_text_file :: "path \<Rightarrow> string option"
  exclude_matches :: "path list \<Rightarrow> string list \<Rightarrow> path \<Rightarrow> bool"
  hash_finish :: hasher
  parse_tree :: ts_parse
  edit_tree :: "input_edit \<Rightarrow> node \<Rightarrow> node"

definition path_starts_with :: "path \<Rightarrow> path \<Rightarrow> bool" where
  "path_starts_with p dir \<longleftrightarrow> take (length dir) p = dir"

subsection \<open>URIs\<close>

definition canonical_uri :: "platform \<Rightarrow> url \<Rightarrow> string" where
  "canonical_uri pf uri =
     (case to_file_path pf uri of
        None \<Rightarrow> uri
      | Some p \<Rightarrow> (case from_file_path pf p of None \<Rightarrow> uri | Some u \<Rightarrow> u))"

definition any_dir_contains_uri :: "platform \<Rightarrow> string \<Rightarrow> path list \<Rightarrow> bool" where
  "any_dir_contains_uri pf uri dirs =
     (case Option.bind (url_parse pf uri) (to_file_path pf) of
        None \<Rightarrow> False
      | Some p \<Rightarrow> list_ex (path_starts_with p) dirs)"

definition BUILTIN_URI_PREFIX :: string where
  "BUILTIN_URI_PREFIX = ''witcherscript-builtin:/''"

definition is_builtin_uri :: "string \<Rightarrow> bool" where
  "is_builtin_uri uri = starts_with BUILTIN_URI_PREFIX uri"

subsection \<open>File scopes\<close>

datatype file_scope = InProject | LegacyOverride | LegacyNew | AdditionalBase | OutOfScope | SingleFile

fun is_loose :: "file_scope \<Rightarrow> bool" where
  "is_loose OutOfScope = True"
| "is_loose SingleFile = True"
| "is_loose _ = False"

definition classify_file_scope ::
  "platform \<Rightarrow> url \<Rightarrow> path list \<Rightarrow> path list \<Rightarrow> (string, string) hmap \<Rightarrow> path option \<Rightarrow> path list \<Rightarrow> file_scope" where
  "classify_file_scope pf uri roots legacy_dirs replacements base_dir additional =
     (let loose = (if roots = [] then SingleFile else OutOfScope)
      in case to_file_path pf uri of
           None \<Rightarrow> loose
         | Some p \<Rightarrow>
             if list_ex (path_starts_with p) roots then InProject
             else if list_ex (path_starts_with p) legacy_dirs then
               (if hget replacements (canonical_uri pf uri) \<noteq> None then LegacyOverride else LegacyNew)
             else if (case base_dir of None \<Rightarrow> False | Some d \<Rightarrow> path_starts_with p d) then AdditionalBase
             else if list_ex (path_starts_with p) additional then AdditionalBase
             else loose)"

subsection \<open>Pairing legacy scripts with the base scripts they replace\<close>

definition SCRIPTS_SEGMENT :: string where
  "SCRIPTS_SEGMENT = ''/scripts/''"

text \<open>\<open>str::rfind\<close> on a string pattern: the greatest offset where the pattern occurs.\<close>

fun rfind_str :: "string \<Rightarrow> string \<Rightarrow> nat option" where
  "rfind_str p [] = (if p = [] then Some 0 else None)"
| "rfind_str p (c # cs) =
     (case rfind_str p cs of
        Some i \<Rightarrow> Some (Suc i)
      | None \<Rightarrow> if starts_with p (c # cs) then Some 0 else None)"

definition relative_from_scripts :: "string \<Rightarrow> string option" where
  "relative_from_scripts uri = map_option (\<lambda>i. drop (i + length SCRIPTS_SEGMENT) uri) (rfind_str SCRIPTS_SEGMENT uri)"

definition basename_of :: "string \<Rightarrow> string option" where
  "basename_of uri =
     (let name = rev (takeWhile (\<lambda>c. c \<noteq> CHR ''/'') (rev uri)) in if name = [] then None else Some name)"

definition legacy_replaces_base :: "string \<Rightarrow> string \<Rightarrow> bool" where
  "legacy_replaces_base base_uri legacy_uri =
     (case relative_from_scripts base_uri of
        None \<Rightarrow> False
      | Some tail \<Rightarrow> ends_with (''/'' @ tail) legacy_uri)"

definition pair_legacy ::
  "string \<Rightarrow> string \<Rightarrow> string \<Rightarrow> string list \<times> (string, string) hmap \<Rightarrow> string list \<times> (string, string) hmap" where
  "pair_legacy canon legacy_uri base_uri acc =
     (if legacy_replaces_base base_uri legacy_uri then
        (List.insert base_uri (fst acc),
         case relative_from_scripts base_uri of None \<Rightarrow> snd acc | Some rel \<Rightarrow> hput canon rel (snd acc))
      else acc)"

definition legacy_base_replacements ::
  "platform \<Rightarrow> string list \<Rightarrow> string list \<Rightarrow> string list \<times> (string, string) hmap" where
  "legacy_base_replacements pf base_uris legacy_uris =
     (let base_by_basename =
            fold (\<lambda>b m. case basename_of b of None \<Rightarrow> m | Some name \<Rightarrow> entry_push name b m) base_uris []
      in fold (\<lambda>legacy_uri acc.
             case Option.bind (basename_of legacy_uri) (hget base_by_basename) of
               None \<Rightarrow> acc
             | Some candidates \<Rightarrow>
                 (let canon = (case url_parse pf legacy_uri of None \<Rightarrow> legacy_uri | Some u \<Rightarrow> canonical_uri pf u)
                  in fold (pair_legacy canon legacy_uri) candidates acc))
           legacy_uris ([], []))"

text \<open>\<open>find_mods_dir_ci\<close> and \<open>mod_shared_imports_dir\<close>; file names compare without ASCII case.\<close>

definition find_mods_dir_ci :: "platform \<Rightarrow> path \<Rightarrow> path option" where
  "find_mods_dir_ci pf game_dir =
     (if is_dir pf (game_dir @ [''Mods'']) then Some (game_dir @ [''Mods''])
      else case read_dir pf game_dir of
             None \<Rightarrow> None
           | Some names \<Rightarrow>
               map_option (\<lambda>n. game_dir @ [n])
                 (find (\<lambda>n. map to_ascii_lowercase n = ''mods'' \<and> is_dir pf (game_dir @ [n])) names))"

definition mod_shared_imports_dir :: "platform \<Rightarrow> path \<Rightarrow> path option" where
  "mod_shared_imports_dir pf game_dir =
     (case find_mods_dir_ci pf game_dir of
        None \<Rightarrow> None
      | Some d \<Rightarrow> (let p = d @ [''modSharedImports''] in if is_dir pf p then Some p else None))"

subsection \<open>Documents in an index\<close>

definition update_parsed :: "platform \<Rightarrow> string \<Rightarrow> parsed_document \<Rightarrow> workspace_index \<Rightarrow> (ObservedKey list \<times> workspace_index) outcome" where
  "update_parsed pf uri doc idx =
     update_document (hash_finish pf) uri (symbols (doc_symbols doc)) (doc_source doc) (doc_tree doc) idx"

definition index_open_document ::
  "platform \<Rightarrow> url \<Rightarrow> parsed_document \<Rightarrow> workspace_index \<Rightarrow> (ObservedKey list \<times> workspace_index) outcome" where
  "index_open_document pf uri doc idx =
     (let canon = canonical_uri pf uri;
          (changed, idx) = (if canon \<noteq> uri then remove_document uri idx else ([], idx))
      in obind (update_parsed pf canon doc idx) (\<lambda>(keys, idx). Returns (changed @ keys, idx)))"

definition remove_document_all_spellings ::
  "platform \<Rightarrow> url \<Rightarrow> workspace_index \<Rightarrow> ObservedKey list \<times> workspace_index" where
  "remove_document_all_spellings pf uri idx =
     (let (changed, idx) = remove_document uri idx;
          canon = canonical_uri pf uri
      in if canon \<noteq> uri then (let (keys, idx) = remove_document canon idx in (changed @ keys, idx))
         else (changed, idx))"

definition reindex_into ::
  "platform \<Rightarrow> string \<Rightarrow> string \<Rightarrow> parsed_document option \<Rightarrow> workspace_index \<Rightarrow> (string, parsed_document) hmap \<Rightarrow>
   (ObservedKey list \<times> workspace_index \<times> (string, parsed_document) hmap) outcome" where
  "reindex_into pf client_uri canon parsed idx docs =
     (let (changed, idx) = (if client_uri \<noteq> canon then remove_document client_uri idx else ([], idx))
      in case parsed of
           Some doc \<Rightarrow> obind (update_parsed pf canon doc idx) (\<lambda>(keys, idx).
             Returns (changed @ keys, idx, hput canon doc docs))
         | None \<Rightarrow> (let (keys, idx) = remove_document canon idx
                   in Returns (changed @ keys, idx, hdel canon docs)))"

subsection \<open>The published snapshot\<close>

record compilation =
  workspace_index :: workspace_index
  loose_index :: workspace_index
  base_scripts_index :: workspace_index
  c_script_env :: script_environment
  c_suppressed_base_uris :: "string list"
  c_filtered_base_catalogs :: "filtered_base_catalogs option"
  c_documents :: "(url, parsed_document) hmap"
  workspace_documents :: "(string, parsed_document) hmap"
  base_scripts_documents :: "(string, parsed_document) hmap"

datatype 'a set_to = Unset | SetTo "'a option"

record compilation_builder =
  b_base :: compilation
  b_workspace_index :: "workspace_index option"
  b_loose_index :: "workspace_index option"
  b_base_scripts_index :: "workspace_index option"
  b_script_env :: "script_environment option"
  b_suppressed_base_uris :: "string list option"
  b_filtered_base_catalogs :: "filtered_base_catalogs set_to"
  b_documents :: "(url, parsed_document) hmap option"
  b_workspace_documents :: "(string, parsed_document) hmap option"
  b_base_scripts_documents :: "(string, parsed_document) hmap option"

definition CompilationBuilder_new :: "compilation \<Rightarrow> compilation_builder" where
  "CompilationBuilder_new c =
     \<lparr>b_base = c, b_workspace_index = None, b_loose_index = None, b_base_scripts_index = None, b_script_env = None,
      b_suppressed_base_uris = None, b_filtered_base_catalogs = Unset, b_documents = None,
      b_workspace_documents = None, b_base_scripts_documents = None\<rparr>"

text \<open>\<open>cow_clone_mut\<close>: the value a mutation starts from.  The \<open>_mut\<close> accessors are written as the
  update of their slot by a function.\<close>

definition cow_clone_mut :: "'a option \<Rightarrow> 'a \<Rightarrow> 'a" where
  "cow_clone_mut slot b = (case slot of None \<Rightarrow> b | Some x \<Rightarrow> x)"

definition in_workspace_index :: "(workspace_index \<Rightarrow> ('r \<times> workspace_index) outcome) \<Rightarrow> compilation_builder \<Rightarrow> ('r \<times> compilation_builder) outcome" where
  "in_workspace_index f bd =
     obind (f (cow_clone_mut (b_workspace_index bd) (workspace_index (b_base bd)))) (\<lambda>(r, idx).
       Returns (r, bd\<lparr>b_workspace_index := Some idx\<rparr>))"

definition in_loose_index :: "(workspace_index \<Rightarrow> ('r \<times> workspace_index) outcome) \<Rightarrow> compilation_builder \<Rightarrow> ('r \<times> compilation_builder) outcome" where
  "in_loose_index f bd =
     obind (f (cow_clone_mut (b_loose_index bd) (loose_index (b_base bd)))) (\<lambda>(r, idx).
       Returns (r, bd\<lparr>b_loose_index := Some idx\<rparr>))"

definition in_base_scripts_index :: "(workspace_index \<Rightarrow> ('r \<times> workspace_index) outcome) \<Rightarrow> compilation_builder \<Rightarrow> ('r \<times> compilation_builder) outcome" where
  "in_base_scripts_index f bd =
     obind (f (cow_clone_mut (b_base_scripts_index bd) (base_scripts_index (b_base bd)))) (\<lambda>(r, idx).
       Returns (r, bd\<lparr>b_base_scripts_index := Some idx\<rparr>))"

definition documents_mut :: "((url, parsed_document) hmap \<Rightarrow> (url, parsed_document) hmap) \<Rightarrow> compilation_builder \<Rightarrow> compilation_builder" where
  "documents_mut f bd = bd\<lparr>b_documents := Some (f (cow_clone_mut (b_documents bd) (c_documents (b_base bd))))\<rparr>"

definition workspace_documents_mut :: "((string, parsed_document) hmap \<Rightarrow> (string, parsed_document) hmap) \<Rightarrow> compilation_builder \<Rightarrow> compilation_builder" where
  "workspace_documents_mut f bd =
     bd\<lparr>b_workspace_documents := Some (f (cow_clone_mut (b_workspace_documents bd) (workspace_documents (b_base bd))))\<rparr>"

definition base_scripts_documents_mut :: "((string, parsed_document) hmap \<Rightarrow> (string, parsed_document) hmap) \<Rightarrow> compilation_builder \<Rightarrow> compilation_builder" where
  "base_scripts_documents_mut f bd =
     bd\<lparr>b_base_scripts_documents := Some (f (cow_clone_mut (b_base_scripts_documents bd) (base_scripts_documents (b_base bd))))\<rparr>"

definition workspace_index_and_docs_mut ::
  "(workspace_index \<Rightarrow> (string, parsed_document) hmap \<Rightarrow> ('r \<times> workspace_index \<times> (string, parsed_document) hmap) outcome) \<Rightarrow>
   compilation_builder \<Rightarrow> ('r \<times> compilation_builder) outcome" where
  "workspace_index_and_docs_mut f bd =
     obind (f (cow_clone_mut (b_workspace_index bd) (workspace_index (b_base bd)))
              (cow_clone_mut (b_workspace_documents bd) (workspace_documents (b_base bd)))) (\<lambda>(r, idx, docs).
       Returns (r, bd\<lparr>b_workspace_index := Some idx, b_workspace_documents := Some docs\<rparr>))"

definition base_scripts_index_and_docs_mut ::
  "(workspace_index \<Rightarrow> (string, parsed_document) hmap \<Rightarrow> ('r \<times> workspace_index \<times> (string, parsed_document) hmap) outcome) \<Rightarrow>
   compilation_builder \<Rightarrow> ('r \<times> compilation_builder) outcome" where
  "base_scripts_index_and_docs_mut f bd =
     obind (f (cow_clone_mut (b_base_scripts_index bd) (base_scripts_index (b_base bd)))
              (cow_clone_mut (b_base_scripts_documents bd) (base_scripts_documents (b_base bd)))) (\<lambda>(r, idx, docs).
       Returns (r, bd\<lparr>b_base_scripts_index := Some idx, b_base_scripts_documents := Some docs\<rparr>))"

definition set_suppressed_base_uris :: "string list \<Rightarrow> compilation_builder \<Rightarrow> compilation_builder" where
  "set_suppressed_base_uris v bd = bd\<lparr>b_suppressed_base_uris := Some v\<rparr>"

definition set_filtered_base_catalogs :: "filtered_base_catalogs option \<Rightarrow> compilation_builder \<Rightarrow> compilation_builder" where
  "set_filtered_base_catalogs v bd = bd\<lparr>b_filtered_base_catalogs := SetTo v\<rparr>"

definition changes_views :: "compilation_builder \<Rightarrow> bool" where
  "changes_views bd \<longleftrightarrow>
     b_workspace_index bd \<noteq> None \<or> b_loose_index bd \<noteq> None \<or> b_base_scripts_index bd \<noteq> None \<or>
     b_script_env bd \<noteq> None \<or> b_suppressed_base_uris bd \<noteq> None \<or>
     (case b_filtered_base_catalogs bd of Unset \<Rightarrow> False | SetTo _ \<Rightarrow> True) \<or>
     b_workspace_documents bd \<noteq> None \<or> b_base_scripts_documents bd \<noteq> None"

definition builder_finish :: "compilation_builder \<Rightarrow> compilation" where
  "builder_finish bd =
     \<lparr>workspace_index = cow_clone_mut (b_workspace_index bd) (workspace_index (b_base bd)),
      loose_index = cow_clone_mut (b_loose_index bd) (loose_index (b_base bd)),
      base_scripts_index = cow_clone_mut (b_base_scripts_index bd) (base_scripts_index (b_base bd)),
      c_script_env = cow_clone_mut (b_script_env bd) (c_script_env (b_base bd)),
      c_suppressed_base_uris = cow_clone_mut (b_suppressed_base_uris bd) (c_suppressed_base_uris (b_base bd)),
      c_filtered_base_catalogs =
        (case b_filtered_base_catalogs bd of Unset \<Rightarrow> c_filtered_base_catalogs (b_base bd) | SetTo v \<Rightarrow> v),
      c_documents = cow_clone_mut (b_documents bd) (c_documents (b_base bd)),
      workspace_documents = cow_clone_mut (b_workspace_documents bd) (workspace_documents (b_base bd)),
      base_scripts_documents = cow_clone_mut (b_base_scripts_documents bd) (base_scripts_documents (b_base bd))\<rparr>"


subsection \<open>The server\<close>

text \<open>The settings, and the caches the operations below clear or evict from.\<close>

datatype annotation_placement = Preserve | OwnLine | SameLine

datatype diagnostics_scope = ScopeWorkspace | ScopeOpenFiles | ScopeNone

definition LEVEL_WARN :: "8 word" where
  "LEVEL_WARN = 2"

record config =
  log_level :: "8 word"
  auto_load_mod_shared_imports :: bool
  auto_detect_project_manifests :: bool
  diagnostics_scope :: diagnostics_scope
  formatter_line_limit :: u32
  formatter_compact_colon :: bool
  formatter_align_member_colons :: bool
  formatter_annotation_placement :: annotation_placement
  formatter_default_placement :: annotation_placement
  editor_tab_size :: u32
  editor_insert_spaces :: bool
  code_lens_overridden_symbols :: bool
  code_lens_references :: bool
  inlay_hints :: bool
  game_directory :: "path option"
  base_scripts_override :: "path option"
  files_exclude :: "string list"
  additional_script_dirs :: "path list"
  legacy_script_dirs :: "path list"

text \<open>JSON values as \<^verbatim>\<open>serde_json\<close> has them; an object lists its entries in the order of the map.\<close>

datatype json_number = PosInt u64 | NegInt int | Float string

datatype json = JNull | JBool bool | JNumber json_number | JString string | JArray "json list" | JObject "(string \<times> json) list"

datatype severity = Error | Warning | Info | Hint

record related_location =
  rel_uri :: string
  rel_range :: source_range
  rel_message :: string

record workspace_diagnostic =
  wd_kind :: string
  wd_message :: string
  wd_severity :: severity
  wd_range :: source_range
  wd_related :: "related_location list"
  wd_data :: "json option"

record db_fingerprint =
  base_surface :: u64
  fp_env :: u64
  fp_legacy_db_generation :: u64

record cst_cache_entry =
  ce_parse_version :: u64
  ce_db_fingerprint :: db_fingerprint
  ce_diagnostics :: "workspace_diagnostic list"

record merged_completion_cache =
  mc_workspace_surface :: u64
  mc_base_surface :: u64
  mc_script_env_version :: u64
  mc_types :: "definition_site list"
  mc_globals :: "definition_site list"

record cached_semantic_tokens =
  result_id :: string
  token_data :: "u32 list"

record legacy_script_status_params =
  ls_uri :: string
  ls_replaces_base_script :: bool
  ls_replaced_script_path :: "string option"

record file_scope_status_params =
  fs_uri :: string
  fs_scope :: file_scope
  fs_replaced_script_path :: "string option"

datatype client_notification =
    LegacyScriptStatus legacy_script_status_params
  | FileScopeStatus file_scope_status_params

record pending_edit =
  pe_source :: string
  pe_line_index :: line_index
  pe_tree :: node
  target_parse_version :: u64

text \<open>A \<open>Notify\<close> holds at most one permit.  The locks are the critical sections of the operations, and
  the cached bundle of whole-workspace diagnostics belongs to the requests, which are not modelled.  The notifications sent to the client are kept in order.
  The process-wide counter of parse versions is part of the state.\<close>

record backend =
  be_config :: config
  be_compilation :: compilation
  workspace_roots :: "path list"
  manifest_legacy_dirs :: "(string, path) hmap"
  legacy_replacements :: "(string, string) hmap"
  sent_legacy_status :: "(url, legacy_script_status_params) hmap"
  sent_file_scope_status :: "(url, file_scope_status_params) hmap"
  workspace_known_files :: "string list"
  be_builtins_index :: workspace_index
  workspace_subscriptions :: subscription_registry
  loose_subscriptions :: subscription_registry
  cst_diag_cache :: "(string, cst_cache_entry) hmap"
  merged_completion_cache_workspace :: "merged_completion_cache option"
  merged_completion_cache_loose :: "merged_completion_cache option"
  semantic_tokens_cache :: "(url, cached_semantic_tokens) hmap"
  semantic_tokens_result_id :: u64
  initial_index_done :: bool
  legacy_db_generation :: u64
  state_version :: u64
  client_supports_pull_diagnostics :: bool
  client_supports_code_lens_refresh :: bool
  client_supports_semantic_tokens_refresh :: bool
  client_supports_inlay_hint_refresh :: bool
  pending_edits :: "(url, pending_edit) hmap"
  edit_permit :: bool
  edit_writer_spawned :: bool
  views_permit :: bool
  view_refresher_spawned :: bool
  parse_counter :: u64
  client_log :: "client_notification list"

definition Config_default :: config where
  "Config_default =
     \<lparr>log_level = LEVEL_WARN, auto_load_mod_shared_imports = True, auto_detect_project_manifests = True,
      diagnostics_scope = ScopeWorkspace, formatter_line_limit = 100, formatter_compact_colon = False,
      formatter_align_member_colons = False, formatter_annotation_placement = Preserve,
      formatter_default_placement = Preserve, editor_tab_size = 4, editor_insert_spaces = True,
      code_lens_overridden_symbols = True, code_lens_references = False, inlay_hints = True,
      game_directory = None, base_scripts_override = None, files_exclude = [],
      additional_script_dirs = [], legacy_script_dirs = []\<rparr>"

text \<open>The two counters are the process-wide ones of script environments and of parses; the index of the
  builtins is loaded by \<^verbatim>\<open>builtins.rs\<close>.\<close>

definition Compilation_default :: "u64 \<Rightarrow> compilation \<times> u64" where
  "Compilation_default fingerprints =
     (let (env, fingerprints) = ScriptEnvironment_default fingerprints
      in (\<lparr>workspace_index = WorkspaceIndex_default, loose_index = WorkspaceIndex_default,
           base_scripts_index = WorkspaceIndex_default, c_script_env = env, c_suppressed_base_uris = [],
           c_filtered_base_catalogs = None, c_documents = [], workspace_documents = [], base_scripts_documents = []\<rparr>,
          fingerprints))"

definition Backend_new :: "config \<Rightarrow> workspace_index \<Rightarrow> u64 \<Rightarrow> u64 \<Rightarrow> backend" where
  "Backend_new cfg builtin_idx fingerprints parses =
     \<lparr>be_config = cfg, be_compilation = fst (Compilation_default fingerprints), workspace_roots = [],
      manifest_legacy_dirs = [], legacy_replacements = [], sent_legacy_status = [], sent_file_scope_status = [],
      workspace_known_files = [], be_builtins_index = builtin_idx, workspace_subscriptions = SubscriptionRegistry_default,
      loose_subscriptions = SubscriptionRegistry_default, cst_diag_cache = [],
      merged_completion_cache_workspace = None, merged_completion_cache_loose = None, semantic_tokens_cache = [],
      semantic_tokens_result_id = 0, initial_index_done = False, legacy_db_generation = 0, state_version = 0,
      client_supports_pull_diagnostics = False, client_supports_code_lens_refresh = False,
      client_supports_semantic_tokens_refresh = False, client_supports_inlay_hint_refresh = False, pending_edits = [], edit_permit = False,
      edit_writer_spawned = False, views_permit = False, view_refresher_spawned = False, parse_counter = parses, client_log = []\<rparr>"

definition BASE_SCRIPTS_SUBDIR :: path where
  "BASE_SCRIPTS_SUBDIR = [''content'', ''content0'', ''scripts'']"

definition base_scripts_dir :: "backend \<Rightarrow> path option" where
  "base_scripts_dir be =
     (case base_scripts_override (be_config be) of
        Some d \<Rightarrow> Some d
      | None \<Rightarrow> map_option (\<lambda>gd. gd @ BASE_SCRIPTS_SUBDIR) (game_directory (be_config be)))"

definition push_new :: "'a \<Rightarrow> 'a list \<Rightarrow> 'a list" where
  "push_new x xs = (if x \<in> set xs then xs else xs @ [x])"

definition effective_legacy_dirs :: "platform \<Rightarrow> backend \<Rightarrow> path list" where
  "effective_legacy_dirs pf be =
     (let cfg = be_config be;
          dirs = legacy_script_dirs cfg;
          dirs = (if auto_load_mod_shared_imports cfg then
                    (case Option.bind (game_directory cfg) (mod_shared_imports_dir pf) of
                       None \<Rightarrow> dirs | Some msi \<Rightarrow> push_new msi dirs)
                  else dirs)
      in fold push_new (hvalues (manifest_legacy_dirs be)) dirs)"

definition file_scope_of :: "platform \<Rightarrow> url \<Rightarrow> backend \<Rightarrow> file_scope" where
  "file_scope_of pf uri be =
     classify_file_scope pf uri (workspace_roots be) (effective_legacy_dirs pf be) (legacy_replacements be)
       (base_scripts_dir be) (additional_script_dirs (be_config be))"

definition is_uri_excluded :: "platform \<Rightarrow> url \<Rightarrow> backend \<Rightarrow> bool \<times> backend" where
  "is_uri_excluded pf uri be =
     (case to_file_path pf uri of
        None \<Rightarrow> (False, be)
      | Some p \<Rightarrow>
          if \<not> list_ex (path_starts_with p) (workspace_roots be) then (False, be)
          else let canon = canonical_uri pf uri
               in if canon \<in> set (workspace_known_files be) then (False, be)
                  else if exclude_matches pf (workspace_roots be) (files_exclude (be_config be)) p then (True, be)
                  else (False, be\<lparr>workspace_known_files := List.insert canon (workspace_known_files be)\<rparr>))"

definition publish_compilation ::
  "(compilation_builder \<Rightarrow> ('r \<times> compilation_builder) outcome) \<Rightarrow> backend \<Rightarrow> ('r \<times> backend) outcome" where
  "publish_compilation edit be =
     obind (edit (CompilationBuilder_new (be_compilation be))) (\<lambda>(r, bd).
       let be = be\<lparr>be_compilation := builder_finish bd\<rparr>
       in Returns (r, if changes_views bd
                      then be\<lparr>state_version := state_version be + 1, views_permit := True\<rparr> else be))"

definition invalidated_workspace :: "ObservedKey list \<Rightarrow> backend \<Rightarrow> string list" where
  "invalidated_workspace keys be = subscribers_of keys (workspace_subscriptions be)"

definition invalidated_loose :: "ObservedKey list \<Rightarrow> backend \<Rightarrow> string list" where
  "invalidated_loose keys be = subscribers_of keys (loose_subscriptions be)"

definition evict_cache_entries :: "string list \<Rightarrow> backend \<Rightarrow> backend" where
  "evict_cache_entries uris be =
     be\<lparr>cst_diag_cache := filter (\<lambda>(u, _). u \<notin> set uris) (cst_diag_cache be)\<rparr>"

definition rebuild_filtered_base_catalogs :: "backend \<Rightarrow> backend outcome" where
  "rebuild_filtered_base_catalogs be =
     obind (publish_compilation (\<lambda>bd.
       let suppressed = c_suppressed_base_uris (b_base bd)
       in Returns ((), set_filtered_base_catalogs
            (if suppressed = [] then None
             else Some (FilteredBaseCatalogs_build (base_scripts_index (b_base bd)) suppressed)) bd)) be) (\<lambda>(_, be).
     Returns (be\<lparr>merged_completion_cache_workspace := None, merged_completion_cache_loose := None,
                 legacy_db_generation := legacy_db_generation be + 1\<rparr>))"

definition legacy_uris_in_workspace_index :: "platform \<Rightarrow> backend \<Rightarrow> string list" where
  "legacy_uris_in_workspace_index pf be =
     (let legacy_dirs = effective_legacy_dirs pf be
      in if legacy_dirs = [] then []
         else filter (\<lambda>uri. any_dir_contains_uri pf uri legacy_dirs)
                (hkeys (documents (workspace_index (be_compilation be)))))"

definition refresh_legacy_override_maps :: "platform \<Rightarrow> backend \<Rightarrow> backend outcome" where
  "refresh_legacy_override_maps pf be =
     (let base_uris = hkeys (base_scripts_documents (be_compilation be));
          (suppressed, replacements) = legacy_base_replacements pf base_uris (legacy_uris_in_workspace_index pf be)
      in obind (publish_compilation (\<lambda>bd. Returns ((), set_suppressed_base_uris suppressed bd)) be) (\<lambda>(_, be).
         rebuild_filtered_base_catalogs (be\<lparr>legacy_replacements := replacements\<rparr>)))"

definition refresh_legacy_override_maps_if_legacy_uri :: "platform \<Rightarrow> url \<Rightarrow> backend \<Rightarrow> backend outcome" where
  "refresh_legacy_override_maps_if_legacy_uri pf uri be =
     (if any_dir_contains_uri pf uri (effective_legacy_dirs pf be) then refresh_legacy_override_maps pf be
      else Returns be)"

subsection \<open>Status notifications\<close>

definition LegacyScriptStatusParams_new :: "string \<Rightarrow> string option \<Rightarrow> legacy_script_status_params" where
  "LegacyScriptStatusParams_new uri replaced =
     \<lparr>ls_uri = uri, ls_replaces_base_script = replaced \<noteq> None, ls_replaced_script_path = replaced\<rparr>"

text \<open>Both publishers send the parameters of each open document unless the same were sent last.\<close>

definition send_new ::
  "(url \<Rightarrow> 'p) \<Rightarrow> url list \<Rightarrow> (url, 'p) hmap \<Rightarrow> (url, 'p) hmap \<times> 'p list" where
  "send_new params uris sent =
     fold (\<lambda>uri (sent, out). if hget sent uri = Some (params uri) then (sent, out)
            else (hput uri (params uri) sent, out @ [params uri])) uris (sent, [])"

definition publish_legacy_script_status :: "platform \<Rightarrow> backend \<Rightarrow> backend" where
  "publish_legacy_script_status pf be =
     (let (sent, out) = send_new (\<lambda>uri. LegacyScriptStatusParams_new uri
                          (hget (legacy_replacements be) (canonical_uri pf uri)))
                        (hkeys (c_documents (be_compilation be))) (sent_legacy_status be)
      in be\<lparr>sent_legacy_status := sent, client_log := client_log be @ map LegacyScriptStatus out\<rparr>)"

definition file_scope_status :: "platform \<Rightarrow> backend \<Rightarrow> url \<Rightarrow> file_scope_status_params" where
  "file_scope_status pf be uri =
     (let scope = file_scope_of pf uri be
      in \<lparr>fs_uri = uri, fs_scope = scope, fs_replaced_script_path =
            (if scope = LegacyOverride then hget (legacy_replacements be) (canonical_uri pf uri) else None)\<rparr>)"

definition publish_file_scope_status :: "platform \<Rightarrow> backend \<Rightarrow> backend" where
  "publish_file_scope_status pf be =
     (let (sent, out) = send_new (file_scope_status pf be) (hkeys (c_documents (be_compilation be)))
                          (sent_file_scope_status be)
      in be\<lparr>sent_file_scope_status := sent, client_log := client_log be @ map FileScopeStatus out\<rparr>)"

subsection \<open>Open documents\<close>

definition route_document_to_index ::
  "platform \<Rightarrow> url \<Rightarrow> file_scope \<Rightarrow> parsed_document \<Rightarrow> compilation_builder \<Rightarrow>
   ((ObservedKey list \<times> ObservedKey list) \<times> compilation_builder) outcome" where
  "route_document_to_index pf uri scope doc bd =
     (let drop_from = (\<lambda>idx. Returns (remove_document_all_spellings pf uri idx));
          add_to = index_open_document pf uri doc
      in if scope = AdditionalBase then
           obind (in_workspace_index drop_from bd) (\<lambda>(ws, bd).
           obind (in_loose_index drop_from bd) (\<lambda>(loose, bd).
           obind (in_base_scripts_index add_to bd) (\<lambda>(_, bd). Returns ((ws, loose), bd))))
         else if is_loose scope then
           obind (in_workspace_index drop_from bd) (\<lambda>(ws, bd).
           obind (in_base_scripts_index drop_from bd) (\<lambda>(_, bd).
           obind (in_loose_index add_to bd) (\<lambda>(loose, bd). Returns ((ws, loose), bd))))
         else
           obind (in_base_scripts_index drop_from bd) (\<lambda>(_, bd).
           obind (in_loose_index drop_from bd) (\<lambda>(loose, bd).
           obind (in_workspace_index add_to bd) (\<lambda>(ws, bd). Returns ((ws, loose), bd)))))"

definition publish_open_document_indices :: "platform \<Rightarrow> url \<Rightarrow> parsed_document \<Rightarrow> backend \<Rightarrow> backend outcome" where
  "publish_open_document_indices pf uri doc be =
     (let scope = file_scope_of pf uri be
      in obind (publish_compilation (\<lambda>bd.
           obind (route_document_to_index pf uri scope doc bd) (\<lambda>(keys, bd).
             Returns (keys, documents_mut (hput uri doc) bd))) be) (\<lambda>((ws, loose), be).
         Returns (evict_cache_entries (invalidated_workspace ws be @ invalidated_loose loose be) be)))"

definition or_else_opt :: "'a option \<Rightarrow> 'a option \<Rightarrow> 'a option" where
  "or_else_opt x y = (case x of None \<Rightarrow> y | Some v \<Rightarrow> Some v)"

definition reuse_unchanged_open_document :: "platform \<Rightarrow> url \<Rightarrow> string \<Rightarrow> backend \<Rightarrow> (bool \<times> backend) outcome" where
  "reuse_unchanged_open_document pf uri txt be =
     (let snap = be_compilation be; canon = canonical_uri pf uri
      in case or_else_opt (hget (c_documents snap) uri)
                (or_else_opt (hget (workspace_documents snap) canon) (hget (base_scripts_documents snap) canon)) of
           None \<Rightarrow> Returns (False, be)
         | Some existing \<Rightarrow>
             if doc_source existing \<noteq> txt then Returns (False, be)
             else if hget (c_documents snap) uri = None then
               obind (publish_compilation (\<lambda>bd. Returns ((), documents_mut (hput uri existing) bd)) be) (\<lambda>(_, be).
                 Returns (True, be))
             else Returns (True, be))"

definition update_open_document_with_prior ::
  "platform \<Rightarrow> url \<Rightarrow> string \<Rightarrow> node option \<Rightarrow> backend \<Rightarrow> (bool \<times> backend) outcome" where
  "update_open_document_with_prior pf uri txt prior be =
     obind (reuse_unchanged_open_document pf uri txt be) (\<lambda>(reused, be).
       if reused then Returns (False, be)
       else obind (parse_document_with_prior (parse_tree pf) txt prior (parse_counter be)) (\<lambda>(parsed, counter).
         let be = be\<lparr>parse_counter := counter\<rparr>
         in case parsed of
              Inl _ \<Rightarrow> Returns (False, be)
            | Inr doc \<Rightarrow> obind (publish_open_document_indices pf uri doc be) (\<lambda>be. Returns (True, be))))"

definition update_open_document :: "platform \<Rightarrow> url \<Rightarrow> string \<Rightarrow> backend \<Rightarrow> (bool \<times> backend) outcome" where
  "update_open_document pf uri txt be = update_open_document_with_prior pf uri txt None be"


definition is_base_script_uri :: "platform \<Rightarrow> url \<Rightarrow> backend \<Rightarrow> bool" where
  "is_base_script_uri pf uri be \<longleftrightarrow> file_scope_of pf uri be = AdditionalBase"

text \<open>The unedited branch of \<open>reindex_closed_file\<close>: the cached copy is refreshed only when it is older
  than the buffer.\<close>

fun is_stale :: "parsed_document option \<Rightarrow> parsed_document option \<Rightarrow> bool" where
  "is_stale (Some op) (Some cached) \<longleftrightarrow> doc_source op \<noteq> doc_source cached"
| "is_stale (Some _) None \<longleftrightarrow> True"
| "is_stale None _ \<longleftrightarrow> False"

definition close_buffer :: "url \<Rightarrow> string \<Rightarrow> bool \<Rightarrow> bool \<Rightarrow> parsed_document option \<Rightarrow> compilation_builder \<Rightarrow> compilation_builder" where
  "close_buffer uri canon is_base stale open_doc bd =
     (let bd = documents_mut (hdel uri) bd
      in case open_doc of
           Some doc \<Rightarrow>
             if stale then
               (if is_base then base_scripts_documents_mut (hput canon doc) bd else workspace_documents_mut (hput canon doc) bd)
             else bd
         | None \<Rightarrow> bd)"

definition close_unedited :: "platform \<Rightarrow> url \<Rightarrow> bool \<Rightarrow> backend \<Rightarrow> backend outcome" where
  "close_unedited pf uri is_base be =
     (let canon = canonical_uri pf uri; snap = be_compilation be;
          open_doc = hget (c_documents snap) uri;
          cached = hget (if is_base then base_scripts_documents snap else workspace_documents snap) canon
      in obind (publish_compilation (\<lambda>bd. Returns ((), close_buffer uri canon is_base (is_stale open_doc cached) open_doc bd)) be)
           (\<lambda>(_, be). Returns be))"

definition parse_disk_text :: "platform \<Rightarrow> string option \<Rightarrow> backend \<Rightarrow> (parsed_document option \<times> backend) outcome" where
  "parse_disk_text pf disk_text be =
     (case disk_text of
        None \<Rightarrow> Returns (None, be)
      | Some txt \<Rightarrow>
          obind (parse_document_with_prior (parse_tree pf) txt None (parse_counter be)) (\<lambda>(parsed, counter).
            Returns (case parsed of Inl _ \<Rightarrow> None | Inr doc \<Rightarrow> Some doc, be\<lparr>parse_counter := counter\<rparr>)))"

definition reindex_closed_file :: "platform \<Rightarrow> url \<Rightarrow> string option \<Rightarrow> backend \<Rightarrow> (bool \<times> backend) outcome" where
  "reindex_closed_file pf uri prior_source be =
     (let canon = canonical_uri pf uri;
          is_base = is_base_script_uri pf uri be;
          disk_text = Option.bind (to_file_path pf uri) (read_text_file pf)
      in if prior_source \<noteq> None \<and> prior_source = disk_text then
           obind (close_unedited pf uri is_base be) (\<lambda>be. Returns (False, be))
         else
           obind (parse_disk_text pf disk_text be) (\<lambda>(parsed, be).
           obind (publish_compilation (\<lambda>bd.
                    let bd = documents_mut (hdel uri) bd
                    in (if is_base then base_scripts_index_and_docs_mut else workspace_index_and_docs_mut)
                         (reindex_into pf uri canon parsed) bd) be) (\<lambda>(changed, be).
             Returns (True, evict_cache_entries (if is_base then [] else invalidated_workspace changed be) be))))"

fun reroute_all ::
  "platform \<Rightarrow> (url \<times> file_scope) list \<Rightarrow> compilation_builder \<Rightarrow>
   ((ObservedKey list \<times> ObservedKey list \<times> string list) \<times> compilation_builder) outcome" where
  "reroute_all pf [] bd = Returns (([], [], []), bd)"
| "reroute_all pf ((uri, scope) # rest) bd =
     (case hget (c_documents (b_base bd)) uri of
        None \<Rightarrow> reroute_all pf rest bd
      | Some doc \<Rightarrow>
          obind (route_document_to_index pf uri scope doc bd) (\<lambda>((ws, loose), bd).
          obind (reroute_all pf rest bd) (\<lambda>((ws', loose', inv), bd).
            Returns ((ws @ ws', loose @ loose', canonical_uri pf uri # inv), bd))))"

definition reindex_open_documents :: "platform \<Rightarrow> backend \<Rightarrow> backend outcome" where
  "reindex_open_documents pf be =
     (let docs = c_documents (be_compilation be)
      in if docs = [] then Returns be
         else obind (publish_compilation (reroute_all pf (map (\<lambda>uri. (uri, file_scope_of pf uri be)) (hkeys docs))) be)
           (\<lambda>((ws, loose, inv), be).
             Returns (evict_cache_entries (inv @ invalidated_workspace ws be @ invalidated_loose loose be) be)))"

end
