(* ===== verification/Edit_Queue.thy ===== *)
theory Edit_Queue
  imports Server_State
begin

text \<open>
  \<^verbatim>\<open>src/bin/witcherscript-lsp/edit_queue.rs\<close> and \<^verbatim>\<open>text_sync.rs\<close>: the notifications that open, change
  and close a document, the queue of edits that wait to be parsed, and the writer task that works
  it off, as a state machine with one step per critical section of the code.
\<close>

subsection \<open>The queue\<close>

definition clone_pending_for :: "url \<Rightarrow> backend \<Rightarrow> pending_edit option" where
  "clone_pending_for uri be = hget (pending_edits be) uri"

definition pending_target_for :: "url \<Rightarrow> backend \<Rightarrow> u64 option" where
  "pending_target_for uri be = map_option target_parse_version (hget (pending_edits be) uri)"

definition latest_edit_state :: "url \<Rightarrow> backend \<Rightarrow> (string \<times> line_index \<times> node) option" where
  "latest_edit_state uri be =
     (case hget (pending_edits be) uri of
        Some e \<Rightarrow> Some (pe_source e, pe_line_index e, pe_tree e)
      | None \<Rightarrow> map_option (\<lambda>doc. (doc_source doc, doc_line_index doc, doc_tree doc))
                 (hget (c_documents (be_compilation be)) uri))"

definition latest_parsed_document :: "platform \<Rightarrow> url \<Rightarrow> backend \<Rightarrow> (parsed_document option \<times> backend) outcome" where
  "latest_parsed_document pf uri be =
     (case hget (pending_edits be) uri of
        None \<Rightarrow> Returns (hget (c_documents (be_compilation be)) uri, be)
      | Some e \<Rightarrow>
          obind (parse_document_with_prior (parse_tree pf) (pe_source e) (Some (pe_tree e)) (parse_counter be)) (\<lambda>(parsed, counter).
            Returns (case parsed of Inl _ \<Rightarrow> None | Inr doc \<Rightarrow> Some doc, be\<lparr>parse_counter := counter\<rparr>)))"

definition process_pending_edit :: "platform \<Rightarrow> url \<Rightarrow> pending_edit \<Rightarrow> backend \<Rightarrow> backend outcome" where
  "process_pending_edit pf uri e be =
     obind (parse_document_with_prior (parse_tree pf) (pe_source e) (Some (pe_tree e)) (parse_counter be)) (\<lambda>(parsed, counter).
       let be = be\<lparr>parse_counter := counter\<rparr>
       in case parsed of
            Inl _ \<Rightarrow> Returns be
          | Inr doc \<Rightarrow> publish_open_document_indices pf uri (doc\<lparr>parse_version := target_parse_version e\<rparr>) be)"

definition enqueue_edit :: "platform \<Rightarrow> url \<Rightarrow> string \<Rightarrow> line_index \<Rightarrow> node \<Rightarrow> backend \<Rightarrow> backend outcome" where
  "enqueue_edit pf uri source li tree be =
     (let (target, counter) = next_parse_version (parse_counter be);
          be = be\<lparr>parse_counter := counter\<rparr>;
          e = \<lparr>pe_source = source, pe_line_index = li, pe_tree = tree, target_parse_version = target\<rparr>
      in if \<not> edit_writer_spawned be then process_pending_edit pf uri e be
         else Returns (be\<lparr>pending_edits := hput uri e (pending_edits be), edit_permit := True\<rparr>))"

subsection \<open>Notifications\<close>

record content_change =
  cc_range :: "source_range option"
  cc_text :: string

definition did_open :: "platform \<Rightarrow> url \<Rightarrow> string \<Rightarrow> backend \<Rightarrow> backend outcome" where
  "did_open pf uri txt be =
     (if is_builtin_uri uri then Returns be
      else case is_uri_excluded pf uri be of (excluded, be) \<Rightarrow>
        if excluded then Returns be
        else let be = be\<lparr>sent_legacy_status := hdel uri (sent_legacy_status be),
                         sent_file_scope_status := hdel uri (sent_file_scope_status be)\<rparr>;
                 legacy_dirs = effective_legacy_dirs pf be
             in obind (update_open_document pf uri txt be) (\<lambda>(reindexed, be).
                obind (if reindexed \<and> any_dir_contains_uri pf uri legacy_dirs
                       then refresh_legacy_override_maps pf be else Returns be) (\<lambda>be.
                  Returns (publish_file_scope_status pf (publish_legacy_script_status pf be)))))"

fun change_loop ::
  "platform \<Rightarrow> content_change list \<Rightarrow> string \<Rightarrow> line_index \<Rightarrow> node \<Rightarrow> bool \<Rightarrow> (string \<times> line_index \<times> node \<times> bool) option outcome" where
  "change_loop pf [] source li tree valid = Returns (Some (source, li, tree, valid))"
| "change_loop pf (c # cs) source li tree valid =
     obind (apply_content_change source li (cc_range c) (cc_text c)) (\<lambda>r.
       case r of
         None \<Rightarrow> Returns None
       | Some (next_source, edit) \<Rightarrow>
           (let (tree, valid) = (case edit of
                                   Some e \<Rightarrow> (if valid then edit_tree pf e tree else tree, valid)
                                 | None \<Rightarrow> (tree, False))
            in change_loop pf cs next_source (LineIndex_new next_source) tree valid))"

definition did_change :: "platform \<Rightarrow> url \<Rightarrow> content_change list \<Rightarrow> backend \<Rightarrow> backend outcome" where
  "did_change pf uri changes be =
     (if is_builtin_uri uri then Returns be
      else case is_uri_excluded pf uri be of (excluded, be) \<Rightarrow>
        if excluded then Returns be
        else case latest_edit_state uri be of
               None \<Rightarrow> Returns be
             | Some (source, li, tree) \<Rightarrow>
                 obind (change_loop pf changes source li tree True) (\<lambda>r.
                   case r of
                     None \<Rightarrow> Returns be
                   | Some (source, li, tree, valid) \<Rightarrow>
                       if valid then enqueue_edit pf uri source li tree be
                       else obind (update_open_document pf uri source be) (\<lambda>(_, be). Returns be)))"

definition did_close :: "platform \<Rightarrow> url \<Rightarrow> backend \<Rightarrow> backend outcome" where
  "did_close pf uri be =
     (if is_builtin_uri uri then Returns be
      else let scope = file_scope_of pf uri be;
               (excluded, be) = (if is_loose scope then (False, be) else is_uri_excluded pf uri be)
           in obind (if is_loose scope \<or> excluded then
                obind (publish_compilation (\<lambda>bd.
                    let bd = documents_mut (hdel uri) bd;
                        drop_from = (\<lambda>idx. Returns (remove_document_all_spellings pf uri idx))
                    in if is_loose scope then in_loose_index drop_from bd else in_workspace_index drop_from bd) be) (\<lambda>(changed, be).
                  Returns (evict_cache_entries
                    (if is_loose scope then invalidated_loose changed be else invalidated_workspace changed be) be))
              else
                obind (reindex_closed_file pf uri (map_option doc_source (hget (c_documents (be_compilation be)) uri)) be) (\<lambda>(changed, be).
                  if changed then refresh_legacy_override_maps_if_legacy_uri pf uri be else Returns be)) (\<lambda>be.
              let be = publish_file_scope_status pf be
              in Returns (be\<lparr>sent_file_scope_status := hdel uri (sent_file_scope_status be),
                             semantic_tokens_cache := hdel uri (semantic_tokens_cache be)\<rparr>)))"

subsection \<open>The writer task\<close>

text \<open>\<open>run_edit_writer\<close>: it waits for a permit, then works through rounds over the keys of the queue
  until the queue is empty.  Each edit is cloned and published under the tree lock
  (\<open>Holding\<close>), which a change notification also takes; its entry is removed afterwards if no newer edit has
  replaced it.\<close>

datatype writer =
    Asleep
  | Scanning
  | Working "url list"
  | Holding url pending_edit "url list"
  | Published url u64 "url list"

fun writer_step :: "platform \<Rightarrow> writer \<Rightarrow> backend \<Rightarrow> (writer \<times> backend) option outcome" where
  "writer_step pf Asleep be =
     Returns (if edit_permit be then Some (Scanning, be\<lparr>edit_permit := False\<rparr>) else None)"
| "writer_step pf Scanning be =
     (let uris = hkeys (pending_edits be)
      in Returns (Some (if uris = [] then Asleep else Working uris, be)))"
| "writer_step pf (Working []) be = Returns (Some (Scanning, be))"
| "writer_step pf (Working (uri # uris)) be =
     Returns (Some (case clone_pending_for uri be of None \<Rightarrow> Working uris | Some e \<Rightarrow> Holding uri e uris, be))"
| "writer_step pf (Holding uri e uris) be =
     obind (process_pending_edit pf uri e be) (\<lambda>be. Returns (Some (Published uri (target_parse_version e) uris, be)))"
| "writer_step pf (Published uri processed_target uris) be =
     Returns (Some (Working uris,
       if map_option target_parse_version (hget (pending_edits be) uri) = Some processed_target
       then be\<lparr>pending_edits := hdel uri (pending_edits be)\<rparr> else be))"

end
