(* ===== verification/Queue_Effects.thy ===== *)
theory Queue_Effects
  imports Edit_Queue
begin

text \<open>
  What each operation of \<^verbatim>\<open>Server_State\<close> and \<^verbatim>\<open>Edit_Queue\<close> does to the texts the server has published, to the
  queue, to the counter of parse versions and to the indexes of lines; everything later about the
  server rests on these effects.
\<close>

subsection \<open>What the operations keep\<close>

definition indexed :: "compilation \<Rightarrow> bool" where
  "indexed c \<longleftrightarrow>
     (\<forall>m \<in> {c_documents c, workspace_documents c, base_scripts_documents c}. \<forall>u d.
        hget m u = Some d \<longrightarrow> doc_line_index d = LineIndex_new (doc_source d))"

definition frame_kept :: "backend \<Rightarrow> backend \<Rightarrow> bool" where
  "frame_kept be be' \<longleftrightarrow>
     pending_edits be' = pending_edits be \<and> edit_permit be' = edit_permit be \<and>
     edit_writer_spawned be' = edit_writer_spawned be \<and> workspace_roots be' = workspace_roots be \<and>
     be_config be' = be_config be \<and> set (workspace_known_files be) \<subseteq> set (workspace_known_files be')"

definition texts :: "backend \<Rightarrow> url \<Rightarrow> string option" where
  "texts be u = map_option doc_source (hget (c_documents (be_compilation be)) u)"

lemma frame_refl [simp]: "frame_kept be be"
  by (simp add: frame_kept_def)

lemma frame_trans: "frame_kept b1 b2 \<Longrightarrow> frame_kept b2 b3 \<Longrightarrow> frame_kept b1 b3"
  by (auto simp: frame_kept_def)

lemma indexed_cases:
  "indexed c \<longleftrightarrow>
     (\<forall>u d. hget (c_documents c) u = Some d \<longrightarrow> doc_line_index d = LineIndex_new (doc_source d)) \<and>
     (\<forall>u d. hget (workspace_documents c) u = Some d \<longrightarrow> doc_line_index d = LineIndex_new (doc_source d)) \<and>
     (\<forall>u d. hget (base_scripts_documents c) u = Some d \<longrightarrow> doc_line_index d = LineIndex_new (doc_source d))"
  by (auto simp: indexed_def)

lemma publish_compilation_frame:
  assumes "publish_compilation edit be = Returns (r, be')"
  obtains bd where "edit (CompilationBuilder_new (be_compilation be)) = Returns (r, bd)"
    "be_compilation be' = builder_finish bd" "frame_kept be be'" "parse_counter be' = parse_counter be"
proof -
  from assms obtain bd where "edit (CompilationBuilder_new (be_compilation be)) = Returns (r, bd)"
    and be': "be' = (let be = be\<lparr>be_compilation := builder_finish bd\<rparr> in if changes_views bd
      then be\<lparr>state_version := state_version be + 1, views_permit := True\<rparr> else be)"
    by (auto simp: publish_compilation_def obind_Returns_iff Let_def)
  then show thesis by (intro that) (simp_all add: Let_def frame_kept_def)
qed

text \<open>Edits of the indexes leave the documents alone.\<close>

definition same_docs :: "compilation_builder \<Rightarrow> compilation_builder \<Rightarrow> bool" where
  "same_docs bd bd' \<longleftrightarrow> b_base bd' = b_base bd \<and> b_documents bd' = b_documents bd \<and>
     b_workspace_documents bd' = b_workspace_documents bd \<and> b_base_scripts_documents bd' = b_base_scripts_documents bd"

lemma index_edits_same_docs:
  "in_workspace_index f bd = Returns (r, bd') \<Longrightarrow> same_docs bd bd'"
  "in_loose_index f bd = Returns (r, bd') \<Longrightarrow> same_docs bd bd'"
  "in_base_scripts_index f bd = Returns (r, bd') \<Longrightarrow> same_docs bd bd'"
  by (auto simp: in_workspace_index_def in_loose_index_def in_base_scripts_index_def obind_Returns_iff same_docs_def)

lemma same_docs_trans: "same_docs b1 b2 \<Longrightarrow> same_docs b2 b3 \<Longrightarrow> same_docs b1 b3"
  by (simp add: same_docs_def)

lemma route_same_docs: "route_document_to_index pf u sc doc bd = Returns (r, bd') \<Longrightarrow> same_docs bd bd'"
  by (auto simp: route_document_to_index_def Let_def obind_Returns_iff split: if_splits
      dest!: index_edits_same_docs intro: same_docs_trans)

lemmas finish_docs = builder_finish_def cow_clone_mut_def CompilationBuilder_new_def documents_mut_def
  workspace_documents_mut_def base_scripts_documents_mut_def

lemma publish_open_effect:
  assumes "publish_open_document_indices pf u doc be = Returns be'"
  shows "frame_kept be be'" "parse_counter be' = parse_counter be" "texts be' = (texts be)(u \<mapsto> doc_source doc)"
    "indexed (be_compilation be) \<Longrightarrow> doc_line_index doc = LineIndex_new (doc_source doc) \<Longrightarrow> indexed (be_compilation be')"
proof -
  from assms obtain ws loose be1 where
    p: "publish_compilation (\<lambda>bd. obind (route_document_to_index pf u (file_scope_of pf u be) doc bd) (\<lambda>(keys, bd).
             Returns (keys, documents_mut (hput u doc) bd))) be = Returns ((ws, loose), be1)"
    and be': "be' = evict_cache_entries (invalidated_workspace ws be1 @ invalidated_loose loose be1) be1"
    by (auto simp: publish_open_document_indices_def Let_def obind_Returns_iff)
  from p obtain bd where bd: "route_document_to_index pf u (file_scope_of pf u be) doc
      (CompilationBuilder_new (be_compilation be)) = Returns ((ws, loose), bd)"
    "be_compilation be1 = builder_finish (documents_mut (hput u doc) bd)"
    and keep: "frame_kept be be1" "parse_counter be1 = parse_counter be"
    by (elim publish_compilation_frame) (auto simp: obind_Returns_iff)
  from route_same_docs [OF bd(1)]
  have docs: "c_documents (be_compilation be1) = hput u doc (c_documents (be_compilation be))"
    "workspace_documents (be_compilation be1) = workspace_documents (be_compilation be)"
    "base_scripts_documents (be_compilation be1) = base_scripts_documents (be_compilation be)"
    by (simp_all add: bd(2) finish_docs same_docs_def)
  show "frame_kept be be'" "parse_counter be' = parse_counter be" "texts be' = (texts be)(u \<mapsto> doc_source doc)"
    "indexed (be_compilation be) \<Longrightarrow> doc_line_index doc = LineIndex_new (doc_source doc) \<Longrightarrow> indexed (be_compilation be')"
    using keep docs by (auto simp: be' evict_cache_entries_def frame_kept_def texts_def indexed_cases fun_eq_iff split: if_splits)
qed

lemma parse_effect:
  assumes "parse_document_with_prior parse src prior n = Returns (r, n')" "parse src prior \<noteq> None"
  obtains doc where "r = Inr doc" "n' = n + 1" "doc_source doc = src" "doc_line_index doc = LineIndex_new src"
  using assms
  by (auto simp: parse_document_with_prior_def Let_def obind_Returns_iff next_parse_version_def)

lemma parse_result:
  assumes "parse_document_with_prior parse src prior n = Returns (r, n')"
  shows "r = Inl e \<Longrightarrow> n' = n" "r = Inr doc \<Longrightarrow> n' = n + 1 \<and> doc_source doc = src \<and> doc_line_index doc = LineIndex_new src"
  using assms
  by (auto simp: parse_document_with_prior_def Let_def obind_Returns_iff next_parse_version_def split: option.splits)

lemma process_effect:
  assumes "process_pending_edit pf u e be = Returns be'" "parse_tree pf (pe_source e) (Some (pe_tree e)) \<noteq> None"
  shows "frame_kept be be'" "parse_counter be' = parse_counter be + 1" "texts be' = (texts be)(u \<mapsto> pe_source e)"
    "indexed (be_compilation be) \<Longrightarrow> indexed (be_compilation be')"
proof -
  from assms(1) obtain r n where p: "parse_document_with_prior (parse_tree pf) (pe_source e) (Some (pe_tree e)) (parse_counter be) = Returns (r, n)"
    by (auto simp: process_pending_edit_def obind_Returns_iff)
  from parse_effect [OF p assms(2)] obtain doc where doc: "r = Inr doc" "n = parse_counter be + 1" "doc_source doc = pe_source e"
    "doc_line_index doc = LineIndex_new (pe_source e)" by blast
  with assms(1) p have "publish_open_document_indices pf u (doc\<lparr>parse_version := target_parse_version e\<rparr>)
      (be\<lparr>parse_counter := parse_counter be + 1\<rparr>) = Returns be'"
    by (simp add: process_pending_edit_def)
  note e = publish_open_effect [OF this]
  show "frame_kept be be'" "parse_counter be' = parse_counter be + 1" "texts be' = (texts be)(u \<mapsto> pe_source e)"
    "indexed (be_compilation be) \<Longrightarrow> indexed (be_compilation be')"
    using e doc by (auto simp: frame_kept_def texts_def fun_eq_iff)
qed


definition counted :: "backend \<Rightarrow> backend \<Rightarrow> bool" where
  "counted be be' \<longleftrightarrow> parse_counter be' = parse_counter be \<or> parse_counter be' = parse_counter be + 1"

lemma overlay_effect:
  assumes "publish_compilation (\<lambda>bd. Returns ((), documents_mut (hput u doc) bd)) be = Returns (r, be')"
  shows "frame_kept be be'" "parse_counter be' = parse_counter be" "texts be' = (texts be)(u \<mapsto> doc_source doc)"
    "indexed (be_compilation be) \<Longrightarrow> doc_line_index doc = LineIndex_new (doc_source doc) \<Longrightarrow> indexed (be_compilation be')"
proof -
  from assms obtain bd where "Returns ((), documents_mut (hput u doc) (CompilationBuilder_new (be_compilation be))) = Returns (r, bd)"
    "be_compilation be' = builder_finish bd" and keep: "frame_kept be be'" "parse_counter be' = parse_counter be"
    by (elim publish_compilation_frame)
  then have docs: "c_documents (be_compilation be') = hput u doc (c_documents (be_compilation be))"
    "workspace_documents (be_compilation be') = workspace_documents (be_compilation be)"
    "base_scripts_documents (be_compilation be') = base_scripts_documents (be_compilation be)"
    by (auto simp: finish_docs)
  show "frame_kept be be'" "parse_counter be' = parse_counter be" "texts be' = (texts be)(u \<mapsto> doc_source doc)"
    "indexed (be_compilation be) \<Longrightarrow> doc_line_index doc = LineIndex_new (doc_source doc) \<Longrightarrow> indexed (be_compilation be')"
    using keep docs by (auto simp: texts_def indexed_cases fun_eq_iff split: if_splits)
qed

lemma reuse_effect:
  assumes "reuse_unchanged_open_document pf u txt be = Returns (reused, be')"
  shows "frame_kept be be'" "parse_counter be' = parse_counter be" "\<not> reused \<Longrightarrow> be' = be"
    "reused \<Longrightarrow> texts be' = (texts be)(u \<mapsto> txt)" "indexed (be_compilation be) \<Longrightarrow> indexed (be_compilation be')"
proof -
  let ?snap = "be_compilation be"
  let ?found = "or_else_opt (hget (c_documents ?snap) u)
     (or_else_opt (hget (workspace_documents ?snap) (canonical_uri pf u)) (hget (base_scripts_documents ?snap) (canonical_uri pf u)))"
  have "frame_kept be be' \<and> parse_counter be' = parse_counter be \<and> (\<not> reused \<longrightarrow> be' = be) \<and>
    (reused \<longrightarrow> texts be' = (texts be)(u \<mapsto> txt)) \<and> (indexed (be_compilation be) \<longrightarrow> indexed (be_compilation be'))"
  proof (cases ?found)
    case None
    with assms show ?thesis by (simp add: reuse_unchanged_open_document_def Let_def)
  next
    case (Some doc)
    have line: "doc_line_index doc = LineIndex_new (doc_source doc)" if "indexed ?snap"
      using that Some by (auto simp: or_else_opt_def indexed_cases split: option.splits)
    show ?thesis
    proof (cases "doc_source doc = txt")
      case False
      with assms Some show ?thesis by (simp add: reuse_unchanged_open_document_def Let_def)
    next
      case src: True
      show ?thesis
      proof (cases "hget (c_documents ?snap) u")
        case None
        with assms Some src obtain r where "reused"
          "publish_compilation (\<lambda>bd. Returns ((), documents_mut (hput u doc) bd)) be = Returns (r, be')"
          by (auto simp: reuse_unchanged_open_document_def Let_def obind_Returns_iff)
        with overlay_effect [OF this(2)] line src show ?thesis by blast
      next
        case (Some d)
        with assms \<open>?found = Some doc\<close> src have "reused" "be' = be" "d = doc"
          by (simp_all add: reuse_unchanged_open_document_def Let_def or_else_opt_def)
        with Some src show ?thesis by (auto simp: texts_def fun_eq_iff)
      qed
    qed
  qed
  then show "frame_kept be be'" "parse_counter be' = parse_counter be" "\<not> reused \<Longrightarrow> be' = be"
    "reused \<Longrightarrow> texts be' = (texts be)(u \<mapsto> txt)" "indexed (be_compilation be) \<Longrightarrow> indexed (be_compilation be')" by blast+
qed

lemma update_open_effect:
  assumes "update_open_document pf u txt be = Returns (b, be')" "parse_tree pf txt None \<noteq> None"
  shows "frame_kept be be'" "counted be be'" "texts be' = (texts be)(u \<mapsto> txt)"
    "indexed (be_compilation be) \<Longrightarrow> indexed (be_compilation be')"
proof -
  from assms(1) obtain reused be1 where r: "reuse_unchanged_open_document pf u txt be = Returns (reused, be1)"
    and rest: "if reused then (b, be') = (False, be1) else
      obind (parse_document_with_prior (parse_tree pf) txt None (parse_counter be1)) (\<lambda>(parsed, counter).
         let be = be1\<lparr>parse_counter := counter\<rparr>
         in case parsed of
              Inl _ \<Rightarrow> Returns (False, be)
            | Inr doc \<Rightarrow> obind (publish_open_document_indices pf u doc be) (\<lambda>be. Returns (True, be))) = Returns (b, be')"
    by (auto simp: update_open_document_def update_open_document_with_prior_def obind_Returns_iff split: if_splits)
  note e = reuse_effect [OF r]
  have "frame_kept be be' \<and> counted be be' \<and> texts be' = (texts be)(u \<mapsto> txt) \<and>
    (indexed (be_compilation be) \<longrightarrow> indexed (be_compilation be'))"
  proof (cases reused)
    case True
    with rest e show ?thesis by (simp add: counted_def)
  next
    case False
    with rest e(3) obtain p n where p: "parse_document_with_prior (parse_tree pf) txt None (parse_counter be) = Returns (p, n)"
      by (auto simp: obind_Returns_iff)
    from parse_effect [OF p assms(2)] obtain doc where doc: "p = Inr doc" "n = parse_counter be + 1" "doc_source doc = txt"
      "doc_line_index doc = LineIndex_new txt" by blast
    with rest False e(3) p have "publish_open_document_indices pf u doc (be\<lparr>parse_counter := parse_counter be + 1\<rparr>) = Returns be'"
      by (auto simp: obind_Returns_iff)
    from publish_open_effect [OF this] doc show ?thesis by (auto simp: frame_kept_def texts_def counted_def fun_eq_iff)
  qed
  then show "frame_kept be be'" "counted be be'" "texts be' = (texts be)(u \<mapsto> txt)"
    "indexed (be_compilation be) \<Longrightarrow> indexed (be_compilation be')" by blast+
qed

definition quiet :: "backend \<Rightarrow> backend \<Rightarrow> bool" where
  "quiet be be' \<longleftrightarrow> frame_kept be be' \<and> parse_counter be' = parse_counter be \<and> texts be' = texts be \<and>
     (indexed (be_compilation be) \<longrightarrow> indexed (be_compilation be'))"

lemma quiet_trans: "quiet b1 b2 \<Longrightarrow> quiet b2 b3 \<Longrightarrow> quiet b1 b3"
  by (auto simp: quiet_def intro: frame_trans)

lemma rebuild_quiet: "rebuild_filtered_base_catalogs be = Returns be' \<Longrightarrow> quiet be be'"
  unfolding rebuild_filtered_base_catalogs_def obind_Returns_iff
  by (auto elim!: publish_compilation_frame simp: quiet_def texts_def indexed_cases finish_docs
      set_filtered_base_catalogs_def Let_def frame_kept_def fun_eq_iff)

lemma refresh_quiet: 
  assumes "refresh_legacy_override_maps pf be = Returns be'"
  shows "quiet be be'"
proof -
  obtain s r where sr: "legacy_base_replacements pf (hkeys (base_scripts_documents (be_compilation be)))
      (legacy_uris_in_workspace_index pf be) = (s, r)" by fastforce
  with assms obtain be1 where "publish_compilation (\<lambda>bd. Returns ((), set_suppressed_base_uris s bd)) be = Returns ((), be1)"
    and r: "rebuild_filtered_base_catalogs (be1\<lparr>legacy_replacements := r\<rparr>) = Returns be'"
    by (auto simp: refresh_legacy_override_maps_def Let_def obind_Returns_iff)
  then have "quiet be (be1\<lparr>legacy_replacements := r\<rparr>)"
    by (auto elim!: publish_compilation_frame simp: quiet_def texts_def indexed_cases finish_docs
        set_suppressed_base_uris_def frame_kept_def fun_eq_iff)
  then show ?thesis using rebuild_quiet [OF r] by (rule quiet_trans)
qed

lemma statuses_quiet: "quiet be (publish_legacy_script_status pf be)" "quiet be (publish_file_scope_status pf be)"
  by (simp_all add: publish_legacy_script_status_def publish_file_scope_status_def Let_def case_prod_beta
      quiet_def frame_kept_def texts_def fun_eq_iff)


subsection \<open>Effects of the notifications\<close>

definition accepted :: "platform \<Rightarrow> backend \<Rightarrow> url \<Rightarrow> bool" where
  "accepted pf be u \<longleftrightarrow> \<not> is_builtin_uri u \<and>
     (case to_file_path pf u of None \<Rightarrow> True
      | Some p \<Rightarrow> \<not> list_ex (path_starts_with p) (workspace_roots be) \<or> canonical_uri pf u \<in> set (workspace_known_files be))"

lemma accepted_frame: "accepted pf be u \<Longrightarrow> frame_kept be be' \<Longrightarrow> accepted pf be' u"
  by (auto simp: accepted_def frame_kept_def split: option.splits)

lemma accepted_not_excluded: "accepted pf be u \<Longrightarrow> is_uri_excluded pf u be = (False, be) \<and> \<not> is_builtin_uri u"
  by (auto simp: accepted_def is_uri_excluded_def Let_def split: option.splits)

lemma excluded_effect:
  assumes "is_uri_excluded pf u be = (x, be')"
  shows "quiet be be'" "\<not> x \<Longrightarrow> \<not> is_builtin_uri u \<Longrightarrow> accepted pf be' u"
  using assms
  by (auto simp: is_uri_excluded_def Let_def quiet_def frame_kept_def texts_def accepted_def fun_eq_iff
      split: option.splits if_splits)

lemma quiet_refl [simp]: "quiet be be"
  by (simp add: quiet_def)

lemma evict_quiet: "quiet be (evict_cache_entries uris be)"
  by (simp add: quiet_def evict_cache_entries_def frame_kept_def texts_def fun_eq_iff)

lemma did_open_effect:
  assumes "did_open pf u txt be = Returns be'" "parse_tree pf txt None \<noteq> None"
  shows "frame_kept be be'" "counted be be'" "indexed (be_compilation be) \<Longrightarrow> indexed (be_compilation be')"
    "texts be' = (if is_builtin_uri u \<or> fst (is_uri_excluded pf u be) then texts be else (texts be)(u \<mapsto> txt))"
    "\<not> (is_builtin_uri u \<or> fst (is_uri_excluded pf u be)) \<Longrightarrow> accepted pf be' u"
proof -
  obtain x be1 where x: "is_uri_excluded pf u be = (x, be1)" by fastforce
  note ex = excluded_effect [OF x]
  have "frame_kept be be' \<and> counted be be' \<and> (indexed (be_compilation be) \<longrightarrow> indexed (be_compilation be')) \<and>
    texts be' = (if is_builtin_uri u \<or> x then texts be else (texts be)(u \<mapsto> txt)) \<and>
    (\<not> (is_builtin_uri u \<or> x) \<longrightarrow> accepted pf be' u)"
  proof (cases "is_builtin_uri u \<or> x")
    case True
    then have "be' = be \<or> be' = be1"
      using assms(1) x by (cases "is_builtin_uri u") (simp_all add: did_open_def)
    with True ex(1) show ?thesis by (auto simp: quiet_def counted_def)
  next
    case False
    let ?be2 = "be1\<lparr>sent_legacy_status := hdel u (sent_legacy_status be1), sent_file_scope_status := hdel u (sent_file_scope_status be1)\<rparr>"
    from assms(1) x False obtain b be3 be4 where u: "update_open_document pf u txt ?be2 = Returns (b, be3)"
      and l: "(if b \<and> any_dir_contains_uri pf u (effective_legacy_dirs pf ?be2) then refresh_legacy_override_maps pf be3 else Returns be3) = Returns be4"
      and be': "be' = publish_file_scope_status pf (publish_legacy_script_status pf be4)"
      by (auto simp: did_open_def Let_def obind_Returns_iff)
    have "quiet be3 be4" using l by (auto split: if_splits intro: refresh_quiet)
    then have q: "quiet be3 be'" unfolding be' by (blast intro: quiet_trans statuses_quiet)
    have q2: "quiet be ?be2" using ex(1) by (auto simp: quiet_def frame_kept_def texts_def fun_eq_iff)
    note e = update_open_effect [OF u assms(2)]
    have fr: "frame_kept be1 be'" using e(1) q by (auto simp: quiet_def frame_kept_def)
    show ?thesis
      using False e q q2 fr ex(2) accepted_frame [OF ex(2) fr]
      by (auto simp: quiet_def counted_def intro: frame_trans)
  qed
  with x show "frame_kept be be'" "counted be be'" "indexed (be_compilation be) \<Longrightarrow> indexed (be_compilation be')"
    "texts be' = (if is_builtin_uri u \<or> fst (is_uri_excluded pf u be) then texts be else (texts be)(u \<mapsto> txt))"
    "\<not> (is_builtin_uri u \<or> fst (is_uri_excluded pf u be)) \<Longrightarrow> accepted pf be' u" by simp_all
qed

definition refiled :: "(string, parsed_document) hmap \<Rightarrow> (string, parsed_document) hmap \<Rightarrow> bool" where
  "refiled m m' \<longleftrightarrow> m' = m \<or> (\<exists>k d. m' = hput k d m \<and> doc_line_index d = LineIndex_new (doc_source d)) \<or> (\<exists>k. m' = hdel k m)"

text \<open>A snapshot that closes \<open>u\<close>.\<close>

definition closes :: "url \<Rightarrow> compilation \<Rightarrow> compilation \<Rightarrow> bool" where
  "closes u c c' \<longleftrightarrow> c_documents c' = hdel u (c_documents c) \<and>
     (indexed c \<longrightarrow> refiled (workspace_documents c) (workspace_documents c') \<and>
        refiled (base_scripts_documents c) (base_scripts_documents c'))"

lemma closes_indexed: "closes u c c' \<Longrightarrow> indexed c \<Longrightarrow> indexed c'"
  by (auto simp: indexed_cases closes_def refiled_def split: if_splits)

lemma removed_effect:
  assumes "publish_compilation edit be = Returns (r, be')"
    "\<And>bd. edit (CompilationBuilder_new (be_compilation be)) = Returns (r, bd) \<Longrightarrow> closes u (be_compilation be) (builder_finish bd)"
  shows "frame_kept be be'" "parse_counter be' = parse_counter be" "texts be' = (texts be)(u := None)"
    "indexed (be_compilation be) \<Longrightarrow> indexed (be_compilation be')"
proof -
  from assms(1) obtain bd where bd: "edit (CompilationBuilder_new (be_compilation be)) = Returns (r, bd)"
    "be_compilation be' = builder_finish bd" and keep: "frame_kept be be'" "parse_counter be' = parse_counter be"
    by (elim publish_compilation_frame)
  note c = assms(2) [OF bd(1), folded bd(2)]
  show "frame_kept be be'" "parse_counter be' = parse_counter be" by (fact keep)+
  show "texts be' = (texts be)(u := None)" using c by (auto simp: texts_def closes_def fun_eq_iff)
  show "indexed (be_compilation be) \<Longrightarrow> indexed (be_compilation be')" by (rule closes_indexed [OF c])
qed

lemma drop_closes:
  "(let bd = documents_mut (hdel u) (CompilationBuilder_new c); drop_from = (\<lambda>idx. Returns (remove_document_all_spellings pf u idx))
    in if loose then in_loose_index drop_from bd else in_workspace_index drop_from bd) = Returns (r, bd) \<Longrightarrow>
   closes u c (builder_finish bd)"
  by (auto simp: Let_def same_docs_def finish_docs closes_def refiled_def split: if_splits dest!: index_edits_same_docs)

lemma close_buffer_closes:
  "closes u c (builder_finish (close_buffer u k is_base stale (hget (c_documents c) u) (CompilationBuilder_new c)))"
  by (cases "hget (c_documents c) u"; cases stale; cases is_base)
    (auto simp: close_buffer_def Let_def finish_docs closes_def refiled_def indexed_cases)

lemma close_unedited_effect:
  assumes "close_unedited pf u is_base be = Returns be'"
  shows "frame_kept be be'" "parse_counter be' = parse_counter be" "texts be' = (texts be)(u := None)"
    "indexed (be_compilation be) \<Longrightarrow> indexed (be_compilation be')"
proof -
  let ?docs = "if is_base then base_scripts_documents (be_compilation be) else workspace_documents (be_compilation be)"
  let ?edit = "close_buffer u (canonical_uri pf u) is_base (is_stale (hget (c_documents (be_compilation be)) u)
      (hget ?docs (canonical_uri pf u))) (hget (c_documents (be_compilation be)) u)"
  from assms have p: "publish_compilation (\<lambda>bd. Returns ((), ?edit bd)) be = Returns ((), be')"
    unfolding close_unedited_def Let_def obind_Returns_iff by auto
  note e = removed_effect [OF p, of u]
  show "frame_kept be be'" "parse_counter be' = parse_counter be" "texts be' = (texts be)(u := None)"
    "indexed (be_compilation be) \<Longrightarrow> indexed (be_compilation be')"
    by (rule e; use close_buffer_closes in auto)+
qed

lemma reindex_closes:
  assumes "\<And>d. parsed = Some d \<Longrightarrow> doc_line_index d = LineIndex_new (doc_source d)"
    "(let bd = documents_mut (hdel u) (CompilationBuilder_new c)
      in (if is_base then base_scripts_index_and_docs_mut else workspace_index_and_docs_mut)
           (reindex_into pf u k parsed) bd) = Returns (r, bd)"
  shows "closes u c (builder_finish bd)"
proof -
  have "refiled docs docs'" if "reindex_into pf u k parsed idx docs = Returns (keys, idx', docs')" for idx docs keys idx' docs'
    using that assms(1)
    by (cases parsed) (auto simp: reindex_into_def Let_def case_prod_beta obind_Returns_iff refiled_def)
  moreover have "refiled m m" for m by (simp add: refiled_def)
  ultimately show ?thesis
    using assms(2)
    by (cases is_base)
      (auto simp: Let_def base_scripts_index_and_docs_mut_def workspace_index_and_docs_mut_def obind_Returns_iff
        finish_docs closes_def)
qed

lemma parse_disk_effect:
  assumes "parse_disk_text pf disk be = Returns (parsed, be')"
  shows "frame_kept be be'" "counted be be'" "be_compilation be' = be_compilation be"
    "parsed = Some d \<Longrightarrow> doc_line_index d = LineIndex_new (doc_source d)"
proof -
  have "frame_kept be be' \<and> counted be be' \<and> be_compilation be' = be_compilation be \<and>
    (parsed = Some d \<longrightarrow> doc_line_index d = LineIndex_new (doc_source d))"
  proof (cases disk)
    case None
    with assms show ?thesis by (simp add: parse_disk_text_def counted_def)
  next
    case (Some t)
    with assms obtain r n where p: "parse_document_with_prior (parse_tree pf) t None (parse_counter be) = Returns (r, n)"
      and r: "parsed = (case r of Inl _ \<Rightarrow> None | Inr doc \<Rightarrow> Some doc)" "be' = be\<lparr>parse_counter := n\<rparr>"
      by (auto simp: parse_disk_text_def obind_Returns_iff)
    then show ?thesis using parse_result [OF p] by (cases r) (auto simp: frame_kept_def counted_def)
  qed
  then show "frame_kept be be'" "counted be be'" "be_compilation be' = be_compilation be"
    "parsed = Some d \<Longrightarrow> doc_line_index d = LineIndex_new (doc_source d)" by blast+
qed

lemma reindex_closed_effect:
  assumes "reindex_closed_file pf u prior be = Returns (b, be')"
  shows "frame_kept be be'" "counted be be'" "texts be' = (texts be)(u := None)"
    "indexed (be_compilation be) \<Longrightarrow> indexed (be_compilation be')"
proof -
  let ?is_base = "is_base_script_uri pf u be" and ?disk = "Option.bind (to_file_path pf u) (read_text_file pf)"
  let ?k = "canonical_uri pf u"
  have "frame_kept be be' \<and> counted be be' \<and> texts be' = (texts be)(u := None) \<and>
    (indexed (be_compilation be) \<longrightarrow> indexed (be_compilation be'))"
  proof (cases "prior \<noteq> None \<and> prior = ?disk")
    case True
    with assms have "close_unedited pf u ?is_base be = Returns be'"
      by (auto simp: reindex_closed_file_def Let_def obind_Returns_iff)
    from close_unedited_effect [OF this] show ?thesis by (simp add: counted_def)
  next
    case False
    obtain parsed be1 where p: "parse_disk_text pf ?disk be = Returns (parsed, be1)"
      and q: "obind (publish_compilation (\<lambda>bd. let bd = documents_mut (hdel u) bd
            in (if ?is_base then base_scripts_index_and_docs_mut else workspace_index_and_docs_mut)
                 (reindex_into pf u ?k parsed) bd) be1) (\<lambda>(changed, be).
             Returns (True, evict_cache_entries (if ?is_base then [] else invalidated_workspace changed be) be)) = Returns (b, be')"
      using assms False unfolding reindex_closed_file_def Let_def by (auto simp: obind_Returns_iff)
    note e1 = parse_disk_effect [OF p]
    from q obtain changed be2 where r: "publish_compilation (\<lambda>bd. let bd = documents_mut (hdel u) bd
            in (if ?is_base then base_scripts_index_and_docs_mut else workspace_index_and_docs_mut)
                 (reindex_into pf u ?k parsed) bd) be1 = Returns (changed, be2)"
      and be': "be' = evict_cache_entries (if ?is_base then [] else invalidated_workspace changed be2) be2"
      by (auto simp: obind_Returns_iff)
    have "closes u (be_compilation be1) (builder_finish bd)"
      if "(let bd = documents_mut (hdel u) (CompilationBuilder_new (be_compilation be1))
            in (if ?is_base then base_scripts_index_and_docs_mut else workspace_index_and_docs_mut)
                 (reindex_into pf u ?k parsed) bd) = Returns (changed, bd)" for bd
      by (rule reindex_closes [OF e1(4) that])
    note e = removed_effect [OF r this]
    moreover have "texts be1 = texts be" using e1(3) by (simp add: texts_def fun_eq_iff)
    ultimately show ?thesis
      using e1(1-3) evict_quiet [of be2] unfolding be' by (auto simp: quiet_def counted_def intro: frame_trans)
  qed
  then show "frame_kept be be'" "counted be be'" "texts be' = (texts be)(u := None)"
    "indexed (be_compilation be) \<Longrightarrow> indexed (be_compilation be')" by blast+
qed


lemma did_close_effect:
  assumes "did_close pf u be = Returns be'" "\<not> is_builtin_uri u"
  shows "frame_kept be be'" "counted be be'" "texts be' = (texts be)(u := None)"
    "indexed (be_compilation be) \<Longrightarrow> indexed (be_compilation be')"
proof -
  let ?scope = "file_scope_of pf u be"
  obtain x be1 where x: "(if is_loose ?scope then (False, be) else is_uri_excluded pf u be) = (x, be1)" by fastforce
  then have q1: "quiet be be1" by (auto split: if_splits intro: excluded_effect)
  from assms x obtain be2 where
    a: "(if is_loose ?scope \<or> x then
          obind (publish_compilation (\<lambda>bd.
              let bd = documents_mut (hdel u) bd; drop_from = (\<lambda>idx. Returns (remove_document_all_spellings pf u idx))
              in if is_loose ?scope then in_loose_index drop_from bd else in_workspace_index drop_from bd) be1) (\<lambda>(changed, be).
            Returns (evict_cache_entries
              (if is_loose ?scope then invalidated_loose changed be else invalidated_workspace changed be) be))
        else
          obind (reindex_closed_file pf u (map_option doc_source (hget (c_documents (be_compilation be1)) u)) be1) (\<lambda>(changed, be).
            if changed then refresh_legacy_override_maps_if_legacy_uri pf u be else Returns be)) = Returns be2"
    and be': "be' = (let be = publish_file_scope_status pf be2
              in be\<lparr>sent_file_scope_status := hdel u (sent_file_scope_status be),
                    semantic_tokens_cache := hdel u (semantic_tokens_cache be)\<rparr>)"
    unfolding did_close_def by (auto simp: Let_def obind_Returns_iff)
  have q2: "quiet be2 be'" using statuses_quiet(2) [of be2 pf]
    by (auto simp: be' Let_def quiet_def frame_kept_def texts_def fun_eq_iff)
  have "frame_kept be1 be2 \<and> counted be1 be2 \<and> texts be2 = (texts be1)(u := None) \<and>
    (indexed (be_compilation be1) \<longrightarrow> indexed (be_compilation be2))"
  proof (cases "is_loose ?scope \<or> x")
    case True
    with a obtain changed be3 where p: "publish_compilation (\<lambda>bd.
              let bd = documents_mut (hdel u) bd; drop_from = (\<lambda>idx. Returns (remove_document_all_spellings pf u idx))
              in if is_loose ?scope then in_loose_index drop_from bd else in_workspace_index drop_from bd) be1 = Returns (changed, be3)"
      and be2: "be2 = evict_cache_entries
              (if is_loose ?scope then invalidated_loose changed be3 else invalidated_workspace changed be3) be3"
      by (auto simp: obind_Returns_iff)
    have "closes u (be_compilation be1) (builder_finish bd)"
      if "(let bd = documents_mut (hdel u) (CompilationBuilder_new (be_compilation be1));
             drop_from = (\<lambda>idx. Returns (remove_document_all_spellings pf u idx))
           in if is_loose ?scope then in_loose_index drop_from bd else in_workspace_index drop_from bd) = Returns (changed, bd)" for bd
      using that by (rule drop_closes)
    from removed_effect [OF p this] evict_quiet [of be3] show ?thesis
      unfolding be2 by (auto simp: quiet_def counted_def intro: frame_trans)
  next
    case False
    with a obtain b be3 where r: "reindex_closed_file pf u (map_option doc_source (hget (c_documents (be_compilation be1)) u)) be1 = Returns (b, be3)"
      and l: "(if b then refresh_legacy_override_maps_if_legacy_uri pf u be3 else Returns be3) = Returns be2"
      by (auto simp: obind_Returns_iff)
    have "quiet be3 be2" using l
      by (auto simp: refresh_legacy_override_maps_if_legacy_uri_def split: if_splits intro: refresh_quiet)
    with reindex_closed_effect [OF r] show ?thesis by (auto simp: quiet_def counted_def intro: frame_trans)
  qed
  with q1 q2 show "frame_kept be be'" "counted be be'" "texts be' = (texts be)(u := None)"
    "indexed (be_compilation be) \<Longrightarrow> indexed (be_compilation be')"
    by (auto simp: quiet_def counted_def intro: frame_trans)
qed


end
