(* ===== verification/Edit_Sessions.thy ===== *)
theory Edit_Sessions
  imports Queue_Effects
begin

text \<open>
  The language server together with its client and its writer task, as a step relation over the
  notifications of \<^verbatim>\<open>text_sync.rs\<close> and the critical sections of \<^verbatim>\<open>edit_queue.rs\<close>, and the invariant of
  its runs: the latest text the server holds is the client's.
\<close>

subsection \<open>Sessions\<close>

text \<open>What the client does to its text, and the runs of the server together with its client and its
  writer.  \<open>se_client\<close> holds the client's text of every document the server follows.  A change
  notification waits for the tree lock, which the writer has while it is \<open>Holding\<close> an edit.\<close>

fun edited :: "content_change list \<Rightarrow> string \<Rightarrow> string option outcome" where
  "edited [] t = Returns (Some t)"
| "edited (c # cs) t =
     obind (apply_content_change t (LineIndex_new t) (cc_range c) (cc_text c)) (\<lambda>r.
       case r of None \<Rightarrow> Returns None | Some (t', _) \<Rightarrow> edited cs t')"

record session =
  se_backend :: backend
  se_writer :: writer
  se_client :: "url \<Rightarrow> string option"

datatype action =
    Open url string
  | Change url "content_change list"
  | Close url "path \<Rightarrow> string option"
  | Write

fun holding :: "writer \<Rightarrow> bool" where
  "holding (Holding u e us) = True"
| "holding _ = False"

inductive session_step :: "platform \<Rightarrow> session \<Rightarrow> action \<Rightarrow> session \<Rightarrow> bool" for pf where
  step_open: "se_client s u = None \<Longrightarrow> utf8_wf t \<Longrightarrow> did_open pf u t (se_backend s) = Returns be \<Longrightarrow>
    session_step pf s (Open u t) (s\<lparr>se_backend := be, se_client :=
      (if is_builtin_uri u \<or> fst (is_uri_excluded pf u (se_backend s)) then se_client s else (se_client s)(u \<mapsto> t))\<rparr>)"
| step_change: "se_client s u = Some t \<Longrightarrow> list_all (\<lambda>c. utf8_wf (cc_text c)) cs \<Longrightarrow> edited cs t = Returns (Some t') \<Longrightarrow> \<not> holding (se_writer s) \<Longrightarrow>
    did_change pf u cs (se_backend s) = Returns be \<Longrightarrow>
    session_step pf s (Change u cs) (s\<lparr>se_backend := be, se_client := (se_client s)(u \<mapsto> t')\<rparr>)"
| step_ignored: "se_client s u = None \<Longrightarrow> \<not> holding (se_writer s) \<Longrightarrow> did_change pf u cs (se_backend s) = Returns be \<Longrightarrow>
    session_step pf s (Change u cs) (s\<lparr>se_backend := be\<rparr>)"
| step_close: "\<not> is_builtin_uri u \<Longrightarrow> did_close (pf\<lparr>read_text_file := disk\<rparr>) u (se_backend s) = Returns be \<Longrightarrow>
    session_step pf s (Close u disk) (s\<lparr>se_backend := be, se_client := (se_client s)(u := None)\<rparr>)"
| step_write: "writer_step pf (se_writer s) (se_backend s) = Returns (Some (w, be)) \<Longrightarrow>
    session_step pf s Write (s\<lparr>se_backend := be, se_writer := w\<rparr>)"

text \<open>Actions that do not touch a document with a queued edit behind the back of the queue, while the
  64-bit counter of parse versions has not run out.\<close>

fun calm :: "session \<Rightarrow> action \<Rightarrow> bool" where
  "calm s (Open u t) \<longleftrightarrow> parse_counter (se_backend s) \<noteq> - 1"
| "calm s (Change u cs) \<longleftrightarrow> parse_counter (se_backend s) \<noteq> - 1 \<and>
     (list_all (\<lambda>c. cc_range c \<noteq> None) cs \<or> hget (pending_edits (se_backend s)) u = None)"
| "calm s (Close u disk) \<longleftrightarrow> parse_counter (se_backend s) \<noteq> - 1 \<and> hget (pending_edits (se_backend s)) u = None"
| "calm s Write \<longleftrightarrow> parse_counter (se_backend s) \<noteq> - 1"

definition fresh_session :: "session \<Rightarrow> bool" where
  "fresh_session s \<longleftrightarrow> se_writer s = Asleep \<and> se_client s = (\<lambda>_. None) \<and> edit_writer_spawned (se_backend s) \<and>
     pending_edits (se_backend s) = [] \<and> c_documents (be_compilation (se_backend s)) = [] \<and>
     indexed (be_compilation (se_backend s))"

inductive calm_run :: "platform \<Rightarrow> session \<Rightarrow> bool" for pf where
  run_start: "fresh_session s \<Longrightarrow> calm_run pf s"
| run_step: "calm_run pf s \<Longrightarrow> calm s a \<Longrightarrow> session_step pf s a s' \<Longrightarrow> calm_run pf s'"


subsection \<open>The server and its client agree\<close>

definition latest_text :: "backend \<Rightarrow> url \<Rightarrow> string option" where
  "latest_text be u = (case hget (pending_edits be) u of Some e \<Rightarrow> Some (pe_source e) | None \<Rightarrow> texts be u)"

fun writer_ok :: "backend \<Rightarrow> writer \<Rightarrow> bool" where
  "writer_ok be Asleep \<longleftrightarrow> pending_edits be = [] \<or> edit_permit be"
| "writer_ok be (Holding u e us) \<longleftrightarrow> hget (pending_edits be) u = Some e"
| "writer_ok be (Published u v us) \<longleftrightarrow> v < parse_counter be \<and>
     (\<forall>e. hget (pending_edits be) u = Some e \<longrightarrow> target_parse_version e = v \<longrightarrow> texts be u = Some (pe_source e))"
| "writer_ok be _ \<longleftrightarrow> True"

definition session_ok :: "platform \<Rightarrow> session \<Rightarrow> bool" where
  "session_ok pf s \<longleftrightarrow>
     (let be = se_backend s in
      edit_writer_spawned be \<and> indexed (be_compilation be) \<and> writer_ok be (se_writer s) \<and>
      (\<forall>u. se_client s u = latest_text be u) \<and>
      (\<forall>u t. se_client s u = Some t \<longrightarrow> utf8_wf t \<and> accepted pf be u) \<and>
      (\<forall>u e. hget (pending_edits be) u = Some e \<longrightarrow>
         pe_line_index e = LineIndex_new (pe_source e) \<and> target_parse_version e < parse_counter be))"

text \<open>What is asked of tree-sitter: it returns a tree, and the tree is one of the source.\<close>

definition parser_ok :: "platform \<Rightarrow> bool" where
  "parser_ok pf \<longleftrightarrow> (\<forall>src prior. utf8_wf src \<longrightarrow>
     (\<exists>tree. parse_tree pf src prior = Some tree \<and> tree_in src (Place tree []) \<and> hex_spelled src (Place tree [])))"

lemma parser_okD: "parser_ok pf \<Longrightarrow> utf8_wf src \<Longrightarrow> parse_tree pf src prior \<noteq> None"
  by (fastforce simp: parser_ok_def)

lemma next_counter: "c \<noteq> - 1 \<Longrightarrow> c < c + 1" for c :: u64
proof -
  assume "c \<noteq> - 1"
  then have "1 + c \<noteq> 0" by (metis add.commute eq_neg_iff_add_eq_0)
  from unatSuc [OF this] show "c < c + 1" by (simp add: word_less_nat_alt add.commute)
qed

lemma counted_less: "counted be be' \<Longrightarrow> parse_counter be \<noteq> - 1 \<Longrightarrow> v < parse_counter be \<Longrightarrow> v < parse_counter be'"
  using next_counter [of "parse_counter be"] by (auto simp: counted_def)

lemma edited_change_loop:
  assumes "edited cs t = Returns (Some t')"
  shows "\<exists>tree'. change_loop pf cs t (LineIndex_new t) tree valid =
    Returns (Some (t', LineIndex_new t', tree', valid \<and> list_all (\<lambda>c. cc_range c \<noteq> None) cs))"
  using assms
proof (induction cs arbitrary: t tree valid)
  case (Cons c cs)
  then obtain t1 edit where e: "apply_content_change t (LineIndex_new t) (cc_range c) (cc_text c) = Returns (Some (t1, edit))"
    "edited cs t1 = Returns (Some t')"
    by (auto simp: obind_Returns_iff split: option.splits)
  have "(edit = None) = (cc_range c = None)"
    using e(1) by (auto simp: apply_content_change_def Let_def obind_Returns_iff split: option.splits if_splits)
  then show ?case
    using Cons.IH [OF e(2), of tree False] Cons.IH [OF e(2), of "edit_tree pf (the edit) tree" True]
      Cons.IH [OF e(2), of tree valid] e(1)
    by (cases edit; cases valid) (auto simp: Let_def)
qed simp

lemma or_panic_Returns: "or_panic x = Returns y \<longleftrightarrow> x = Some y"
  by (cases x) simp_all

lemma apply_content_change_valid:
  assumes "apply_content_change s li (Some r) t = Returns (Some (s', edit))" "utf8_wf s" "utf8_wf t"
  shows "utf8_wf s'"
proof -
  from assms(1) obtain a z where "is_char_boundary s a" "is_char_boundary s z" "a \<le> z" "s' = take a s @ t @ drop z s"
    by (auto simp: apply_content_change_def Let_def obind_Returns_iff slice_def or_panic_Returns split: option.splits if_splits)
  then show ?thesis using utf8_wf_splice [OF assms(2,3)] by simp
qed

lemma edited_wf:
  "edited cs t = Returns (Some t') \<Longrightarrow> utf8_wf t \<Longrightarrow> list_all (\<lambda>c. utf8_wf (cc_text c)) cs \<Longrightarrow> utf8_wf t'"
proof (induction cs arbitrary: t)
  case (Cons c cs)
  then obtain t1 edit where e: "apply_content_change t (LineIndex_new t) (cc_range c) (cc_text c) = Returns (Some (t1, edit))"
    "edited cs t1 = Returns (Some t')"
    by (auto simp: obind_Returns_iff split: option.splits)
  have "utf8_wf t1"
  proof (cases "cc_range c")
    case None
    then show ?thesis using e(1) Cons.prems by (simp add: apply_content_change_def)
  next
    case (Some r)
    then show ?thesis
      using apply_content_change_valid [of t "LineIndex_new t" r "cc_text c" t1 edit] e(1) Cons.prems by simp
  qed
  with Cons.IH [OF e(2)] Cons.prems show ?case by simp
qed simp


lemma accepted_cong [simp]:
  "accepted pf (be\<lparr>edit_permit := x\<rparr>) u = accepted pf be u" "accepted pf (be\<lparr>pending_edits := p\<rparr>) u = accepted pf be u"
  "accepted pf (be\<lparr>parse_counter := c\<rparr>) u = accepted pf be u"
  by (simp_all add: accepted_def split: option.split)

lemma session_okI:
  assumes "edit_writer_spawned be" "indexed (be_compilation be)" "writer_ok be w" "\<And>u. client u = latest_text be u"
    "\<And>u t. client u = Some t \<Longrightarrow> utf8_wf t \<and> accepted pf be u"
    "\<And>u e. hget (pending_edits be) u = Some e \<Longrightarrow> pe_line_index e = LineIndex_new (pe_source e) \<and> target_parse_version e < parse_counter be"
  shows "session_ok pf \<lparr>se_backend = be, se_writer = w, se_client = client\<rparr>"
  unfolding session_ok_def Let_def session.simps using assms by blast

lemma session_okD:
  assumes "session_ok pf \<lparr>se_backend = be, se_writer = w, se_client = client\<rparr>"
  shows "edit_writer_spawned be" "indexed (be_compilation be)" "writer_ok be w" "client u = latest_text be u"
    "client u = Some t \<Longrightarrow> utf8_wf t" "client u = Some t \<Longrightarrow> accepted pf be u"
    "hget (pending_edits be) u = Some e \<Longrightarrow> pe_line_index e = LineIndex_new (pe_source e)"
    "hget (pending_edits be) u = Some e \<Longrightarrow> target_parse_version e < parse_counter be"
  using assms by (auto simp: session_ok_def)

text \<open>A step that keeps the queue and sets the published text of a document without a queued edit.\<close>

lemma publish_step_ok:
  assumes ok: "session_ok pf \<lparr>se_backend = be, se_writer = w, se_client = client\<rparr>"
    and e: "frame_kept be be'" "counted be be'" "indexed (be_compilation be')" "texts be' = (texts be)(u := x)"
    and u: "hget (pending_edits be) u = None" "\<And>t. x = Some t \<Longrightarrow> utf8_wf t \<and> accepted pf be' u"
    and c: "parse_counter be \<noteq> - 1"
  shows "session_ok pf \<lparr>se_backend = be', se_writer = w, se_client = client(u := x)\<rparr>"
proof (rule session_okI)
  note ok = session_okD [OF ok]
  have pending: "pending_edits be' = pending_edits be" "edit_permit be' = edit_permit be" using e(1) by (simp_all add: frame_kept_def)
  show "edit_writer_spawned be'" using ok(1) e(1) by (simp add: frame_kept_def)
  show "writer_ok be' w"
    using ok(3) u(1) counted_less [OF e(2) c] by (cases w) (auto simp: pending e(4))
  show "(client(u := x)) v = latest_text be' v" for v
    using ok(4) [of v] u(1) by (simp add: latest_text_def pending e(4) split: option.split)
  show "utf8_wf t \<and> accepted pf be' v" if "(client(u := x)) v = Some t" for v t
    using that u(2) ok(5,6) [of v t] accepted_frame [OF _ e(1)] by (auto split: if_splits)
  show "pe_line_index ed = LineIndex_new (pe_source ed) \<and> target_parse_version ed < parse_counter be'"
    if "hget (pending_edits be') v = Some ed" for v ed
    using that ok(7,8) [of v ed] counted_less [OF e(2) c] by (simp add: pending)
qed (fact e(3))

lemma quiet_step_ok:
  assumes "session_ok pf \<lparr>se_backend = be, se_writer = w, se_client = client\<rparr>" "quiet be be'" "parse_counter be \<noteq> - 1"
  shows "session_ok pf \<lparr>se_backend = be', se_writer = w, se_client = client\<rparr>"
proof (rule session_okI)
  note ok = session_okD [OF assms(1)]
  have pending: "pending_edits be' = pending_edits be" "edit_permit be' = edit_permit be" "parse_counter be' = parse_counter be"
    "texts be' = texts be" using assms(2) by (simp_all add: quiet_def frame_kept_def)
  show "edit_writer_spawned be'" "indexed (be_compilation be')"
    using ok(1,2) assms(2) by (simp_all add: quiet_def frame_kept_def)
  show "writer_ok be' w" using ok(3) by (cases w) (simp_all add: pending)
  show "client u = latest_text be' u" for u using ok(4) [of u] by (simp add: latest_text_def pending split: option.split)
  show "utf8_wf t \<and> accepted pf be' u" if "client u = Some t" for u t
    using ok(5) [OF that] accepted_frame [OF ok(6) [OF that]] assms(2) by (simp add: quiet_def)
  show "pe_line_index e = LineIndex_new (pe_source e) \<and> target_parse_version e < parse_counter be'"
    if "hget (pending_edits be') u = Some e" for u e using that ok(7,8) by (simp add: pending)
qed

lemma did_change_value:
  assumes ok: "session_ok pf \<lparr>se_backend = be, se_writer = w, se_client = client\<rparr>"
    and t: "client u = Some t" "edited cs t = Returns (Some t')"
  obtains tree where "did_change pf u cs be =
    (if list_all (\<lambda>c. cc_range c \<noteq> None) cs then enqueue_edit pf u t' (LineIndex_new t') tree be
     else obind (update_open_document pf u t' be) (\<lambda>(_, be). Returns be))"
proof -
  note okD = session_okD [OF ok]
  obtain tree where l: "latest_edit_state u be = Some (t, LineIndex_new t, tree)"
  proof (cases "hget (pending_edits be) u")
    case None
    with okD(4) [of u] t(1) have "map_option doc_source (hget (c_documents (be_compilation be)) u) = Some t"
      by (simp add: latest_text_def texts_def)
    then obtain d where "hget (c_documents (be_compilation be)) u = Some d" "doc_source d = t" by blast
    with okD(2) None show ?thesis by (intro that) (auto simp: latest_edit_state_def indexed_cases)
  next
    case (Some e)
    with okD(4) [of u] okD(7) [OF Some] t(1) show ?thesis by (intro that) (simp add: latest_edit_state_def latest_text_def)
  qed
  obtain tree' where "change_loop pf cs t (LineIndex_new t) tree True =
      Returns (Some (t', LineIndex_new t', tree', list_all (\<lambda>c. cc_range c \<noteq> None) cs))"
    using edited_change_loop [OF t(2), of pf tree True] by auto
  then show ?thesis using accepted_not_excluded [OF okD(6) [OF t(1)]] by (intro that) (simp add: did_change_def l)
qed

lemma change_step_ok:
  assumes ok: "session_ok pf \<lparr>se_backend = be, se_writer = w, se_client = client\<rparr>" and parser: "parser_ok pf"
    and t: "client u = Some t" "list_all (\<lambda>c. utf8_wf (cc_text c)) cs" "edited cs t = Returns (Some t')" "\<not> holding w"
    and r: "did_change pf u cs be = Returns be'" and c: "parse_counter be \<noteq> - 1"
    and calm: "list_all (\<lambda>c. cc_range c \<noteq> None) cs \<or> hget (pending_edits be) u = None"
  shows "session_ok pf \<lparr>se_backend = be', se_writer = w, se_client = client(u \<mapsto> t')\<rparr>"
proof -
  note okD = session_okD [OF ok]
  have wf: "utf8_wf t'" using edited_wf [OF t(3) okD(5) [OF t(1)] t(2)] .
  note acc = okD(6) [OF t(1)]
  obtain tree' where "did_change pf u cs be =
    (if list_all (\<lambda>c. cc_range c \<noteq> None) cs then enqueue_edit pf u t' (LineIndex_new t') tree' be
     else obind (update_open_document pf u t' be) (\<lambda>(_, be). Returns be))"
    using did_change_value [OF ok t(1,3)] .
  note r = r [unfolded this]
  show ?thesis
  proof (cases "list_all (\<lambda>c. cc_range c \<noteq> None) cs")
    case False
    with r obtain b where u: "update_open_document pf u t' be = Returns (b, be')" by (auto simp: obind_Returns_iff)
    note e = update_open_effect [OF u parser_okD [OF parser wf]]
    show ?thesis
      using publish_step_ok [OF ok e(1,2) e(4) [OF okD(2)] e(3)] False calm wf accepted_frame [OF acc e(1)] c by simp
  next
    case True
    let ?e = "\<lparr>pe_source = t', pe_line_index = LineIndex_new t', pe_tree = tree', target_parse_version = parse_counter be\<rparr>"
    from r True okD(1) have be': "be' = be\<lparr>parse_counter := parse_counter be + 1, pending_edits := hput u ?e (pending_edits be),
        edit_permit := True\<rparr>"
      by (simp add: enqueue_edit_def next_parse_version_def)
    have less: "v < parse_counter be \<Longrightarrow> v < parse_counter be + 1" for v by (rule less_trans [OF _ next_counter [OF c]])
    show ?thesis
    proof (rule session_okI)
      show "edit_writer_spawned be'" "indexed (be_compilation be')" using okD(1,2) by (simp_all add: be')
      show "writer_ok be' w" using okD(3) t(4) less by (cases w) (auto simp: be' texts_def)
      show "(client(u \<mapsto> t')) v = latest_text be' v" for v
        using okD(4) [of v] by (simp add: be' latest_text_def texts_def split: option.split)
      show "utf8_wf x \<and> accepted pf be' v" if "(client(u \<mapsto> t')) v = Some x" for v x
        using that wf acc okD(5,6) [of v x] by (auto simp: be' split: if_splits)
      show "pe_line_index e = LineIndex_new (pe_source e) \<and> target_parse_version e < parse_counter be'"
        if "hget (pending_edits be') v = Some e" for v e
        using that okD(7,8) [of v e] less next_counter [OF c] by (auto simp: be' split: if_splits)
    qed
  qed
qed


text \<open>The part of the invariant that the writer needs, without the client.\<close>

definition queue_ok :: "backend \<Rightarrow> writer \<Rightarrow> bool" where
  "queue_ok be w \<longleftrightarrow> edit_writer_spawned be \<and> indexed (be_compilation be) \<and> writer_ok be w \<and>
     (\<forall>u e. hget (pending_edits be) u = Some e \<longrightarrow>
        utf8_wf (pe_source e) \<and> pe_line_index e = LineIndex_new (pe_source e) \<and> target_parse_version e < parse_counter be)"

lemma queue_okI:
  assumes "edit_writer_spawned be" "indexed (be_compilation be)" "writer_ok be w"
    "\<And>u e. hget (pending_edits be) u = Some e \<Longrightarrow>
      utf8_wf (pe_source e) \<and> pe_line_index e = LineIndex_new (pe_source e) \<and> target_parse_version e < parse_counter be"
  shows "queue_ok be w"
  using assms by (simp add: queue_ok_def)

lemma queue_okD:
  assumes "queue_ok be w"
  shows "edit_writer_spawned be" "indexed (be_compilation be)" "writer_ok be w"
    "hget (pending_edits be) u = Some e \<Longrightarrow>
      utf8_wf (pe_source e) \<and> pe_line_index e = LineIndex_new (pe_source e) \<and> target_parse_version e < parse_counter be"
  using assms by (auto simp: queue_ok_def)

lemma session_queue_ok:
  assumes "session_ok pf \<lparr>se_backend = be, se_writer = w, se_client = client\<rparr>"
  shows "queue_ok be w"
proof (rule queue_okI)
  note ok = session_okD [OF assms]
  show "utf8_wf (pe_source e) \<and> pe_line_index e = LineIndex_new (pe_source e) \<and> target_parse_version e < parse_counter be"
    if "hget (pending_edits be) u = Some e" for u e
    using that ok(4,5,7,8) [of u] by (simp add: latest_text_def)
qed (use session_okD [OF assms] in auto)

lemma process_step:
  assumes ok: "queue_ok be (Holding u e us)" and parser: "parser_ok pf"
    and p: "process_pending_edit pf u e be = Returns be'" and c: "parse_counter be \<noteq> - 1"
  shows "queue_ok be' (Published u (target_parse_version e) us) \<and> latest_text be' = latest_text be \<and>
    frame_kept be be' \<and> parse_counter be' = parse_counter be + 1"
proof -
  note okD = queue_okD [OF ok]
  have e: "hget (pending_edits be) u = Some e" using okD(3) by simp
  note f = process_effect [OF p parser_okD [OF parser]] okD(4) [OF e]
  have pending: "pending_edits be' = pending_edits be" using f(1) f(5) by (simp add: frame_kept_def)
  have less: "v < parse_counter be \<Longrightarrow> v < parse_counter be'" for v using next_counter [OF c] f(2,5) by simp
  have "queue_ok be' (Published u (target_parse_version e) us)"
  proof (rule queue_okI)
    show "edit_writer_spawned be'" "indexed (be_compilation be')" using okD(1,2) f by (simp_all add: frame_kept_def)
    show "writer_ok be' (Published u (target_parse_version e) us)" using e f(5) less by (simp add: pending f(3))
    show "utf8_wf (pe_source ed) \<and> pe_line_index ed = LineIndex_new (pe_source ed) \<and> target_parse_version ed < parse_counter be'"
      if "hget (pending_edits be') v = Some ed" for v ed using that okD(4) [of v ed] less by (simp add: pending)
  qed
  moreover have "latest_text be' v = latest_text be v" for v
    using e f(3,5) by (auto simp: latest_text_def pending split: option.split)
  ultimately show ?thesis using f by auto
qed

lemma write_step:
  assumes ok: "queue_ok be w" and parser: "parser_ok pf"
    and r: "writer_step pf w be = Returns (Some (w', be'))" and c: "parse_counter be \<noteq> - 1"
  shows "queue_ok be' w' \<and> latest_text be' = latest_text be \<and> (\<forall>v. accepted pf be v \<longrightarrow> accepted pf be' v)"
proof (cases w)
  case (Holding u e us)
  with r have p: "process_pending_edit pf u e be = Returns be'" and w': "w' = Published u (target_parse_version e) us"
    by (auto simp: obind_Returns_iff)
  from process_step [OF ok [unfolded Holding] parser p c] show ?thesis
    using accepted_frame by (auto simp: w')
next
  case (Published u v us)
  note okD = queue_okD [OF ok]
  from r Published have w': "w' = Working us"
    and be': "be' = (if map_option target_parse_version (hget (pending_edits be) u) = Some v
       then be\<lparr>pending_edits := hdel u (pending_edits be)\<rparr> else be)" by simp_all
  have "queue_ok be' w'"
  proof (rule queue_okI)
    show "edit_writer_spawned be'" "indexed (be_compilation be')" "writer_ok be' w'" using okD(1,2) by (simp_all add: be' w')
    show "utf8_wf (pe_source ed) \<and> pe_line_index ed = LineIndex_new (pe_source ed) \<and> target_parse_version ed < parse_counter be'"
      if "hget (pending_edits be') y = Some ed" for y ed using that okD(4) [of y ed] by (auto simp: be' split: if_splits)
  qed
  moreover have "latest_text be' x = latest_text be x" for x
    using okD(3) by (auto simp: be' Published latest_text_def texts_def split: option.splits)
  ultimately show ?thesis by (auto simp: be' fun_eq_iff)
next
  case Asleep
  from r Asleep have "w' = Scanning" "be' = be\<lparr>edit_permit := False\<rparr>" by (auto split: if_splits)
  with ok show ?thesis by (auto simp: queue_ok_def latest_text_def texts_def fun_eq_iff split: option.split)
next
  case Scanning
  from r Scanning have "w' = (if pending_edits be = [] then Asleep else Working (hkeys (pending_edits be)))" "be' = be"
    by (auto simp: Let_def)
  with ok show ?thesis by (auto simp: queue_ok_def)
next
  case (Working us)
  from r Working have "be' = be" "writer_ok be w'"
    by (cases us; auto simp: clone_pending_for_def split: option.splits)+
  with ok show ?thesis by (auto simp: queue_ok_def)
qed

lemma write_step_ok:
  assumes ok: "session_ok pf \<lparr>se_backend = be, se_writer = w, se_client = client\<rparr>" and parser: "parser_ok pf"
    and r: "writer_step pf w be = Returns (Some (w', be'))" and c: "parse_counter be \<noteq> - 1"
  shows "session_ok pf \<lparr>se_backend = be', se_writer = w', se_client = client\<rparr>"
proof -
  note okD = session_okD [OF ok]
  from write_step [OF session_queue_ok [OF ok] parser r c]
  have "queue_ok be' w'" and same: "latest_text be' = latest_text be" "\<And>v. accepted pf be v \<Longrightarrow> accepted pf be' v" by auto
  then show ?thesis using okD(4,5,6) by (intro session_okI) (auto simp: same dest: queue_okD)
qed

lemma session_step_ok:
  assumes "session_step pf s a s'" "parser_ok pf" "session_ok pf s" "calm s a"
  shows "session_ok pf s'"
  using assms(1)
proof cases
  case (step_open u t be)
  obtain be0 w client where s: "s = \<lparr>se_backend = be0, se_writer = w, se_client = client\<rparr>" by (cases s)
  note ok = assms(3) [unfolded s]
  have c: "parse_counter be0 \<noteq> - 1" using assms(4) step_open(1) by (simp add: s)
  have "did_open pf u t be0 = Returns be" using step_open by (simp add: s)
  note e = did_open_effect [OF this parser_okD [OF assms(2) step_open(4)]]
  have pending: "hget (pending_edits be0) u = None"
    using session_okD(4) [OF ok, of u] step_open(3) by (simp add: s latest_text_def split: option.splits)
  show ?thesis
  proof (cases "is_builtin_uri u \<or> fst (is_uri_excluded pf u be0)")
    case True
    have "client(u := None) = client" using step_open(3) by (simp add: s fun_eq_iff)
    moreover have "texts be0 u = None" using session_okD(4) [OF ok, of u] step_open(3) pending by (simp add: s latest_text_def)
    then have "texts be = (texts be0)(u := None)" using e(4) True by (auto simp: fun_eq_iff)
    ultimately show ?thesis
      using publish_step_ok [OF ok e(1,2) e(3) [OF session_okD(2) [OF ok]] _ pending _ c, of None] True step_open(2) by (simp add: s)
  next
    case False
    then show ?thesis
      using publish_step_ok [OF ok e(1,2) e(3) [OF session_okD(2) [OF ok]] _ pending _ c, of "Some t"] e(4,5) step_open(2,4)
      by (simp add: s)
  qed
next
  case (step_change u t cs t' be)
  obtain be0 w client where s: "s = \<lparr>se_backend = be0, se_writer = w, se_client = client\<rparr>" by (cases s)
  show ?thesis
    using change_step_ok [OF assms(3) [unfolded s] assms(2), of u t cs t' be] step_change assms(4) by (simp add: s)
next
  case (step_ignored u cs be)
  obtain be0 w client where s: "s = \<lparr>se_backend = be0, se_writer = w, se_client = client\<rparr>" by (cases s)
  note ok = assms(3) [unfolded s]
  have none: "latest_edit_state u be0 = None"
    using session_okD(4) [OF ok, of u] step_ignored(3)
    by (auto simp: s latest_text_def latest_edit_state_def texts_def split: option.splits)
  obtain x be1 where x: "is_uri_excluded pf u be0 = (x, be1)" by fastforce
  have same: "pending_edits be1 = pending_edits be0" "be_compilation be1 = be_compilation be0"
    using x by (auto simp: is_uri_excluded_def Let_def split: option.splits if_splits)
  then have "latest_edit_state u be1 = None" using none by (simp add: latest_edit_state_def split: option.splits)
  then have "be = be0 \<or> be = be1"
    using step_ignored(5) x by (auto simp: s did_change_def split: if_splits)
  then have "quiet be0 be" using excluded_effect(1) [OF x] by auto
  from quiet_step_ok [OF ok this] assms(4) step_ignored(1,2) show ?thesis by (simp add: s)
next
  case (step_close u disk be)
  obtain be0 w client where s: "s = \<lparr>se_backend = be0, se_writer = w, se_client = client\<rparr>" by (cases s)
  note ok = assms(3) [unfolded s]
  have "did_close (pf\<lparr>read_text_file := disk\<rparr>) u be0 = Returns be" using step_close by (simp add: s)
  note e = did_close_effect [OF this step_close(3)]
  show ?thesis
    using publish_step_ok [OF ok e(1,2) e(4) [OF session_okD(2) [OF ok]] e(3)] assms(4) step_close(1,2) by (simp add: s)
next
  case (step_write w' be)
  obtain be0 w client where s: "s = \<lparr>se_backend = be0, se_writer = w, se_client = client\<rparr>" by (cases s)
  show ?thesis
    using write_step_ok [OF assms(3) [unfolded s] assms(2), of w' be] step_write assms(4) by (simp add: s)
qed

lemma calm_run_ok: "calm_run pf s \<Longrightarrow> parser_ok pf \<Longrightarrow> session_ok pf s"
proof (induction rule: calm_run.induct)
  case (run_start s)
  then show ?case by (auto simp: fresh_session_def session_ok_def latest_text_def texts_def)
next
  case (run_step s a s')
  then show ?case by (auto intro: session_step_ok)
qed

end
