(* ===== verification/Writer_Progress.thy ===== *)
theory Writer_Progress
  imports Edit_Sessions
begin

text \<open>
  The writer task of \<^verbatim>\<open>edit_queue.rs\<close> always works its queue off: its steps return, and every
  step goes down a well-founded order of the queue's length, the permit and the place in the round.
\<close>

subsection \<open>The writer always gets to the end of its queue\<close>

text \<open>Parsing, indexing and publishing a document return when the tree is one of the source.\<close>

lemma ident_nodes_places: "set (ident_nodes n) \<subseteq> here ` set (subplaces (Place n up))"
proof (induction n arbitrary: up)
  case (Node i cs)
  have "set (ident_nodes c) \<subseteq> here ` set (subplaces (Place (Node i cs) up))" if "c \<in> set cs" for c
  proof -
    from that obtain k where k: "k < length cs" "c = cs ! k" by (auto simp: in_set_conv_nth)
    then have "nth_child (Place (Node i cs) up) k \<in> set (child_nodes (Place (Node i cs) up))"
      by (auto simp: child_nodes_def)
    moreover have "here (nth_child (Place (Node i cs) up) k) = c" using k by (simp add: nth_child_def)
    ultimately have "set (ident_nodes c) \<subseteq> here ` set (subplaces (nth_child (Place (Node i cs) up) k))"
      using Node.IH [OF that] by (metis nth_child_def place.collapse)
    with \<open>nth_child _ k \<in> _\<close> show ?thesis by (auto simp: subplaces.simps [of "Place (Node i cs) up"])
  qed
  then show ?case by (auto simp: subplaces.simps [of "Place (Node i cs) up"])
qed

lemma tree_idents_in_source:
  assumes "tree_in source (Place root [])"
  shows "list_all (in_source source) (ident_nodes root)"
proof -
  have "in_source source (here p)" if "p \<in> set (subplaces (Place root []))" for p
    using assms that by (auto simp: tree_in_def node_in_def in_source_def is_char_boundary_def)
  then show ?thesis using ident_nodes_places [of root "[]"] by (auto simp: list_all_iff)
qed

lemma scan_returning: "tree_in source (Place root []) \<Longrightarrow> returning (scan_ident_occurrences source root)"
  using collect_idents_value(1) [OF tree_idents_in_source] by (simp add: scan_ident_occurrences_def)

lemma index_open_returning:
  assumes "tree_in (doc_source doc) (Place (doc_tree doc) [])"
  shows "returning (index_open_document pf uri doc idx)"
  using scan_returning [OF assms]
  by (auto simp: index_open_document_def update_parsed_def update_document_def compute_contribution_def Let_def
      returning_def split: prod.splits)

lemma route_returning:
  assumes "tree_in (doc_source doc) (Place (doc_tree doc) [])"
  shows "returning (route_document_to_index pf uri scope doc bd)"
  unfolding route_document_to_index_def Let_def in_workspace_index_def in_loose_index_def in_base_scripts_index_def
  using index_open_returning [OF assms]
  by (auto intro!: returning_obind split: prod.splits)

lemma publish_open_returning:
  assumes "tree_in (doc_source doc) (Place (doc_tree doc) [])"
  shows "returning (publish_open_document_indices pf uri doc be)"
  unfolding publish_open_document_indices_def Let_def publish_compilation_def
  by (auto intro!: returning_obind route_returning [OF assms] split: prod.splits)

lemma parsed_tree:
  assumes "parser_ok pf" "utf8_wf source"
  obtains doc where "parse_document_with_prior (parse_tree pf) source prior n = Returns (Inr doc, n + 1)"
    "doc_source doc = source" "tree_in source (Place (doc_tree doc) [])"
proof -
  obtain tree where t: "parse_tree pf source prior = Some tree" "tree_in source (Place tree [])" "hex_spelled source (Place tree [])"
    using assms by (auto simp: parser_ok_def)
  show ?thesis using parse_two_passes [of "parse_tree pf" source prior n] t that by auto
qed

lemma process_returning:
  assumes "parser_ok pf" "utf8_wf (pe_source e)"
  shows "returning (process_pending_edit pf u e be)"
proof -
  obtain doc where "parse_document_with_prior (parse_tree pf) (pe_source e) (Some (pe_tree e)) (parse_counter be)
      = Returns (Inr doc, parse_counter be + 1)" "doc_source doc = pe_source e" "tree_in (pe_source e) (Place (doc_tree doc) [])"
    using parsed_tree [OF assms] .
  then show ?thesis by (simp add: process_pending_edit_def publish_open_returning)
qed

lemma update_open_returning:
  assumes "parser_ok pf" "utf8_wf source"
  shows "returning (update_open_document pf u source be)"
proof -
  have "returning (publish_open_document_indices pf u doc be')"
    if "parse_document_with_prior (parse_tree pf) source None n = Returns (Inr doc, n')" for doc n n' be'
    using parsed_tree [OF assms, of None n] that by (auto intro: publish_open_returning)
  moreover have "returning (parse_document_with_prior (parse_tree pf) source None n)" for n
    using parsed_tree [OF assms, of None n] by (metis returning_Returns)
  moreover have "returning (reuse_unchanged_open_document pf u source be)"
    by (auto simp: reuse_unchanged_open_document_def Let_def publish_compilation_def split: option.splits)
  ultimately show ?thesis
    unfolding update_open_document_def update_open_document_with_prior_def
    by (auto simp: Let_def intro!: returning_obind split: sum.splits prod.splits)
qed

lemma did_open_returning:
  assumes "parser_ok pf" "utf8_wf t"
  shows "returning (did_open pf u t be)"
proof -
  have "returning (refresh_legacy_override_maps pf be)" for be
    by (simp add: refresh_legacy_override_maps_def rebuild_filtered_base_catalogs_def publish_compilation_def Let_def
        split: prod.splits)
  then show ?thesis
    unfolding did_open_def Let_def
    by (auto intro!: returning_obind update_open_returning [OF assms] split: prod.splits)
qed

definition settled :: "backend \<Rightarrow> url \<Rightarrow> u64 \<Rightarrow> bool" where
  "settled be u v \<longleftrightarrow> map_option target_parse_version (hget (pending_edits be) u) = Some v"

definition working_rank :: "backend \<Rightarrow> url list \<Rightarrow> nat" where
  "working_rank be us = (if list_ex (\<lambda>u. hget (pending_edits be) u \<noteq> None) us then 2 + length us
     else 4 + length (pending_edits be) + length us)"

fun rank :: "backend \<Rightarrow> writer \<Rightarrow> nat" where
  "rank be Asleep = 0"
| "rank be Scanning = 3 + length (pending_edits be)"
| "rank be (Working us) = working_rank be us"
| "rank be (Holding u e us) = 1"
| "rank be (Published u v us) = (if settled be u v then 0 else 1 + working_rank be us)"

text \<open>How often the writer will still parse, at most.\<close>

fun due :: "backend \<Rightarrow> writer \<Rightarrow> nat" where
  "due be (Published u v us) = length (pending_edits be) - (if settled be u v then 1 else 0)"
| "due be _ = length (pending_edits be)"

definition has_room :: "backend \<Rightarrow> writer \<Rightarrow> bool" where
  "has_room be w \<longleftrightarrow> unat (parse_counter be) + due be w + 1 < 2 ^ 64"

abbreviation progress :: "(writer \<times> backend) \<Rightarrow> nat \<times> nat \<times> nat" where
  "progress \<equiv> \<lambda>(w, be). (length (pending_edits be), of_bool (edit_permit be), rank be w)"

definition forward :: "((writer \<times> backend) \<times> writer \<times> backend) set" where
  "forward = inv_image (less_than <*lex*> less_than <*lex*> less_than) progress"

lemma wf_forward: "wf forward"
  by (auto simp: forward_def intro!: wf_inv_image wf_lex_prod)

lemma counter_room: "unat c + 1 < 2 ^ 64 \<Longrightarrow> c \<noteq> - 1 \<and> unat (c + 1) = unat c + 1" for c :: u64
proof -
  assume less: "unat c + 1 < 2 ^ 64"
  then have "unat (c + 1) = unat c + 1" by (simp add: unat_word_ariths)
  moreover from this have "c \<noteq> - 1" by auto
  ultimately show ?thesis by simp
qed

lemma hdel_shorter: "hget m k \<noteq> None \<Longrightarrow> length (hdel k m) < length m"
  by (induction m) (auto split: if_splits intro: le_imp_less_Suc length_delete_le)

lemma write_progress:
  assumes ok: "queue_ok be w" and parser: "parser_ok pf" and room: "has_room be w"
    and busy: "w \<noteq> Asleep \<or> edit_permit be"
  shows "\<exists>w' be'. writer_step pf w be = Returns (Some (w', be')) \<and> ((w', be'), (w, be)) \<in> forward \<and> has_room be' w'"
proof (cases w)
  case (Holding u e us)
  note okD = queue_okD [OF ok]
  have e: "hget (pending_edits be) u = Some e" using okD(3) by (simp add: Holding)
  obtain be' where p: "process_pending_edit pf u e be = Returns be'"
    using process_returning [OF parser, of e u be] okD(4) [OF e] by (auto simp: returning_def)
  have c: "parse_counter be \<noteq> - 1" "unat (parse_counter be + 1) = unat (parse_counter be) + 1"
    using counter_room [of "parse_counter be"] room by (simp_all add: has_room_def Holding)
  have f: "pending_edits be' = pending_edits be" "edit_permit be' = edit_permit be" "parse_counter be' = parse_counter be + 1"
    using process_step [OF ok [unfolded Holding] parser p c(1)] by (simp_all add: frame_kept_def)
  have "0 < length (pending_edits be)" using e by (cases "pending_edits be") auto
  moreover have "settled be' u (target_parse_version e)" by (simp add: settled_def f e)
  ultimately have "has_room be' (Published u (target_parse_version e) us)"
    using room by (simp only: has_room_def Holding due.simps f c(2) if_True)
  moreover have "((Published u (target_parse_version e) us, be'), (w, be)) \<in> forward"
    by (simp add: forward_def Holding settled_def f e)
  ultimately show ?thesis by (simp add: Holding p)
next
  case (Published u v us)
  then show ?thesis
    using room hdel_shorter [of "pending_edits be" u]
    by (cases "settled be u v") (auto simp: settled_def forward_def has_room_def split: if_splits)
next
  case (Working us)
  then show ?thesis
    using room by (cases us) (auto simp: forward_def has_room_def working_rank_def clone_pending_for_def split: option.split)
next
  case Scanning
  have "\<not> list_all (\<lambda>u. hget (pending_edits be) u = None) (hkeys (pending_edits be))" if "pending_edits be \<noteq> []"
    using that by (cases "pending_edits be") auto
  then show ?thesis
    using room by (auto simp: Scanning forward_def has_room_def working_rank_def list_ex_iff list_all_iff Let_def)
next
  case Asleep
  then show ?thesis using room busy by (auto simp: forward_def has_room_def)
qed

text \<open>The steps of the writer alone.\<close>

inductive writes :: "platform \<Rightarrow> writer \<Rightarrow> backend \<Rightarrow> writer \<Rightarrow> backend \<Rightarrow> bool" for pf where
  writes_refl: "writes pf w be w be"
| writes_step: "writer_step pf w be = Returns (Some (w1, be1)) \<Longrightarrow> writes pf w1 be1 w2 be2 \<Longrightarrow> writes pf w be w2 be2"

lemma writer_finishes:
  assumes "queue_ok be w" "parser_ok pf" "has_room be w"
  shows "\<exists>be'. writes pf w be Asleep be' \<and> pending_edits be' = [] \<and> texts be' = latest_text be"
  using wf_forward assms
proof (induction "(w, be)" arbitrary: w be rule: wf_induct_rule)
  case less
  show ?case
  proof (cases "w = Asleep \<and> \<not> edit_permit be")
    case True
    then have "pending_edits be = []" using queue_okD(3) [OF less.prems(1)] by simp
    then have "texts be = latest_text be" by (simp add: latest_text_def fun_eq_iff)
    with True \<open>pending_edits be = []\<close> show ?thesis by (metis writes_refl)
  next
    case False
    then obtain w' be' where s: "writer_step pf w be = Returns (Some (w', be'))" "((w', be'), (w, be)) \<in> forward" "has_room be' w'"
      using write_progress [OF less.prems] by auto
    have "parse_counter be \<noteq> - 1" using counter_room less.prems(3) by (simp add: has_room_def)
    note q = write_step [OF less.prems(1,2) s(1) this]
    from less.hyps [OF s(2) _ less.prems(2) s(3)] q obtain be2 where
      "writes pf w' be' Asleep be2" "pending_edits be2 = []" "texts be2 = latest_text be" by auto
    with writes_step [OF s(1)] show ?thesis by metis
  qed
qed

end
