(* ===== verification/Server_Sync.thy ===== *)
theory Server_Sync
  imports Writer_Progress
begin

text \<open>
  The properties of the server and its client, and a small session that shows their hypotheses hold.
\<close>

subsection \<open>A small session\<close>

definition sample_platform :: platform where
  "sample_platform =
     \<lparr>to_file_path = (\<lambda>_. None), from_file_path = (\<lambda>_. None), url_parse = (\<lambda>s. Some s), path_from = (\<lambda>s. [s]), is_dir = (\<lambda>_. False),
      read_dir = (\<lambda>_. None), read_text_file = (\<lambda>_. None), exclude_matches = (\<lambda>_ _ _. False),
      hash_finish = (\<lambda>_. 0), parse_tree = (\<lambda>src _. Some (sample_node ''script'' 0 (length src) [])),
      edit_tree = (\<lambda>_ n. n)\<rparr>"

definition sample_start :: session where
  "sample_start = \<lparr>se_backend = (Backend_new Config_default WorkspaceIndex_default 1 1)\<lparr>edit_writer_spawned := True\<rparr>, se_writer = Asleep,
     se_client = (\<lambda>_. None)\<rparr>"

definition insert_x :: content_change where
  "insert_x = \<lparr>cc_range = Some \<lparr>range_start = \<lparr>pos_line = 0, pos_character = 0\<rparr>, range_end = \<lparr>pos_line = 0, pos_character = 0\<rparr>\<rparr>, cc_text = ''x''\<rparr>"

abbreviation sample_uri :: url where
  "sample_uri \<equiv> ''untitled:a''"

lemma sample_parser: "parser_ok sample_platform"
proof -
  have "tree_in src (Place (sample_node ''script'' 0 (length src) []) []) \<and>
      hex_spelled src (Place (sample_node ''script'' 0 (length src) []) [])" if "utf8_wf src" for src
  proof -
    have "subplaces (Place (sample_node ''script'' 0 (length src) []) []) = [Place (sample_node ''script'' 0 (length src) []) []]"
      by (subst subplaces.simps) (simp add: child_nodes_def sample_node_def)
    then show ?thesis using that
      by (simp add: tree_in_def hex_spelled_def child_nodes_def sample_node_def sample_info_def node_in_def kind_names
          LineIndex_new_def vget_def)
  qed
  then show ?thesis by (auto simp: parser_ok_def sample_platform_def)
qed

lemma sample_fresh: "fresh_session sample_start"
  by (simp add: fresh_session_def sample_start_def Backend_new_def Compilation_default_def indexed_def Let_def
      ScriptEnvironment_default_def ScriptEnvironment_new_def next_script_env_version_def)

lemma sample_edit: "edited [insert_x] ''y'' = Returns (Some ''xy'')"
proof -
  have "position_to_byte (LineIndex_new ''y'') ''y'' \<lparr>pos_line = 0, pos_character = 0\<rparr> = Some 0" by code_simp
  moreover have "byte_point (LineIndex_new ''y'') 0 = Returns \<lparr>row = 0, column = 0\<rparr>" by code_simp
  moreover have "byte_point_in ''xy'' 1 = Returns \<lparr>row = 0, column = 1\<rparr>" by code_simp
  moreover have "slice ''y'' 0 0 = Some []" "slice ''y'' 0 1 = Some ''y''" by code_simp+
  ultimately show ?thesis
    by (simp add: insert_x_def apply_content_change_def Let_def)
qed

text \<open>A document is opened and edited, and the writer has not got to the edit.\<close>

lemma sample_queued:
  obtains be where
    "calm_run sample_platform \<lparr>se_backend = be, se_writer = Asleep, se_client = [sample_uri \<mapsto> ''xy'']\<rparr>"
    "session_ok sample_platform \<lparr>se_backend = be, se_writer = Asleep, se_client = [sample_uri \<mapsto> ''xy'']\<rparr>"
    "hkeys (pending_edits be) = [sample_uri]" "unat (parse_counter be) \<le> 3"
proof -
  let ?be0 = "se_backend sample_start"
  have wf: "utf8_wf ''y''" "utf8_wf ''x''" by code_simp+
  obtain be1 where o: "did_open sample_platform sample_uri ''y'' ?be0 = Returns be1"
    using did_open_returning [OF sample_parser wf(1)] by (auto simp: returning_def)
  note e = did_open_effect [OF o parser_okD [OF sample_parser wf(1)]]
  let ?s1 = "\<lparr>se_backend = be1, se_writer = Asleep, se_client = [sample_uri \<mapsto> ''y'']\<rparr>"
  have scope: "\<not> is_builtin_uri sample_uri" "\<not> fst (is_uri_excluded sample_platform sample_uri ?be0)"
    by (code_simp, simp add: is_uri_excluded_def sample_platform_def)
  have be0: "pending_edits ?be0 = []" "parse_counter ?be0 = 1" by (simp_all add: sample_start_def Backend_new_def)
  have be1: "pending_edits be1 = []" "parse_counter be1 \<noteq> - 1" "unat (parse_counter be1) \<le> 2" "edit_writer_spawned be1"
    using e(1,2) be0 by (auto simp: frame_kept_def counted_def sample_start_def)
  have "session_step sample_platform sample_start (Open sample_uri ''y'') ?s1"
    using step_open [of sample_start sample_uri "''y''" sample_platform be1] o wf scope by (simp add: sample_start_def)
  then have run1: "calm_run sample_platform ?s1"
    by (rule run_step [OF run_start [OF sample_fresh], rotated]) (simp add: be0)
  note ok1 = calm_run_ok [OF run1 sample_parser]
  obtain tree where c: "did_change sample_platform sample_uri [insert_x] be1 =
      enqueue_edit sample_platform sample_uri ''xy'' (LineIndex_new ''xy'') tree be1"
    using did_change_value [OF ok1 _ sample_edit, of sample_uri] by (auto simp: insert_x_def)
  then obtain be2 where be2: "did_change sample_platform sample_uri [insert_x] be1 = Returns be2"
    "hkeys (pending_edits be2) = [sample_uri]" "parse_counter be2 = parse_counter be1 + 1"
    using be1 by (simp add: enqueue_edit_def next_parse_version_def)
  let ?s2 = "\<lparr>se_backend = be2, se_writer = Asleep, se_client = [sample_uri \<mapsto> ''xy'']\<rparr>"
  have "session_step sample_platform ?s1 (Change sample_uri [insert_x]) ?s2"
    using step_change [of ?s1 sample_uri "''y''" "[insert_x]" "''xy''" sample_platform be2] sample_edit be2(1) wf
    by (simp add: insert_x_def)
  then have run2: "calm_run sample_platform ?s2"
    by (rule run_step [OF run1, rotated]) (simp add: be1 insert_x_def)
  have "unat (parse_counter be2) \<le> 3" using be1(3) by (simp add: be2(3) unat_word_ariths)
  with run2 calm_run_ok [OF run2 sample_parser] be2(2) show ?thesis by (rule that)
qed


text \<open>A step behind the back of the queue keeps what the writer needs.\<close>

lemma overtaken:
  assumes ok: "session_ok pf \<lparr>se_backend = be, se_writer = Asleep, se_client = client\<rparr>" and "parser_ok pf"
    and e: "frame_kept be be'" "counted be be'" "indexed (be_compilation be')"
    and u: "hkeys (pending_edits be) = [u]" "client u = Some t" "unat (parse_counter be) \<le> 3"
  obtains be2 where "writes pf Asleep be' Asleep be2" "pending_edits be2 = []" "texts be2 u = Some t"
proof -
  note okD = session_okD [OF ok]
  have c: "parse_counter be \<noteq> - 1" using counter_room [of "parse_counter be"] u(3) by simp
  have pending: "pending_edits be' = pending_edits be" "edit_permit be' = edit_permit be"
    "edit_writer_spawned be' = edit_writer_spawned be" using e(1) by (simp_all add: frame_kept_def)
  have "queue_ok be' Asleep"
    using session_queue_ok [OF ok] counted_less [OF e(2) c] e(3) by (auto simp: queue_ok_def pending)
  moreover have "unat (parse_counter be') \<le> 4"
    using e(2) u(3) by (auto simp: counted_def unat_word_ariths)
  then have "has_room be' Asleep" using arg_cong [OF u(1), of length] by (simp add: has_room_def pending)
  ultimately obtain be2 where be2: "writes pf Asleep be' Asleep be2" "pending_edits be2 = []" "texts be2 = latest_text be'"
    using writer_finishes assms(2) by blast
  have "hget (pending_edits be) u \<noteq> None" using hkeys_iff_hget [of u "pending_edits be"] u(1) by simp
  then have "latest_text be' u = Some t" using okD(4) [of u] u(2) by (auto simp: latest_text_def pending)
  then have "texts be2 u = Some t" unfolding be2(3) .
  with be2(1,2) show ?thesis by (rule that)
qed

lemma sample_loose: "is_loose (file_scope_of sample_platform sample_uri be)"
  by (simp add: file_scope_of_def classify_file_scope_def sample_platform_def Let_def)

lemma sample_close_returning: "returning (did_close sample_platform sample_uri be)"
  using sample_loose [of be]
  by (auto simp: did_close_def Let_def publish_compilation_def in_loose_index_def intro!: returning_obind split: prod.splits)

subsection \<open>Properties\<close>





text \<open>
  C38: a whole-document change or a close of a document with a queued edit goes past the queue.  The
  writer then publishes the queued edit, and the server ends with an empty queue and a text that is
  not the client's: the text before the replacement, or the text of a document that is closed.
\<close>

theorem queue_overtaken:
  "\<exists>be be1 be2 be3.
     calm_run sample_platform \<lparr>se_backend = be, se_writer = Asleep, se_client = [sample_uri \<mapsto> ''xy'']\<rparr> \<and>
     did_change sample_platform sample_uri [\<lparr>cc_range = None, cc_text = ''z''\<rparr>] be = Returns be1 \<and>
     texts be1 sample_uri = Some ''z'' \<and>
     writes sample_platform Asleep be1 Asleep be2 \<and> pending_edits be2 = [] \<and> texts be2 sample_uri = Some ''xy'' \<and>
     did_close sample_platform sample_uri be = Returns be3 \<and> texts be3 sample_uri = None \<and>
     (\<exists>be4. writes sample_platform Asleep be3 Asleep be4 \<and> pending_edits be4 = [] \<and> texts be4 sample_uri = Some ''xy'')"
proof -
  obtain be where run: "calm_run sample_platform \<lparr>se_backend = be, se_writer = Asleep, se_client = [sample_uri \<mapsto> ''xy'']\<rparr>"
    and ok: "session_ok sample_platform \<lparr>se_backend = be, se_writer = Asleep, se_client = [sample_uri \<mapsto> ''xy'']\<rparr>"
    and be: "hkeys (pending_edits be) = [sample_uri]" "unat (parse_counter be) \<le> 3" using sample_queued by metis
  note indexed = session_okD(2) [OF ok]
  have wf: "utf8_wf ''z''" by code_simp
  obtain b be1 where u: "update_open_document sample_platform sample_uri ''z'' be = Returns (b, be1)"
    using update_open_returning [OF sample_parser wf, of sample_uri be] by (auto simp: returning_def)
  then have "did_change sample_platform sample_uri [\<lparr>cc_range = None, cc_text = ''z''\<rparr>] be = Returns be1"
    using did_change_value [OF ok, of sample_uri "''xy''" "[\<lparr>cc_range = None, cc_text = ''z''\<rparr>]" "''z''"]
    by (auto simp: apply_content_change_def)
  moreover note e = update_open_effect [OF u parser_okD [OF sample_parser wf]]
  then have "texts be1 sample_uri = Some ''z''" by simp
  moreover obtain be2 where "writes sample_platform Asleep be1 Asleep be2" "pending_edits be2 = []" "texts be2 sample_uri = Some ''xy''"
    using overtaken [OF ok sample_parser e(1,2) e(4) [OF indexed] be(1) _ be(2), of "''xy''"] by auto
  moreover obtain be3 where cl: "did_close sample_platform sample_uri be = Returns be3"
    using sample_close_returning by (auto simp: returning_def)
  moreover have "\<not> is_builtin_uri sample_uri" by code_simp
  note c = did_close_effect [OF cl this]
  then have "texts be3 sample_uri = None" by simp
  moreover obtain be4 where "writes sample_platform Asleep be3 Asleep be4" "pending_edits be4 = []" "texts be4 sample_uri = Some ''xy''"
    using overtaken [OF ok sample_parser c(1,2) c(4) [OF indexed] be(1) _ be(2), of "''xy''"] by auto
  ultimately show ?thesis using run by blast
qed

end
