(* ===== verification/Server_Config.thy ===== *)
theory Server_Config
  imports Server_State
begin

text \<open>
  \<^verbatim>\<open>src/bin/witcherscript-lsp/config.rs\<close> (with the setting parsers of \<^verbatim>\<open>logging.rs\<close> and
  \<^verbatim>\<open>formatter.rs\<close>): the settings the client answers with, how they update the configuration, and what
  the server decides to do again because of them.
\<close>

subsection \<open>Reading one setting\<close>

datatype level = ERROR_level | WARN_level | INFO_level | DEBUG_level | TRACE_level

definition DEFAULT_LOG_LEVEL :: level where
  "DEFAULT_LOG_LEVEL = WARN_level"

fun level_to_u8 :: "level \<Rightarrow> 8 word" where
  "level_to_u8 ERROR_level = 1"
| "level_to_u8 WARN_level = LEVEL_WARN"
| "level_to_u8 INFO_level = 3"
| "level_to_u8 DEBUG_level = 4"
| "level_to_u8 TRACE_level = 5"

definition level_from_u8 :: "8 word \<Rightarrow> level" where
  "level_from_u8 n =
     (if n = 1 then ERROR_level else if n = LEVEL_WARN then WARN_level else if n = 3 then INFO_level
      else if n = 4 then DEBUG_level else if n = 5 then TRACE_level else DEFAULT_LOG_LEVEL)"

definition level_from_str :: "string \<Rightarrow> level" where
  "level_from_str s =
     (let l = map to_ascii_lowercase s
      in if l = ''error'' then ERROR_level
         else if l = ''warn'' \<or> l = ''warning'' then WARN_level
         else if l = ''debug'' then DEBUG_level
         else if l = ''trace'' then TRACE_level
         else DEFAULT_LOG_LEVEL)"

definition placement_from_wire :: "string \<Rightarrow> annotation_placement option" where
  "placement_from_wire v =
     (if v = ''preserve'' then Some Preserve
      else if v = ''ownLine'' then Some OwnLine
      else if v = ''sameLine'' then Some SameLine else None)"

definition placement_from_setting :: "string \<Rightarrow> annotation_placement" where
  "placement_from_setting v = (case placement_from_wire v of Some p \<Rightarrow> p | None \<Rightarrow> Preserve)"

definition scope_from_setting :: "string \<Rightarrow> diagnostics_scope" where
  "scope_from_setting v =
     (if v = ''openFiles'' then ScopeOpenFiles else if v = ''none'' then ScopeNone else ScopeWorkspace)"

fun parse_path_array :: "platform \<Rightarrow> json option \<Rightarrow> path list" where
  "parse_path_array pf (Some (JArray arr)) =
     concat (map (\<lambda>v. case v of JString s \<Rightarrow> if s \<noteq> [] then [path_from pf s] else [] | _ \<Rightarrow> []) arr)"
| "parse_path_array pf _ = []"

fun nonempty_path :: "platform \<Rightarrow> json option \<Rightarrow> path option" where
  "nonempty_path pf (Some (JString s)) = (if s \<noteq> [] then Some (path_from pf s) else None)"
| "nonempty_path pf _ = None"

text \<open>\<open>n.as_u64()\<close> and \<open>u32::try_from\<close>, with the test on the number in between.\<close>

fun or_number :: "(u64 \<Rightarrow> bool) \<Rightarrow> json option \<Rightarrow> u32 \<Rightarrow> u32" where
  "or_number ok (Some (JNumber (PosInt n))) d = (if ok n \<and> unat n < 2 ^ 32 then ucast n else d)"
| "or_number ok _ d = d"

fun bool_or :: "bool \<Rightarrow> json option \<Rightarrow> bool" where
  "bool_or d (Some (JBool b)) = b"
| "bool_or d _ = d"

subsection \<open>The answer of the client\<close>

record config_change =
  needs_reindex :: bool
  diagnostics_changed :: bool
  code_lens_changed :: bool
  inlay_hints_changed :: bool

definition ConfigChange_default :: config_change where
  "ConfigChange_default =
     \<lparr>needs_reindex = False, diagnostics_changed = False, code_lens_changed = False, inlay_hints_changed = False\<rparr>"

text \<open>The items are asked for in this order; each \<open>iter.next()\<close> of the source takes the value of the next
  one, whatever the values before it were, and sets one field.\<close>

definition next_config :: "platform \<Rightarrow> json list \<Rightarrow> config \<Rightarrow> config" where
  "next_config pf values prev =
     \<lparr>log_level = (case vget values 2 of Some (JString s) \<Rightarrow> level_to_u8 (level_from_str s) | _ \<Rightarrow> log_level prev),
      auto_load_mod_shared_imports = bool_or True (vget values 10),
      auto_detect_project_manifests = bool_or True (vget values 12),
      diagnostics_scope = (case vget values 13 of Some (JString s) \<Rightarrow> scope_from_setting s | _ \<Rightarrow> ScopeWorkspace),
      formatter_line_limit = or_number (\<lambda>_. True) (vget values 3) (formatter_line_limit prev),
      formatter_compact_colon = bool_or (formatter_compact_colon prev) (vget values 4),
      formatter_align_member_colons = bool_or (formatter_align_member_colons prev) (vget values 5),
      formatter_annotation_placement =
        (case vget values 6 of Some (JString s) \<Rightarrow> placement_from_setting s | _ \<Rightarrow> formatter_annotation_placement prev),
      formatter_default_placement =
        (case vget values 7 of Some (JString s) \<Rightarrow> placement_from_setting s | _ \<Rightarrow> formatter_default_placement prev),
      editor_tab_size = or_number (\<lambda>n. n > 0) (vget values 17) (editor_tab_size prev),
      editor_insert_spaces = bool_or True (vget values 18),
      code_lens_overridden_symbols = bool_or True (vget values 14),
      code_lens_references = bool_or False (vget values 15),
      inlay_hints = bool_or True (vget values 16),
      game_directory = (case nonempty_path pf (vget values 0) of Some p \<Rightarrow> Some p | None \<Rightarrow> game_directory prev),
      base_scripts_override = nonempty_path pf (vget values 1),
      files_exclude =
        (case vget values 8 of
           Some (JObject m) \<Rightarrow> map fst (filter (\<lambda>(_, enabled). enabled = JBool True) m)
         | _ \<Rightarrow> files_exclude prev),
      additional_script_dirs = parse_path_array pf (vget values 9),
      legacy_script_dirs = parse_path_array pf (vget values 11)\<rparr>"

definition fetch_config :: "platform \<Rightarrow> json list option \<Rightarrow> backend \<Rightarrow> config_change \<times> backend" where
  "fetch_config pf response be =
     (let prev = be_config be; prev_base = base_scripts_dir be
      in case response of
           None \<Rightarrow> (ConfigChange_default, be)
         | Some values \<Rightarrow>
             (let cfg = next_config pf values prev;
                  be = be\<lparr>be_config := cfg\<rparr>;
                  base_scripts_changed = (base_scripts_dir be \<noteq> prev_base)
              in (\<lparr>needs_reindex = (base_scripts_changed
                     \<or> files_exclude cfg \<noteq> files_exclude prev
                     \<or> additional_script_dirs cfg \<noteq> additional_script_dirs prev
                     \<or> legacy_script_dirs cfg \<noteq> legacy_script_dirs prev
                     \<or> auto_load_mod_shared_imports cfg \<noteq> auto_load_mod_shared_imports prev
                     \<or> auto_detect_project_manifests cfg \<noteq> auto_detect_project_manifests prev),
                   diagnostics_changed = (diagnostics_scope cfg \<noteq> diagnostics_scope prev),
                   code_lens_changed = (code_lens_overridden_symbols cfg \<noteq> code_lens_overridden_symbols prev
                     \<or> code_lens_references cfg \<noteq> code_lens_references prev),
                   inlay_hints_changed = (inlay_hints cfg \<noteq> inlay_hints prev)\<rparr>,
                  be)))"

lemma level_roundtrip: "level_from_u8 (level_to_u8 l) = l"
  by (cases l) (simp_all add: level_from_u8_def LEVEL_WARN_def)

text \<open>The directory of the game decides the directory of the base scripts unless that is set.\<close>

lemma base_dir_game:
  assumes "base_scripts_dir (be\<lparr>be_config := cfg\<rparr>) = base_scripts_dir be"
    "base_scripts_override cfg = None" "base_scripts_override (be_config be) = None"
  shows "game_directory cfg = game_directory (be_config be)"
  using assms by (cases "game_directory cfg"; cases "game_directory (be_config be)") (simp_all add: base_scripts_dir_def)

text \<open>A disk on which every game directory holds shared imports.\<close>

definition sample_disk :: platform where
  "sample_disk =
     \<lparr>to_file_path = (\<lambda>u. Some [u, ''Mods'', ''modSharedImports'', ''a.ws'']), from_file_path = (\<lambda>_. None),
      url_parse = (\<lambda>s. Some s), path_from = (\<lambda>s. [s]), is_dir = (\<lambda>p. last p \<in> {''Mods'', ''modSharedImports''}),
      read_dir = (\<lambda>_. None), read_text_file = (\<lambda>_. None), exclude_matches = (\<lambda>_ _ _. False),
      hash_finish = (\<lambda>_. 0), parse_tree = (\<lambda>src _. Some (sample_node ''script'' 0 (length src) [])),
      edit_tree = (\<lambda>_ n. n)\<rparr>"

definition sample_settings :: "string \<Rightarrow> json \<Rightarrow> json list" where
  "sample_settings game scripts = [JString game, scripts]"

definition sample_config :: "path \<Rightarrow> path option \<Rightarrow> backend" where
  "sample_config game scripts =
     Backend_new (Config_default\<lparr>game_directory := Some game, base_scripts_override := scripts\<rparr>) WorkspaceIndex_default 1 1"

lemmas sample_settings_simps = sample_disk_def sample_settings_def sample_config_def Backend_new_def Config_default_def
  fetch_config_def next_config_def vget_def Let_def base_scripts_dir_def

subsection \<open>Properties\<close>




end
