(* ===== verification/Semantic_Tokens.thy ===== *)
theory Semantic_Tokens
  imports Document_Parse Symbol_Lookup Symbol_Db
begin

text \<open>
  \<^verbatim>\<open>src/semantic_tokens/mod.rs\<close>: the tokens of a document, collected by one walk over its tree and
  encoded as the differences the protocol asks for.  The resolution of an identifier to its
  definition (\<open>classify_definition_at_ident\<close>) is an argument.
\<close>

subsection \<open>Tokens\<close>

definition AUTOBIND_SINGLE :: string where [kind_names]:
  "AUTOBIND_SINGLE = ''autobind_single''"

definition TT_CLASS :: u32 where "TT_CLASS = 0"
definition TT_ENUM :: u32 where "TT_ENUM = 1"
definition TT_ENUM_MEMBER :: u32 where "TT_ENUM_MEMBER = 2"
definition TT_FUNCTION :: u32 where "TT_FUNCTION = 3"
definition TT_PARAMETER :: u32 where "TT_PARAMETER = 4"
definition TT_VARIABLE :: u32 where "TT_VARIABLE = 5"
definition TT_PROPERTY :: u32 where "TT_PROPERTY = 6"
definition TT_COMMENT :: u32 where "TT_COMMENT = 8"
definition TT_STRING :: u32 where "TT_STRING = 9"
definition TT_NUMBER :: u32 where "TT_NUMBER = 10"
definition TT_DECORATOR :: u32 where "TT_DECORATOR = 12"
definition TT_MODIFIER :: u32 where "TT_MODIFIER = 13"
definition MOD_DEFAULT_LIBRARY :: u32 where "MOD_DEFAULT_LIBRARY = push_bit 1 1"

record raw_token =
  tok_line :: u32
  start_char :: u32
  tok_length :: u32
  token_type :: u32
  token_modifiers :: u32

type_synonym classify_cache = "(string \<times> symbol_id option, (u32 \<times> u32) option) hmap"

record token_collector =
  tc_cache :: classify_cache
  tc_tokens :: "raw_token list"

type_synonym resolver = "place \<Rightarrow> definition_site option"

subsection \<open>Classifying a node\<close>

fun symbol_kind_to_token_type :: "symbol_kind \<Rightarrow> u32" where
  "symbol_kind_to_token_type Class = TT_CLASS"
| "symbol_kind_to_token_type NativeType = TT_CLASS"
| "symbol_kind_to_token_type Struct = TT_CLASS"
| "symbol_kind_to_token_type State = TT_CLASS"
| "symbol_kind_to_token_type Enum = TT_ENUM"
| "symbol_kind_to_token_type EnumMember = TT_ENUM_MEMBER"
| "symbol_kind_to_token_type Function = TT_FUNCTION"
| "symbol_kind_to_token_type Method = TT_FUNCTION"
| "symbol_kind_to_token_type Event = TT_FUNCTION"
| "symbol_kind_to_token_type Field = TT_PROPERTY"
| "symbol_kind_to_token_type Variable = TT_VARIABLE"
| "symbol_kind_to_token_type Parameter = TT_PARAMETER"

definition classify_anonymous_keyword :: "string \<Rightarrow> u32 option" where
  "classify_anonymous_keyword k =
     (if k \<in> set [''class'', ''struct'', ''enum'', ''state'', ''function'', ''event'', ''extends'', ''var'',
        ''autobind'', ''defaults'', ''hint'', ''abstract'', ''statemachine'', ''latent'', ''import'',
        ''const'', ''final'', ''editable'', ''saved'', ''optional'', ''out'', ''inlined'', ''private'',
        ''protected'', ''public'', ''cleanup'', ''entry'', ''exec'', ''quest'', ''reward'',
        ''storyscene'', ''timer'', ''single'']
      then Some TT_MODIFIER else None)"

definition is_member_access_rhs :: "place \<Rightarrow> place \<Rightarrow> bool" where
  "is_member_access_rhs p up \<longleftrightarrow> kind_of up = MEMBER_ACCESS_EXPR \<and>
     \<not> (case named_child_nodes up of [] \<Rightarrow> False | c # _ \<Rightarrow> node_id (info (here c)) = node_id (info (here p)))"

definition script_global_override :: "symbol_db \<Rightarrow> string \<Rightarrow> definition_site \<Rightarrow> u32 \<times> u32" where
  "script_global_override db name def =
     (let k = sym_kind (def_symbol def)
      in case script_global_type_name db name of
           None \<Rightarrow> (symbol_kind_to_token_type k, 0)
         | Some global_type \<Rightarrow>
             if k = Variable \<or> (is_instantiable k \<and> sym_name (def_symbol def) = global_type)
             then (TT_VARIABLE, MOD_DEFAULT_LIBRARY) else (symbol_kind_to_token_type k, 0))"

definition token_of_symbol :: "symbol \<Rightarrow> u32" where
  "token_of_symbol s = symbol_kind_to_token_type (sym_kind s)"

definition classify_locally :: "place \<Rightarrow> parsed_document \<Rightarrow> u32 option outcome" where
  "classify_locally p doc =
     (if (case parent_place p of None \<Rightarrow> False | Some up \<Rightarrow> is_member_access_rhs p up) then Returns None
      else obind (utf8_text (doc_source doc) (here p)) (\<lambda>t.
        case t of
          None \<Rightarrow> Returns None
        | Some name \<Rightarrow>
            (let ds = doc_symbols doc; b = from_byte p
             in obind (enclosing_symbol_at ds b [Function, Method, Event]) (\<lambda>callable.
                obind (case callable of None \<Rightarrow> Returns None | Some c \<Rightarrow> local_at_byte ds (sym_id c) name b) (\<lambda>l.
                  case l of
                    Some s \<Rightarrow> Returns (Some (token_of_symbol s))
                  | None \<Rightarrow>
                      obind (enclosing_symbol_at ds b [Class, Struct, State]) (\<lambda>cls.
                      obind (case cls of None \<Rightarrow> Returns [] | Some c \<Rightarrow> member_of ds (sym_id c) name) (\<lambda>ms.
                        case ms of
                          s # _ \<Rightarrow> Returns (Some (token_of_symbol s))
                        | [] \<Rightarrow> obind (top_level_by_name ds name) (\<lambda>r. Returns (map_option token_of_symbol r)))))))))"

definition classify_ident ::
  "resolver \<Rightarrow> symbol_db \<Rightarrow> parsed_document \<Rightarrow> place \<Rightarrow> classify_cache \<Rightarrow> ((u32 \<times> u32) option \<times> classify_cache) outcome" where
  "classify_ident resolve db doc p cache =
     (case parent_place p of
        None \<Rightarrow> Returns (None, cache)
      | Some up \<Rightarrow>
          (let k = kind_of up; plain = (\<lambda>t. Returns (Some (t, 0), cache))
           in if k \<in> {CLASS_DECL, STRUCT_DECL, STATE_DECL} then plain TT_CLASS
              else if k = ENUM_DECL then plain TT_ENUM
              else if k = ENUM_MEMBER_DECL then plain TT_ENUM_MEMBER
              else if k \<in> {FUNC_DECL, EVENT_DECL} then plain TT_FUNCTION
              else if k = FUNC_PARAM_GROUP then plain TT_PARAMETER
              else if k \<in> {MEMBER_VAR_DECL, AUTOBIND_DECL} then plain TT_PROPERTY
              else if k = LOCAL_VAR_DECL_STMT then plain TT_VARIABLE
              else obind (classify_locally p doc) (\<lambda>l.
                case l of
                  Some t \<Rightarrow> plain t
                | None \<Rightarrow>
                    if is_member_access_rhs p up then
                      Returns (map_option (\<lambda>def. (token_of_symbol (def_symbol def), 0)) (resolve p), cache)
                    else obind (utf8_text (doc_source doc) (here p)) (\<lambda>t.
                      case t of
                        None \<Rightarrow> Returns (None, cache)
                      | Some name \<Rightarrow>
                          obind (enclosing_symbol_at (doc_symbols doc) (from_byte p) [Class, Struct, State]) (\<lambda>cls.
                            let key = (name, map_option sym_id cls)
                            in case hget cache key of
                                 Some cached \<Rightarrow> Returns (cached, cache)
                               | None \<Rightarrow>
                                   (let result = map_option (script_global_override db name) (resolve p)
                                    in Returns (result, hput key result cache)))))))"

definition classify ::
  "resolver \<Rightarrow> symbol_db \<Rightarrow> parsed_document \<Rightarrow> place \<Rightarrow> classify_cache \<Rightarrow> ((u32 \<times> u32) option \<times> classify_cache) outcome" where
  "classify resolve db doc p cache =
     (let k = kind_of p; plain = (\<lambda>t. Returns (Some (t, 0), cache))
      in if k = IDENT then classify_ident resolve db doc p cache
         else if k = ANNOTATION_IDENT then plain TT_DECORATOR
         else if k = COMMENT then plain TT_COMMENT
         else if k = LITERAL_NAME then plain TT_ENUM_MEMBER
         else if k = LITERAL_STRING then plain TT_STRING
         else if k \<in> {LITERAL_INT, LITERAL_FLOAT, LITERAL_HEX} then plain TT_NUMBER
         else if k \<in> {SPECIFIER, FUNC_FLAVOUR, AUTOBIND_SINGLE} then plain TT_MODIFIER
         else if is_named p then Returns (None, cache)
         else Returns (map_option (\<lambda>t. (t, 0)) (classify_anonymous_keyword k), cache))"

subsection \<open>The walk\<close>

definition collector_enter ::
  "resolver \<Rightarrow> symbol_db \<Rightarrow> parsed_document \<Rightarrow> byte_range \<Rightarrow> place \<Rightarrow> token_collector \<Rightarrow> (token_collector \<times> visit) outcome" where
  "collector_enter resolve db doc rng p tc =
     (if to_byte p \<le> br_start rng \<or> br_end rng \<le> from_byte p then Returns (tc, SkipChildren)
      else obind (classify resolve db doc p (tc_cache tc)) (\<lambda>(c, cache).
        let tc = tc\<lparr>tc_cache := cache\<rparr>
        in case c of
             Some (tt, mods) \<Rightarrow>
               obind (byte_range_to_range (doc_line_index doc) (doc_source doc) (from_byte p) (to_byte p)) (\<lambda>r.
                 let a = range_start r; z = range_end r
                 in Returns
                   (if pos_line a = pos_line z \<and> pos_character z > pos_character a then
                      tc\<lparr>tc_tokens := tc_tokens tc @
                        [\<lparr>tok_line = pos_line a, start_char = pos_character a,
                          tok_length = pos_character z - pos_character a, token_type = tt, token_modifiers = mods\<rparr>]\<rparr>
                    else tc,
                    SkipChildren))
           | None \<Rightarrow> Returns (tc, if is_named p then Children else SkipChildren)))"

definition TokenCollector :: "resolver \<Rightarrow> symbol_db \<Rightarrow> parsed_document \<Rightarrow> byte_range \<Rightarrow> token_collector visitor" where
  "TokenCollector resolve db doc rng = \<lparr>enter = collector_enter resolve db doc rng, leave = (\<lambda>_. Returns)\<rparr>"

text \<open>Subtraction of \<open>u32\<close>s that would go below zero is a panic.\<close>

fun encode_from :: "u32 \<Rightarrow> u32 \<Rightarrow> raw_token list \<Rightarrow> u32 list outcome" where
  "encode_from prev_line prev_start [] = Returns []"
| "encode_from prev_line prev_start (t # ts) =
     (if tok_line t < prev_line \<or> (tok_line t = prev_line \<and> start_char t < prev_start) then Panic
      else let delta_line = tok_line t - prev_line;
               delta_start = (if delta_line = 0 then start_char t - prev_start else start_char t)
           in obind (encode_from (tok_line t) (start_char t) ts) (\<lambda>rest.
                Returns ([delta_line, delta_start, tok_length t, token_type t, token_modifiers t] @ rest)))"

definition encode :: "raw_token list \<Rightarrow> u32 list outcome" where
  "encode ts = encode_from 0 0 ts"

text \<open>The \<open>n\<close>-th answer of \<open>should_continue\<close> is \<open>go n\<close>.\<close>

fun collect_children ::
  "token_collector visitor \<Rightarrow> (nat \<Rightarrow> bool) \<Rightarrow> nat \<Rightarrow> place list \<Rightarrow> token_collector \<Rightarrow> token_collector option outcome" where
  "collect_children v go n [] tc = Returns (Some tc)"
| "collect_children v go n (p # ps) tc =
     (if \<not> go n then Returns None
      else obind (walk p v tc) (\<lambda>tc. collect_children v go (Suc n) ps tc))"

definition collect_in_byte_range ::
  "resolver \<Rightarrow> symbol_db \<Rightarrow> parsed_document \<Rightarrow> byte_range \<Rightarrow> (nat \<Rightarrow> bool) \<Rightarrow> u32 list option outcome" where
  "collect_in_byte_range resolve db doc rng go =
     obind (collect_children (TokenCollector resolve db doc rng) go 0 (child_nodes (Place (doc_tree doc) []))
              \<lparr>tc_cache = [], tc_tokens = []\<rparr>) (\<lambda>r.
       case r of
         None \<Rightarrow> Returns None
       | Some tc \<Rightarrow> obind (encode (tc_tokens tc)) (\<lambda>data. Returns (Some data)))"

definition collect_semantic_tokens_cancellable ::
  "resolver \<Rightarrow> symbol_db \<Rightarrow> parsed_document \<Rightarrow> (nat \<Rightarrow> bool) \<Rightarrow> u32 list option outcome" where
  "collect_semantic_tokens_cancellable resolve db doc go =
     collect_in_byte_range resolve db doc \<lparr>br_start = 0, br_end = length (doc_source doc)\<rparr> go"

definition collect_semantic_tokens :: "resolver \<Rightarrow> symbol_db \<Rightarrow> parsed_document \<Rightarrow> u32 list outcome" where
  "collect_semantic_tokens resolve db doc =
     obind (collect_semantic_tokens_cancellable resolve db doc (\<lambda>_. True)) or_panic"

definition collect_semantic_tokens_in_range_cancellable ::
  "resolver \<Rightarrow> symbol_db \<Rightarrow> parsed_document \<Rightarrow> source_range \<Rightarrow> (nat \<Rightarrow> bool) \<Rightarrow> u32 list option outcome" where
  "collect_semantic_tokens_in_range_cancellable resolve db doc r go =
     (let lo = (case position_to_byte (doc_line_index doc) (doc_source doc) (range_start r) of Some b \<Rightarrow> b | None \<Rightarrow> 0);
          hi = (case position_to_byte (doc_line_index doc) (doc_source doc) (range_end r) of
                  Some b \<Rightarrow> b | None \<Rightarrow> length (doc_source doc))
      in collect_in_byte_range resolve db doc \<lparr>br_start = lo, br_end = hi\<rparr> go)"

lemma TokenCollector_sel [simp]:
  "enter (TokenCollector resolve db doc rng) = collector_enter resolve db doc rng"
  "leave (TokenCollector resolve db doc rng) p tc = Returns tc"
  by (simp_all add: TokenCollector_def)

end
