(* ===== verification/Token_Layout.thy ===== *)
theory Token_Layout
  imports Semantic_Tokens
begin

text \<open>
  Where the semantic tokens of a document lie, and that the encoding of \<^verbatim>\<open>src/semantic_tokens/mod.rs\<close>
  loses nothing of them.
\<close>

subsection \<open>Positions grow with offsets\<close>

definition position_le :: "source_position \<Rightarrow> source_position \<Rightarrow> bool" where
  "position_le p q \<longleftrightarrow> pos_line p < pos_line q \<or> pos_line p = pos_line q \<and> pos_character p \<le> pos_character q"

lemma line_of_mono: "a \<le> b \<Longrightarrow> line_of s a \<le> line_of s b"
proof (rule ccontr)
  assume le: "a \<le> b" and "\<not> line_of s a \<le> line_of s b"
  then have less: "Suc (line_of s b) \<le> line_of s a" by simp
  let ?ls = "line_starts (LineIndex_new s)"
  have "b < ?ls ! Suc (line_of s b)" using line_of_next less line_of_bound [of s a] by simp
  also have "?ls ! Suc (line_of s b) \<le> ?ls ! line_of s a"
    using sorted_wrt_nth_less [OF sorted_line_starts, of "Suc (line_of s b)" "line_of s a" s] less line_of_bound [of s a]
    by (cases "Suc (line_of s b) = line_of s a") (auto intro: less_imp_le)
  also have "\<dots> \<le> a" by (rule line_of_start)
  finally show False using le by simp
qed

lemma utf16_count_prefix:
  assumes "utf8_start t" "m \<le> n"
  shows "utf16_count (take m t) \<le> utf16_count (take n t)"
proof -
  have start: "utf8_start (take k t)" for k using assms(1) by (cases t; cases k) (auto simp: utf8_start_def)
  have "take n t = take m t @ take (n - m) (drop m t)" using assms(2) by (metis le_add_diff_inverse take_add)
  then have "map unit_weight (take n t) = map unit_weight (take m t) @ map unit_weight (take (n - m) (drop m t))" by simp
  then show ?thesis unfolding utf16_count_weight [OF start] by simp
qed

lemma byte_to_position_mono:
  assumes "utf8_wf s" "length s < 2 ^ 32" "is_char_boundary s a" "is_char_boundary s b" "a \<le> b"
    "byte_to_position (LineIndex_new s) s a = Returns p" "byte_to_position (LineIndex_new s) s b = Returns q"
  shows "position_le p q"
proof -
  let ?ls = "line_starts (LineIndex_new s)"
  have line: "unat (u32_saturating (line_of s x)) = line_of s x" for x
    using line_of_bound [of s x] line_count_le [of s] assms(2) by (intro u32_saturating_exact) simp
  show ?thesis
  proof (cases "line_of s a = line_of s b")
    case True
    have "utf8_start (drop (?ls ! line_of s b) s)"
      using line_start_boundary [OF assms(1)] line_of_bound [of s b] assms(1) by (intro boundary_drop_start) simp_all
    then have "utf16_count (take (a - ?ls ! line_of s b) (drop (?ls ! line_of s b) s)) \<le>
        utf16_count (take (b - ?ls ! line_of s b) (drop (?ls ! line_of s b) s))"
      using assms(5) by (intro utf16_count_prefix) simp_all
    then show ?thesis
      using assms(6,7) True byte_to_position_value [OF assms(1,3)] byte_to_position_value [OF assms(1,4)]
      by (auto simp: position_le_def SourcePosition_new_def word_le_nat_alt u32_saturating_bound)
  next
    case False
    then have "line_of s a < line_of s b" using line_of_mono [OF assms(5), of s] by simp
    then show ?thesis
      using assms(6,7) byte_to_position_value [OF assms(1,3)] byte_to_position_value [OF assms(1,4)]
      by (auto simp: position_le_def SourcePosition_new_def word_less_nat_alt line)
  qed
qed

subsection \<open>Encoding tokens in order\<close>

text \<open>How a client reads the numbers: five for a token, lines and columns as differences.\<close>

fun decode_from :: "u32 \<Rightarrow> u32 \<Rightarrow> u32 list \<Rightarrow> raw_token list" where
  "decode_from l c (dl # dc # n # t # m # rest) =
     (let l' = l + dl; c' = (if dl = 0 then c else 0) + dc
      in \<lparr>tok_line = l', start_char = c', tok_length = n, token_type = t, token_modifiers = m\<rparr> # decode_from l' c' rest)"
| "decode_from l c _ = []"

definition tok_position :: "raw_token \<Rightarrow> source_position" where
  "tok_position t = \<lparr>pos_line = tok_line t, pos_character = start_char t\<rparr>"

fun in_order :: "source_position \<Rightarrow> raw_token list \<Rightarrow> bool" where
  "in_order p [] \<longleftrightarrow> True"
| "in_order p (t # ts) \<longleftrightarrow> position_le p (tok_position t) \<and> in_order (tok_position t) ts"

lemma encode_in_order:
  "in_order p ts \<Longrightarrow> \<exists>data. encode_from (pos_line p) (pos_character p) ts = Returns data \<and> length data = 5 * length ts \<and>
     decode_from (pos_line p) (pos_character p) data = ts"
proof (induction ts arbitrary: p)
  case (Cons t ts)
  then obtain data where data: "encode_from (tok_line t) (start_char t) ts = Returns data" "length data = 5 * length ts"
    "decode_from (tok_line t) (start_char t) data = ts"
    using Cons.IH [of "tok_position t"] by (auto simp: tok_position_def)
  have le: "pos_line p < tok_line t \<or> pos_line p = tok_line t \<and> pos_character p \<le> start_char t"
    using Cons.prems by (simp add: position_le_def tok_position_def)
  have no_panic: "(tok_line t < pos_line p \<or> tok_line t = pos_line p \<and> start_char t < pos_character p) = False"
    using le by (metis less_asym less_irrefl leD)
  define dl where "dl = tok_line t - pos_line p"
  define dc where "dc = (if dl = 0 then start_char t - pos_character p else start_char t)"
  have "encode_from (pos_line p) (pos_character p) (t # ts) =
      Returns ([dl, dc, tok_length t, token_type t, token_modifiers t] @ data)"
    by (simp only: encode_from.simps no_panic if_False Let_def data(1) obind.simps dl_def [symmetric] dc_def [symmetric])
  moreover have "pos_line p + dl = tok_line t" "(if dl = 0 then pos_character p else 0) + dc = start_char t"
    by (simp_all add: dl_def dc_def)
  then have "decode_from (pos_line p) (pos_character p) ([dl, dc, tok_length t, token_type t, token_modifiers t] @ data) = t # ts"
    using data(3) by (simp add: Let_def)
  ultimately show ?case using data(2) by (intro exI [of _ "[dl, dc, tok_length t, token_type t, token_modifiers t] @ data"]) simp
qed simp

text \<open>Tokens that lie one after the other on the text between two offsets, each on one line.\<close>

fun laid :: "string \<Rightarrow> nat \<Rightarrow> nat \<Rightarrow> raw_token list \<Rightarrow> bool" where
  "laid s a b [] \<longleftrightarrow> a \<le> b"
| "laid s a b (t # ts) \<longleftrightarrow> (\<exists>x y. a \<le> x \<and> x < y \<and> is_char_boundary s x \<and> is_char_boundary s y \<and> 0 < tok_length t \<and>
     byte_to_position (LineIndex_new s) s x = Returns (tok_position t) \<and>
     byte_to_position (LineIndex_new s) s y =
       Returns \<lparr>pos_line = tok_line t, pos_character = start_char t + tok_length t\<rparr> \<and> laid s y b ts)"

lemma laid_le: "laid s a b ts \<Longrightarrow> a \<le> b"
proof (induction ts arbitrary: a)
  case (Cons t ts)
  then obtain x y where "a \<le> x" "x < y" "laid s y b ts" by auto
  with Cons.IH [of y] show ?case by simp
qed simp

lemma laid_weaken: "laid s a b ts \<Longrightarrow> a' \<le> a \<Longrightarrow> b \<le> b' \<Longrightarrow> laid s a' b' ts"
  by (induction ts arbitrary: a a') (auto, blast intro: order_trans)

lemma laid_append: "laid s a b ts \<Longrightarrow> laid s b c us \<Longrightarrow> laid s a c (ts @ us)"
proof (induction ts arbitrary: a)
  case Nil
  then show ?case by (auto intro: laid_weaken)
qed auto

lemma laid_in_order:
  assumes "utf8_wf s" "length s < 2 ^ 32"
  shows "laid s a b ts \<Longrightarrow> is_char_boundary s x \<Longrightarrow> x \<le> a \<Longrightarrow> byte_to_position (LineIndex_new s) s x = Returns p \<Longrightarrow> in_order p ts"
proof (induction ts arbitrary: a x p)
  case (Cons t ts)
  then obtain x' y where t: "a \<le> x'" "x' < y" "is_char_boundary s x'" "byte_to_position (LineIndex_new s) s x' = Returns (tok_position t)"
    "laid s y b ts" by auto
  have "position_le p (tok_position t)"
    using byte_to_position_mono [OF assms Cons.prems(2) t(3) _ Cons.prems(4) t(4)] Cons.prems(3) t(1) by simp
  moreover have "in_order (tok_position t) ts" using Cons.IH [OF t(5,3) _ t(4)] t(2) by simp
  ultimately show ?case by simp
qed simp

lemma position_of_start:
  assumes "utf8_wf s"
  shows "byte_to_position (LineIndex_new s) s 0 = Returns \<lparr>pos_line = 0, pos_character = 0\<rparr>"
proof -
  let ?ls = "line_starts (LineIndex_new s)"
  have "line_of s 0 = 0"
  proof (rule ccontr)
    assume "line_of s 0 \<noteq> 0"
    then have "?ls ! 0 < ?ls ! line_of s 0"
      using sorted_wrt_nth_less [OF sorted_line_starts, of 0 "line_of s 0" s] line_of_bound [of s 0] by simp
    then show False using line_of_start [of s 0] by simp
  qed
  then show ?thesis
    using byte_to_position_value [OF assms, of 0]
    by (simp add: SourcePosition_new_def u32_saturating_def utf16_count_def)
qed

subsection \<open>The walk returns\<close>

definition lookups_return :: "document_symbols \<Rightarrow> bool" where
  "lookups_return ds \<longleftrightarrow>
     (\<forall>b ks. returning (enclosing_symbol_at ds b ks)) \<and> (\<forall>f n b. returning (local_at_byte ds f n b)) \<and>
     (\<forall>c n. returning (member_of ds c n)) \<and> (\<forall>n. returning (top_level_by_name ds n))"

lemma built_lookups_return:
  assumes ok: "table_ok syms" and built: "build_indexes (unindexed syms) = Returns ds"
  shows "lookups_return ds"
proof -
  obtain ds' where ds: "build_indexes (unindexed syms) = Returns ds'" "symbols ds' = syms"
    "by_start_byte ds' = sort_key (\<lambda>i. br_start (sym_byte_range (syms ! i))) [0..<length syms]"
    "\<And>n. bucket (ds_top_level_by_name ds') n = map sym_id (filter (\<lambda>s. is_top_level s \<and> type_name s = n) syms)"
    "\<And>c n. nested_bucket (members_by_container ds') (c, n) = map sym_id (filter (\<lambda>s. container s = Some c \<and> sym_name s = n) syms)"
    "locals_in_function ds' = sorted_locals syms (locals_raw syms)"
    by (rule build_indexes_value [OF ok]) (rule that; assumption)
  have [simp]: "ds' = ds" using built ds(1) by simp
  have "returning (enclosing_symbol_at ds b ks)" for b ks
    using enclosing_symbol_at_chain [OF ok ds(2,3), of b ks] by (metis \<open>ds' = ds\<close> returning_Returns)
  moreover have "returning (local_at_byte ds f n b)" for f n b
    using local_at_byte_value [OF ok ds(2,6), of f n b] by (metis \<open>ds' = ds\<close> returning_Returns)
  moreover have "returning (member_of ds c n)" for c n
    using ids_value [OF ok, of "filter (\<lambda>s. container s = Some c \<and> sym_name s = n) syms"] ds(2,5) by (simp add: member_of_def)
  moreover have "returning (top_level_by_name ds n)" for n
    using prefer_non_state_value [OF ok, of "filter (\<lambda>s. is_top_level s \<and> type_name s = n) syms"] ds(2,4)
    by (simp add: top_level_by_name_bucket)
  ultimately show ?thesis by (simp add: lookups_return_def)
qed

lemma text_returning: "node_in source p \<Longrightarrow> returning (utf8_text source (here p))"
  by (auto simp: utf8_text_def node_in_def Let_def dest: boundary_le)

lemma classify_returning:
  assumes "node_in (doc_source doc) p" "lookups_return (doc_symbols doc)"
  shows "returning (classify resolve db doc p cache)"
proof -
  note lookups = assms(2) [unfolded lookups_return_def]
  have "returning (classify_locally p doc)"
    unfolding classify_locally_def Let_def
    using lookups text_returning [OF assms(1)]
    by (auto intro!: returning_obind split: option.split list.split)
  then have "returning (classify_ident resolve db doc p cache)"
    unfolding classify_ident_def Let_def
    using lookups text_returning [OF assms(1)]
    by (auto intro!: returning_obind split: option.split)
  then show ?thesis by (auto simp: classify_def Let_def)
qed

subsection \<open>The tokens of a node lie inside it\<close>

text \<open>The children of a node come in the order of the text.\<close>

definition children_ordered :: "place \<Rightarrow> bool" where
  "children_ordered p \<longleftrightarrow> (\<forall>q \<in> set (subplaces p). sorted_wrt (\<lambda>c d. to_byte c \<le> from_byte d) (child_nodes q))"

lemma children_ordered_child: "children_ordered p \<Longrightarrow> q \<in> set (child_nodes p) \<Longrightarrow> children_ordered q"
  by (auto simp: children_ordered_def subplaces.simps [of p])

definition adds_tokens :: "string \<Rightarrow> nat \<Rightarrow> nat \<Rightarrow> token_collector \<Rightarrow> token_collector \<Rightarrow> bool" where
  "adds_tokens s a b tc tc' \<longleftrightarrow> (\<exists>us. tc_tokens tc' = tc_tokens tc @ us \<and> laid s a b us)"

lemma adds_trans: "adds_tokens s a b tc tc1 \<Longrightarrow> adds_tokens s b c tc1 tc2 \<Longrightarrow> adds_tokens s a c tc tc2"
  by (auto simp: adds_tokens_def intro: laid_append)

lemma adds_weaken: "adds_tokens s a b tc tc' \<Longrightarrow> a' \<le> a \<Longrightarrow> b \<le> b' \<Longrightarrow> adds_tokens s a' b' tc tc'"
  by (auto simp: adds_tokens_def intro: laid_weaken)

lemma enter_adds:
  assumes doc: "doc_line_index doc = LineIndex_new (doc_source doc)" "utf8_wf (doc_source doc)" "lookups_return (doc_symbols doc)"
    and p: "node_in (doc_source doc) p"
  shows "\<exists>tc' w. collector_enter resolve db doc rng p tc = Returns (tc', w) \<and>
    adds_tokens (doc_source doc) (from_byte p) (to_byte p) tc tc' \<and> (w = Children \<longrightarrow> tc_tokens tc' = tc_tokens tc)"
proof -
  let ?s = "doc_source doc"
  have le: "from_byte p \<le> to_byte p" "is_char_boundary ?s (from_byte p)" "is_char_boundary ?s (to_byte p)"
    using p by (simp_all add: node_in_def)
  obtain c cache where c: "classify resolve db doc p (tc_cache tc) = Returns (c, cache)"
    using classify_returning [OF p doc(3), of resolve db "tc_cache tc"] by (auto simp: returning_def)
  obtain a z where r: "byte_to_position (LineIndex_new ?s) ?s (from_byte p) = Returns a"
    "byte_to_position (LineIndex_new ?s) ?s (to_byte p) = Returns z"
    using byte_to_position_value [OF doc(2)] le by simp
  have same: "pos_character z > pos_character a \<Longrightarrow> from_byte p \<noteq> to_byte p" using r by auto
  have "laid ?s (from_byte p) (to_byte p) [\<lparr>tok_line = pos_line a, start_char = pos_character a,
      tok_length = pos_character z - pos_character a, token_type = tt, token_modifiers = mods\<rparr>]"
    if "pos_line a = pos_line z" "pos_character z > pos_character a" for tt mods
    unfolding laid.simps
    by (rule exI [of _ "from_byte p"], rule exI [of _ "to_byte p"])
      (use le r that same [OF that(2)] in \<open>auto simp: tok_position_def word_gt_0\<close>)
  then show ?thesis
    using le by (auto simp: collector_enter_def c doc(1) byte_range_to_range_def r Let_def adds_tokens_def split: option.split)
qed

lemma visit_list_adds:
  assumes "\<And>q tc. q \<in> set qs \<Longrightarrow> \<exists>tc'. visit_node v q tc = Returns tc' \<and> adds_tokens s (from_byte q) (to_byte q) tc tc'"
    and "sorted_wrt (\<lambda>c d. to_byte c \<le> from_byte d) qs" "\<And>q. q \<in> set qs \<Longrightarrow> a \<le> from_byte q \<and> from_byte q \<le> to_byte q \<and> to_byte q \<le> b" "a \<le> b"
  shows "\<exists>tc'. visit_nodes v qs tc = Returns tc' \<and> adds_tokens s a b tc tc'"
  using assms
proof (induction qs arbitrary: a tc)
  case Nil
  then show ?case by (simp add: adds_tokens_def)
next
  case (Cons q qs)
  then obtain tc1 where tc1: "visit_node v q tc = Returns tc1" "adds_tokens s (from_byte q) (to_byte q) tc tc1" by force
  have "\<exists>tc'. visit_nodes v qs tc1 = Returns tc' \<and> adds_tokens s (to_byte q) b tc1 tc'"
    using Cons.prems by (intro Cons.IH) auto
  then obtain tc' where "visit_nodes v qs tc1 = Returns tc'" "adds_tokens s (to_byte q) b tc1 tc'" by blast
  moreover have "adds_tokens s a (to_byte q) tc tc1" using adds_weaken [OF tc1(2)] Cons.prems(3) by simp
  ultimately show ?case using tc1(1) by (auto intro: adds_trans)
qed

lemma visit_adds:
  assumes doc: "doc_line_index doc = LineIndex_new (doc_source doc)" "utf8_wf (doc_source doc)" "lookups_return (doc_symbols doc)"
  shows "tree_in (doc_source doc) p \<Longrightarrow> children_ordered p \<Longrightarrow>
    \<exists>tc'. visit_node (TokenCollector resolve db doc rng) p tc = Returns tc' \<and>
      adds_tokens (doc_source doc) (from_byte p) (to_byte p) tc tc'"
proof (induction "size (here p)" arbitrary: p tc rule: less_induct)
  case less
  let ?v = "TokenCollector resolve db doc rng"
  note node = tree_in_node [OF less.prems(1)]
  obtain tc1 w where e: "collector_enter resolve db doc rng p tc = Returns (tc1, w)"
    "adds_tokens (doc_source doc) (from_byte p) (to_byte p) tc tc1" "w = Children \<Longrightarrow> tc_tokens tc1 = tc_tokens tc"
    using enter_adds [OF doc node] by blast
  have "\<exists>tc'. visit_nodes ?v (child_nodes p) tc1 = Returns tc' \<and> adds_tokens (doc_source doc) (from_byte p) (to_byte p) tc1 tc'"
  proof (rule visit_list_adds)
    show "\<exists>tc'. visit_node ?v q tc = Returns tc' \<and> adds_tokens (doc_source doc) (from_byte q) (to_byte q) tc tc'"
      if "q \<in> set (child_nodes p)" for q tc
      using less.hyps [OF child_size [OF that]] tree_in_child [OF less.prems(1) that] children_ordered_child [OF less.prems(2) that]
      by blast
    show "sorted_wrt (\<lambda>c d. to_byte c \<le> from_byte d) (child_nodes p)"
      using less.prems(2) by (simp add: children_ordered_def)
    show "from_byte p \<le> from_byte q \<and> from_byte q \<le> to_byte q \<and> to_byte q \<le> to_byte p" if "q \<in> set (child_nodes p)" for q
      using tree_in_encloses [OF less.prems(1) that] tree_in_node [OF tree_in_child [OF less.prems(1) that]]
      by (simp add: encloses_def place_range_def node_in_def)
    show "from_byte p \<le> to_byte p" using node by (simp add: node_in_def)
  qed
  then show ?case
    using e by (cases w) (auto simp: visit_node.simps [of ?v p] adds_tokens_def)
qed

lemma collect_adds:
  assumes doc: "doc_line_index doc = LineIndex_new (doc_source doc)" "utf8_wf (doc_source doc)" "lookups_return (doc_symbols doc)"
  shows "(\<And>q. q \<in> set qs \<Longrightarrow> tree_in (doc_source doc) q \<and> children_ordered q) \<Longrightarrow> \<forall>n. go n \<Longrightarrow>
    \<exists>tc'. collect_children (TokenCollector resolve db doc rng) go n qs tc = Returns (Some tc') \<and>
      visit_nodes (TokenCollector resolve db doc rng) qs tc = Returns tc'"
proof (induction qs arbitrary: n tc)
  case (Cons q qs)
  obtain tc1 where "visit_node (TokenCollector resolve db doc rng) q tc = Returns tc1"
    using visit_adds [OF doc] Cons.prems(1) [of q] by (metis list.set_intros(1))
  with Cons.IH [of "Suc n" tc1] Cons.prems show ?case by (simp add: walk_is_visit)
qed simp

lemma tokens_laid:
  assumes doc: "doc_line_index doc = LineIndex_new (doc_source doc)" "lookups_return (doc_symbols doc)"
    and tree: "tree_in (doc_source doc) (Place (doc_tree doc) [])" "children_ordered (Place (doc_tree doc) [])"
    and small: "length (doc_source doc) < 2 ^ 32"
  shows "\<exists>data ts. collect_in_byte_range resolve db doc rng (\<lambda>_. True) = Returns (Some data) \<and> length data = 5 * length ts \<and>
    decode_from 0 0 data = ts \<and> laid (doc_source doc) 0 (length (doc_source doc)) ts"
proof -
  let ?root = "Place (doc_tree doc) []" and ?s = "doc_source doc" and ?v = "TokenCollector resolve db doc rng"
  let ?start = "\<lparr>tc_cache = [], tc_tokens = []\<rparr>"
  have wf: "utf8_wf ?s" using tree(1) by (simp add: tree_in_def)
  have child: "tree_in ?s q \<and> children_ordered q" if "q \<in> set (child_nodes ?root)" for q
    using tree_in_child [OF tree(1) that] children_ordered_child [OF tree(2) that] by simp
  have inside: "q \<in> set (child_nodes ?root) \<Longrightarrow> from_byte q \<le> to_byte q \<and> to_byte q \<le> length ?s" for q
    using child [of q] tree_in_node [of ?s q] by (auto simp: node_in_def boundary_le)
  have "\<exists>tc'. visit_nodes ?v (child_nodes ?root) ?start = Returns tc' \<and> adds_tokens ?s 0 (length ?s) ?start tc'"
    using visit_list_adds [of "child_nodes ?root" ?v ?s 0 "length ?s"] visit_adds [OF doc(1) wf doc(2)] child inside tree(2)
    by (auto simp: children_ordered_def)
  then obtain tc where tc: "visit_nodes ?v (child_nodes ?root) ?start = Returns tc" "laid ?s 0 (length ?s) (tc_tokens tc)"
    by (auto simp: adds_tokens_def)
  have "in_order \<lparr>pos_line = 0, pos_character = 0\<rparr> (tc_tokens tc)"
    using laid_in_order [OF wf small tc(2), of 0] position_of_start [OF wf] by simp
  then obtain data where "encode (tc_tokens tc) = Returns data" "length data = 5 * length (tc_tokens tc)" "decode_from 0 0 data = tc_tokens tc"
    using encode_in_order by (fastforce simp: encode_def)
  moreover have "collect_children ?v (\<lambda>_. True) 0 (child_nodes ?root) ?start = Returns (Some tc)"
    using collect_adds [OF doc(1) wf doc(2), of "child_nodes ?root" "\<lambda>_. True" resolve db rng 0 ?start] child tc(1) by auto
  ultimately show ?thesis using tc(2) by (simp add: collect_in_byte_range_def)
qed

subsection \<open>Properties\<close>

text \<open>
  C9: the tokens of a parsed document are collected and encoded without a panic, and what a client
  decodes from the numbers are tokens that lie on the text one after the other: each starts and ends
  at characters of the document on one line, is not empty, and ends before the next begins.  The
  source has fewer than \<open>2 ^ 32\<close> bytes and the children of a node come in the order of the text.
\<close>

theorem semantic_tokens_laid:
  assumes tree: "parse source prior = Some tree" "tree_in source (Place tree [])" "hex_spelled source (Place tree [])"
      "children_ordered (Place tree [])"
    and small: "length source < 2 ^ 32"
  shows "\<exists>doc data ts. parse_document_with_prior parse source prior n = Returns (Inr doc, n + 1) \<and>
    collect_semantic_tokens resolve db doc = Returns data \<and> length data = 5 * length ts \<and>
    decode_from 0 0 data = ts \<and> laid source 0 (length source) ts"
proof -
  obtain doc where doc: "parse_document_with_prior parse source prior n = Returns (Inr doc, n + 1)" "doc_source doc = source"
    "doc_tree doc = tree" "doc_line_index doc = LineIndex_new source"
    "extract_symbols (Place tree []) source (LineIndex_new source) = Returns (doc_symbols doc)"
    using parse_two_passes [of parse source prior n] tree by auto
  have "lookups_return (doc_symbols doc)"
    using extraction_returns [OF tree(2)] doc(5) built_lookups_return [of "symbols (doc_symbols doc)" "doc_symbols doc"]
    by (auto simp: syms_ok_def)
  then obtain data ts where "collect_semantic_tokens_cancellable resolve db doc (\<lambda>_. True) = Returns (Some data)"
    "length data = 5 * length ts" "decode_from 0 0 data = ts" "laid source 0 (length source) ts"
    using tokens_laid [of doc resolve db "\<lparr>br_start = 0, br_end = length source\<rparr>"] doc tree small
    by (auto simp: collect_semantic_tokens_cancellable_def)
  with doc(1) show ?thesis by (auto simp: collect_semantic_tokens_def)
qed

theorem semantic_tokens_laid_witness:
  "\<exists>doc data ts. parse_document_with_prior (\<lambda>_ _. Some sample_class_tree) ''class A{}'' None 7 = Returns (Inr doc, 8) \<and>
     collect_semantic_tokens (\<lambda>_. None) (SymbolDb_new WorkspaceIndex_default WorkspaceIndex_default) doc = Returns data \<and>
     decode_from 0 0 data = ts \<and> laid ''class A{}'' 0 (length ''class A{}'') ts"
proof -
  have "hex_spelled ''class A{}'' (Place sample_class_tree [])"
    unfolding hex_spelled_def sample_class_places
    by (simp add: sample_class_tree_def sample_node_def sample_info_def kind_names)
  moreover have "children_ordered (Place sample_class_tree [])"
    unfolding children_ordered_def sample_class_places
    by (simp add: sample_class_tree_def sample_children)
  ultimately show ?thesis
    using semantic_tokens_laid [of "\<lambda>_ _. Some sample_class_tree" "''class A{}''" None sample_class_tree 7
        "\<lambda>_. None" "SymbolDb_new WorkspaceIndex_default WorkspaceIndex_default"] sample_class_in
    by auto
qed

end
