(* ===== verification/Token_Requests.thy ===== *)
theory Token_Requests
  imports Semantic_Tokens Edit_Queue Edit_Plan
begin

text \<open>
  \<^verbatim>\<open>src/bin/witcherscript-lsp/semantic_tokens_cache.rs\<close> and \<^verbatim>\<open>queries/semantic_tokens.rs\<close> (with the
  database handles of \<^verbatim>\<open>backend.rs\<close>): the requests for semantic tokens, answered whole or as an edit of
  what was sent before.
\<close>

subsection \<open>Edits of token data\<close>

record semantic_token =
  delta_line :: u32
  delta_start :: u32
  st_length :: u32
  st_token_type :: u32
  token_modifiers_bitset :: u32

record semantic_tokens_edit =
  ed_start :: u32
  delete_count :: u32
  ed_data :: "semantic_token list option"

fun semantic_token_structs :: "u32 list \<Rightarrow> semantic_token list" where
  "semantic_token_structs (a # b # c # d # e # rest) =
     \<lparr>delta_line = a, delta_start = b, st_length = c, st_token_type = d, token_modifiers_bitset = e\<rparr> #
       semantic_token_structs rest"
| "semantic_token_structs _ = []"

text \<open>\<open>chunks_exact(5)\<close>; \<open>rev\<close> runs over the same chunks backwards.\<close>

fun chunks_exact5 :: "u32 list \<Rightarrow> u32 list list" where
  "chunks_exact5 (a # b # c # d # e # rest) = [a, b, c, d, e] # chunks_exact5 rest"
| "chunks_exact5 _ = []"

definition wire_u32 :: "nat \<Rightarrow> u32" where
  "wire_u32 n = u32_saturating n"

definition common_prefix :: "'a list \<Rightarrow> 'a list \<Rightarrow> nat" where
  "common_prefix xs ys = length (takeWhile (\<lambda>(a, b). a = b) (zip xs ys))"

text \<open>Neither the subtractions nor the slice of \<open>current\<close> can fail: the common prefix and suffix do not
  overlap (lemma \<open>affixes_fit\<close>).\<close>

definition semantic_token_edits :: "u32 list \<Rightarrow> u32 list \<Rightarrow> semantic_tokens_edit list" where
  "semantic_token_edits previous current =
     (let previous_tokens = length previous div 5;
          current_tokens = length current div 5;
          prev_chunks = chunks_exact5 previous;
          cur_chunks = chunks_exact5 current;
          pre = common_prefix prev_chunks cur_chunks;
          max_suffix = min previous_tokens current_tokens - pre;
          suf = length (takeWhile (\<lambda>(a, b). a = b) (take max_suffix (zip (rev prev_chunks) (rev cur_chunks))))
      in if previous_tokens = current_tokens \<and> pre = previous_tokens then []
         else let inserted = drop (pre * 5) (take (length current - suf * 5) current)
              in [\<lparr>ed_start = wire_u32 (pre * 5), delete_count = wire_u32 ((previous_tokens - pre - suf) * 5),
                   ed_data = Some (semantic_token_structs inserted)\<rparr>])"

subsection \<open>The database of a document\<close>

record db_handles =
  dh_workspace :: workspace_index
  dh_base :: workspace_index
  dh_script_env :: script_environment
  dh_builtins :: workspace_index
  dh_suppressed_base_uris :: "string list"
  dh_filtered_base_catalogs :: "filtered_base_catalogs option"

definition build_symbol_db ::
  "workspace_index \<Rightarrow> workspace_index \<Rightarrow> script_environment \<Rightarrow> workspace_index \<Rightarrow> string list \<Rightarrow>
   filtered_base_catalogs option \<Rightarrow> symbol_db" where
  "build_symbol_db ws bs env builtin_idx suppressed filtered =
     (SymbolDb_new ws bs)\<lparr>suppressed_base_uris := Some suppressed, script_env := Some env, builtins := Some builtin_idx,
       prefiltered_base := filtered\<rparr>"

definition handles_db :: "db_handles \<Rightarrow> symbol_db" where
  "handles_db h =
     build_symbol_db (dh_workspace h) (dh_base h) (dh_script_env h) (dh_builtins h) (dh_suppressed_base_uris h)
       (dh_filtered_base_catalogs h)"

definition db_handles_for_with_snapshot :: "platform \<Rightarrow> url \<Rightarrow> compilation \<Rightarrow> backend \<Rightarrow> db_handles" where
  "db_handles_for_with_snapshot pf uri snap be =
     \<lparr>dh_workspace = (if is_loose (file_scope_of pf uri be) then loose_index snap else workspace_index snap),
      dh_base = base_scripts_index snap, dh_script_env = c_script_env snap, dh_builtins = be_builtins_index be,
      dh_suppressed_base_uris = c_suppressed_base_uris snap,
      dh_filtered_base_catalogs = c_filtered_base_catalogs snap\<rparr>"

subsection \<open>The requests\<close>

datatype response_error = ContentModified string

record semantic_tokens_result =
  sr_result_id :: "string option"
  sr_data :: "semantic_token list"

datatype semantic_tokens_full_delta_result =
    Tokens semantic_tokens_result
  | TokensDelta "string option" "semantic_tokens_edit list"

text \<open>\<open>resolver_of\<close> is the resolution of identifiers on a database; \<open>go\<close> says whether the state version is
  still the one at the start when it is asked for the \<open>n\<close>-th time.\<close>

definition computed_semantic_tokens ::
  "platform \<Rightarrow> (symbol_db \<Rightarrow> parsed_document \<Rightarrow> resolver) \<Rightarrow> (nat \<Rightarrow> bool) \<Rightarrow> url \<Rightarrow> source_range option \<Rightarrow> backend \<Rightarrow>
   (response_error + u32 list option) outcome" where
  "computed_semantic_tokens pf resolver_of go uri rng be =
     (let snap = be_compilation be
      in case hget (c_documents snap) uri of
           None \<Rightarrow> Returns (Inr None)
         | Some doc \<Rightarrow>
             (let target = (case pending_target_for uri be of Some v \<Rightarrow> v | None \<Rightarrow> 0)
              in if target > parse_version doc then
                   Returns (Inl (ContentModified ''document edited while computing semantic tokens''))
                 else let db = handles_db (db_handles_for_with_snapshot pf uri snap be); resolve = resolver_of db doc
                      in obind (case rng of
                                  Some r \<Rightarrow> collect_semantic_tokens_in_range_cancellable resolve db doc r go
                                | None \<Rightarrow> collect_semantic_tokens_cancellable resolve db doc go) (\<lambda>data.
                           case data of
                             None \<Rightarrow> Returns (Inl (ContentModified ''document changed while computing semantic tokens''))
                           | Some data \<Rightarrow> Returns (Inr (Some data)))))"

definition next_semantic_tokens_result_id :: "backend \<Rightarrow> string \<times> backend" where
  "next_semantic_tokens_result_id be =
     (decimal (unat (semantic_tokens_result_id be)),
      be\<lparr>semantic_tokens_result_id := semantic_tokens_result_id be + 1\<rparr>)"

definition semantic_tokens_full ::
  "platform \<Rightarrow> (symbol_db \<Rightarrow> parsed_document \<Rightarrow> resolver) \<Rightarrow> (nat \<Rightarrow> bool) \<Rightarrow> url \<Rightarrow> backend \<Rightarrow>
   ((response_error + semantic_tokens_result option) \<times> backend) outcome" where
  "semantic_tokens_full pf resolver_of go uri be =
     obind (computed_semantic_tokens pf resolver_of go uri None be) (\<lambda>r.
       case r of
         Inl e \<Rightarrow> Returns (Inl e, be)
       | Inr None \<Rightarrow> Returns (Inr None, be)
       | Inr (Some data) \<Rightarrow>
           (let (rid, be) = next_semantic_tokens_result_id be
            in Returns (Inr (Some \<lparr>sr_result_id = Some rid, sr_data = semantic_token_structs data\<rparr>),
                 be\<lparr>semantic_tokens_cache := hput uri \<lparr>result_id = rid, token_data = data\<rparr> (semantic_tokens_cache be)\<rparr>)))"

definition semantic_tokens_full_delta ::
  "platform \<Rightarrow> (symbol_db \<Rightarrow> parsed_document \<Rightarrow> resolver) \<Rightarrow> (nat \<Rightarrow> bool) \<Rightarrow> url \<Rightarrow> string \<Rightarrow> backend \<Rightarrow>
   ((response_error + semantic_tokens_full_delta_result option) \<times> backend) outcome" where
  "semantic_tokens_full_delta pf resolver_of go uri previous_result_id be =
     obind (computed_semantic_tokens pf resolver_of go uri None be) (\<lambda>r.
       case r of
         Inl e \<Rightarrow> Returns (Inl e, be)
       | Inr None \<Rightarrow> Returns (Inr None, be)
       | Inr (Some data) \<Rightarrow>
           (let (rid, be) = next_semantic_tokens_result_id be;
                full = Tokens \<lparr>sr_result_id = Some rid, sr_data = semantic_token_structs data\<rparr>;
                response =
                  (case hget (semantic_tokens_cache be) uri of
                     Some previous \<Rightarrow>
                       if result_id previous = previous_result_id
                       then TokensDelta (Some rid) (semantic_token_edits (token_data previous) data) else full
                   | None \<Rightarrow> full)
            in Returns (Inr (Some response),
                 be\<lparr>semantic_tokens_cache := hput uri \<lparr>result_id = rid, token_data = data\<rparr> (semantic_tokens_cache be)\<rparr>)))"

definition semantic_tokens_range ::
  "platform \<Rightarrow> (symbol_db \<Rightarrow> parsed_document \<Rightarrow> resolver) \<Rightarrow> (nat \<Rightarrow> bool) \<Rightarrow> url \<Rightarrow> source_range \<Rightarrow> backend \<Rightarrow>
   (response_error + semantic_tokens_result option) outcome" where
  "semantic_tokens_range pf resolver_of go uri rng be =
     obind (computed_semantic_tokens pf resolver_of go uri (Some rng) be) (\<lambda>r.
       case r of
         Inl e \<Rightarrow> Returns (Inl e)
       | Inr None \<Rightarrow> Returns (Inr None)
       | Inr (Some data) \<Rightarrow> Returns (Inr (Some \<lparr>sr_result_id = None, sr_data = semantic_token_structs data\<rparr>)))"

subsection \<open>Edits undo the difference\<close>

text \<open>What a client does with an answer.\<close>

definition token_numbers :: "semantic_token \<Rightarrow> u32 list" where
  "token_numbers t = [delta_line t, delta_start t, st_length t, st_token_type t, token_modifiers_bitset t]"

definition apply_token_edit :: "u32 list \<Rightarrow> semantic_tokens_edit \<Rightarrow> u32 list" where
  "apply_token_edit xs e =
     take (unat (ed_start e)) xs @ concat (map token_numbers (case ed_data e of None \<Rightarrow> [] | Some ts \<Rightarrow> ts)) @
       drop (unat (ed_start e) + unat (delete_count e)) xs"

fun client_tokens :: "u32 list \<Rightarrow> semantic_tokens_full_delta_result \<Rightarrow> string option \<times> u32 list" where
  "client_tokens held (Tokens r) = (sr_result_id r, concat (map token_numbers (sr_data r)))"
| "client_tokens held (TokensDelta rid es) = (rid, foldl apply_token_edit held es)"

lemma numbers_structs: "concat (map token_numbers (semantic_token_structs xs)) = concat (chunks_exact5 xs)"
  by (induction xs rule: semantic_token_structs.induct) (simp_all add: token_numbers_def)

lemma chunks_concat: "length xs mod 5 = 0 \<Longrightarrow> concat (chunks_exact5 xs) = xs"
  by (induction xs rule: chunks_exact5.induct) auto

lemma length_chunks: "length (chunks_exact5 xs) = length xs div 5"
  by (induction xs rule: chunks_exact5.induct) auto

lemma chunks_size: "c \<in> set (chunks_exact5 xs) \<Longrightarrow> length c = 5"
  by (induction xs rule: chunks_exact5.induct) auto

lemma concat_take: "(\<And>c. c \<in> set cs \<Longrightarrow> length c = k) \<Longrightarrow> concat (take n cs) = take (n * k) (concat cs)"
  by (induction cs arbitrary: n) (auto simp: take_Cons' algebra_simps split: nat_diff_split)

lemma concat_drop: "(\<And>c. c \<in> set cs \<Longrightarrow> length c = k) \<Longrightarrow> concat (drop n cs) = drop (n * k) (concat cs)"
  by (induction cs arbitrary: n) (auto simp: drop_Cons' algebra_simps split: nat_diff_split)

lemma takeWhile_zip_take:
  "n \<le> length (takeWhile (\<lambda>(a, b). a = b) (zip xs ys)) \<Longrightarrow> take n xs = take n ys"
proof (induction xs arbitrary: ys n)
  case (Cons x xs)
  then show ?case by (cases ys; cases n) (auto split: if_splits)
qed simp

lemma common_prefix_le: "common_prefix xs ys \<le> min (length xs) (length ys)"
  unfolding common_prefix_def by (metis length_takeWhile_le length_zip)

definition common_suffix :: "nat \<Rightarrow> 'a list \<Rightarrow> 'a list \<Rightarrow> nat" where
  "common_suffix n xs ys = length (takeWhile (\<lambda>(a, b). a = b) (take n (zip (rev xs) (rev ys))))"

lemma affixes_fit: "n \<le> min (length xs) (length ys) \<Longrightarrow> common_suffix n xs ys \<le> n"
  unfolding common_suffix_def by (metis length_take length_takeWhile_le min.bounded_iff)

lemma takeWhile_take_le: "length (takeWhile P (take n zs)) \<le> length (takeWhile P zs)"
  by (induction zs arbitrary: n) (auto simp: take_Cons')

lemma common_suffix_drop:
  assumes "k = common_suffix n xs ys" "k \<le> length xs" "k \<le> length ys"
  shows "drop (length xs - k) xs = drop (length ys - k) ys"
proof -
  have "k \<le> length (takeWhile (\<lambda>(a, b). a = b) (zip (rev xs) (rev ys)))"
    unfolding assms(1) common_suffix_def by (rule takeWhile_take_le)
  then have "take k (rev xs) = take k (rev ys)" by (rule takeWhile_zip_take)
  then show ?thesis by (simp add: take_rev)
qed

lemma edited_chunks:
  fixes xs ys :: "'a list"
  defines "pre \<equiv> common_prefix xs ys"
  defines "suf \<equiv> common_suffix (min (length xs) (length ys) - pre) xs ys"
  shows "pre + suf \<le> min (length xs) (length ys)"
    "ys = take pre xs @ drop pre (take (length ys - suf) ys) @ drop (length xs - suf) xs"
proof -
  have pre: "pre \<le> min (length xs) (length ys)" unfolding pre_def by (rule common_prefix_le)
  have "suf \<le> min (length xs) (length ys) - pre" unfolding suf_def by (rule affixes_fit) (simp add: min_def)
  with pre show fit: "pre + suf \<le> min (length xs) (length ys)" by (auto simp: min_def split: if_splits)
  have "take pre xs = take pre ys" by (rule takeWhile_zip_take) (simp add: pre_def common_prefix_def)
  moreover have "drop (length xs - suf) xs = drop (length ys - suf) ys"
    using common_suffix_drop [OF meta_eq_to_obj_eq [OF suf_def]] fit by simp
  moreover have "pre \<le> length ys - suf" using fit unfolding min.bounded_iff by linarith
  then have "take pre ys = take pre (take (length ys - suf) ys)" by (simp add: min_absorb1)
  ultimately show "ys = take pre xs @ drop pre (take (length ys - suf) ys) @ drop (length xs - suf) xs"
    by (metis append.assoc append_take_drop_id)
qed

lemma token_edits_apply:
  assumes "length previous mod 5 = 0" "length current mod 5 = 0" "length previous < 2 ^ 32"
  shows "foldl apply_token_edit previous (semantic_token_edits previous current) = current"
proof -
  let ?p = "chunks_exact5 previous" and ?c = "chunks_exact5 current"
  define pre where "pre = common_prefix ?p ?c"
  define suf where "suf = common_suffix (min (length ?p) (length ?c) - pre) ?p ?c"
  note fit = edited_chunks(1) [where xs = ?p and ys = ?c, folded pre_def, folded suf_def]
  note split = edited_chunks(2) [where xs = ?p and ys = ?c, folded pre_def, folded suf_def]
  have len: "length previous = 5 * length ?p" "length current = 5 * length ?c" using assms(1,2) by (auto simp: length_chunks)
  show ?thesis
  proof (cases "length ?p = length ?c \<and> pre = length ?p")
    case True
    then have "?p = ?c" using takeWhile_zip_take [of pre ?p ?c] by (simp add: pre_def common_prefix_def)
    then have "previous = current" using chunks_concat assms(1,2) by metis
    with True show ?thesis by (simp add: semantic_token_edits_def length_chunks [symmetric] pre_def Let_def)
  next
    case False
    let ?ins = "drop (pre * 5) (take (length current - suf * 5) current)"
    have taken: "concat (take (length ?c - suf) ?c) = take (length current - suf * 5) current"
      by (simp add: concat_take [where k = 5, OF chunks_size] chunks_concat [OF assms(2)] len(2) diff_mult_distrib2
          mult.commute [of _ 5])
    have ins: "concat (drop pre (take (length ?c - suf) ?c)) = ?ins"
      unfolding taken [symmetric] by (rule concat_drop) (meson chunks_size in_set_takeD)
    have "length ?ins = 5 * (length ?c - suf - pre)" using len(2) by (simp add: algebra_simps)
    then have "length ?ins mod 5 = 0" by simp
    then have flat: "concat (map token_numbers (semantic_token_structs ?ins)) = ?ins"
      by (simp add: numbers_structs chunks_concat)
    have edits: "semantic_token_edits previous current =
        [\<lparr>ed_start = wire_u32 (pre * 5), delete_count = wire_u32 ((length ?p - pre - suf) * 5),
          ed_data = Some (semantic_token_structs ?ins)\<rparr>]"
      using False by (auto simp: semantic_token_edits_def Let_def length_chunks [symmetric] pre_def suf_def common_suffix_def)
    have wire: "unat (wire_u32 (pre * 5)) = pre * 5" "unat (wire_u32 ((length ?p - pre - suf) * 5)) = (length ?p - pre - suf) * 5"
      using fit assms(3) len(1) by (auto simp: wire_u32_def intro!: u32_saturating_exact)
    have "current = concat ?c" using chunks_concat [OF assms(2)] by simp
    also have "\<dots> = take (pre * 5) previous @ ?ins @ drop ((length ?p - suf) * 5) previous"
      using arg_cong [OF split, of concat] concat_take [of ?p 5 pre] concat_drop [of ?p 5 "length ?p - suf"] chunks_size
        chunks_concat [OF assms(1)] by (simp add: ins)
    also have "(length ?p - suf) * 5 = pre * 5 + (length ?p - pre - suf) * 5"
      using fit unfolding min.bounded_iff by linarith
    finally show ?thesis
      by (simp only: edits foldl.simps apply_token_edit_def semantic_tokens_edit.simps option.case wire flat)
  qed
qed


lemma encode_length: "encode_from l c ts = Returns data \<Longrightarrow> length data = 5 * length ts"
  by (induction ts arbitrary: l c data) (auto simp: Let_def obind_Returns_iff split: if_splits)

lemma computed_length:
  assumes "computed_semantic_tokens pf resolver_of go uri rng be = Returns (Inr (Some data))"
  shows "length data mod 5 = 0"
  using assms
  by (auto simp: computed_semantic_tokens_def collect_semantic_tokens_in_range_cancellable_def
      collect_semantic_tokens_cancellable_def collect_in_byte_range_def encode_def Let_def obind_Returns_iff
      split: option.splits if_splits dest!: encode_length)

text \<open>A document that is one comment, open in a server that has sent the tokens of an earlier text.\<close>

definition comment_tree :: node where
  "comment_tree = sample_node ''script'' 0 2 [sample_node COMMENT 0 2 []]"

definition comment_document :: parsed_document where
  "comment_document =
     \<lparr>doc_source = ''//'', doc_tree = comment_tree, doc_line_index = LineIndex_new ''//'', doc_diagnostics = [],
      doc_symbols = DocumentSymbols_default, parse_version = 1\<rparr>"

definition comment_server :: backend where
  "comment_server =
     (let be = Backend_new Config_default WorkspaceIndex_default 1 2
      in be\<lparr>be_compilation := (be_compilation be)\<lparr>c_documents := [(''a'', comment_document)]\<rparr>,
            semantic_tokens_cache := [(''a'', \<lparr>result_id = ''0'', token_data = [0, 0, 1, 10, 0]\<rparr>)]\<rparr>)"

lemma comment_document_sel [simp]:
  "doc_source comment_document = ''//''" "doc_tree comment_document = comment_tree"
  "doc_line_index comment_document = LineIndex_new ''//''" "parse_version comment_document = 1"
  by (simp_all add: comment_document_def)

lemma comment_enter:
  "collector_enter resolve db comment_document \<lparr>br_start = 0, br_end = 2\<rparr> (Place (sample_node COMMENT 0 2 []) up)
     \<lparr>tc_cache = [], tc_tokens = []\<rparr> =
   Returns (\<lparr>tc_cache = [], tc_tokens = [\<lparr>tok_line = 0, start_char = 0, tok_length = 2, token_type = 8, token_modifiers = 0\<rparr>]\<rparr>,
     SkipChildren)"
proof -
  let ?p = "Place (sample_node COMMENT 0 2 []) up"
  have pos: "from_byte ?p = 0" "to_byte ?p = 2" "kind_of ?p = COMMENT" by (simp_all add: sample_node_def sample_info_def)
  have "COMMENT \<noteq> IDENT" "COMMENT \<noteq> ANNOTATION_IDENT" by (simp_all add: kind_names)
  then have cls: "classify resolve db comment_document ?p [] = Returns (Some (8, 0), [])"
    unfolding classify_def pos Let_def by (simp add: TT_COMMENT_def)
  have range: "byte_range_to_range (LineIndex_new ''//'') ''//'' 0 2 =
      Returns \<lparr>range_start = \<lparr>pos_line = 0, pos_character = 0\<rparr>, range_end = \<lparr>pos_line = 0, pos_character = 2\<rparr>\<rparr>"
  proof -
    have starts: "line_starts (LineIndex_new ''//'') = [0]" by code_simp
    have "partition_point (\<lambda>l. l \<le> 0) [0 :: nat] = 1" "partition_point (\<lambda>l. l \<le> 2) [0 :: nat] = 1"
      "slice ''//'' 0 0 = Some []" "slice ''//'' 0 2 = Some ''//''" "utf16_count [] = 0" "utf16_count ''//'' = 2" by code_simp+
    then show ?thesis
      by (simp add: byte_range_to_range_def byte_to_position_def starts vget_def SourcePosition_new_def u32_saturating_def Let_def)
  qed
  have "collector_enter resolve db comment_document \<lparr>br_start = 0, br_end = 2\<rparr> ?p \<lparr>tc_cache = [], tc_tokens = []\<rparr> =
      obind (Returns (Some (8, 0), [])) (\<lambda>(c, cache).
        let tc = \<lparr>tc_cache = [], tc_tokens = []\<rparr>\<lparr>tc_cache := cache\<rparr>
        in case c of
             Some (tt, mods) \<Rightarrow>
               obind (byte_range_to_range (LineIndex_new ''//'') ''//'' 0 2) (\<lambda>r.
                 let a = range_start r; z = range_end r
                 in Returns
                   (if pos_line a = pos_line z \<and> pos_character z > pos_character a then
                      tc\<lparr>tc_tokens := tc_tokens tc @
                        [\<lparr>tok_line = pos_line a, start_char = pos_character a,
                          tok_length = pos_character z - pos_character a, token_type = tt, token_modifiers = mods\<rparr>]\<rparr>
                    else tc,
                    SkipChildren))
           | None \<Rightarrow> Returns (tc, if is_named ?p then Children else SkipChildren))"
    unfolding collector_enter_def pos comment_document_sel token_collector.simps cls by simp
  then show ?thesis unfolding range by simp
qed

lemma comment_tokens:
  "computed_semantic_tokens pf resolver_of (\<lambda>_. True) ''a'' None comment_server = Returns (Inr (Some [0, 0, 2, 8, 0]))"
proof -
  have child: "child_nodes (Place comment_tree []) = [Place (sample_node COMMENT 0 2 []) [(0, comment_tree)]]"
    by (simp add: comment_tree_def sample_children)
  have visit: "visit_node (TokenCollector resolve db comment_document \<lparr>br_start = 0, br_end = 2\<rparr>)
      (Place (sample_node COMMENT 0 2 []) up) \<lparr>tc_cache = [], tc_tokens = []\<rparr> =
    Returns \<lparr>tc_cache = [], tc_tokens = [\<lparr>tok_line = 0, start_char = 0, tok_length = 2, token_type = 8, token_modifiers = 0\<rparr>]\<rparr>"
    for resolve db up by (subst visit_node.simps) (simp add: comment_enter)
  have len: "length ''//'' = 2" by simp
  have "collect_semantic_tokens_cancellable resolve db comment_document (\<lambda>_. True) = Returns (Some [0, 0, 2, 8, 0])" for resolve db
    unfolding collect_semantic_tokens_cancellable_def collect_in_byte_range_def comment_document_sel len child collect_children.simps
      walk_is_visit visit by (simp add: encode_def)
  then show ?thesis
    by (simp add: computed_semantic_tokens_def comment_server_def pending_target_for_def Backend_new_def Let_def)
qed

subsection \<open>Properties\<close>

text \<open>
  C10: a request for the difference is answered so that a client that holds the numbers sent with the
  identifier it names gets exactly the numbers computed now, and the server keeps these, under the
  identifier it sends, for the next request; an unknown identifier is answered with all the numbers.
  The numbers of the last answer are tokens of five and fewer than \<open>2 ^ 32\<close>, as offsets are 32 bits wide.
\<close>

theorem semantic_tokens_delta_roundtrip:
  assumes "computed_semantic_tokens pf resolver_of go uri None be = Returns (Inr (Some data))"
    and "\<And>c. hget (semantic_tokens_cache be) uri = Some c \<Longrightarrow> length (token_data c) mod 5 = 0 \<and> length (token_data c) < 2 ^ 32"
    and "\<And>c. hget (semantic_tokens_cache be) uri = Some c \<Longrightarrow> result_id c = previous \<Longrightarrow> held = token_data c"
  shows "\<exists>response be' rid. semantic_tokens_full_delta pf resolver_of go uri previous be = Returns (Inr (Some response), be') \<and>
    client_tokens held response = (Some rid, data) \<and>
    hget (semantic_tokens_cache be') uri = Some \<lparr>result_id = rid, token_data = data\<rparr> \<and> length data mod 5 = 0"
proof -
  note len = computed_length [OF assms(1)]
  show ?thesis
  proof (cases "hget (semantic_tokens_cache be) uri")
    case None
    then show ?thesis
      by (simp add: semantic_tokens_full_delta_def assms(1) next_semantic_tokens_result_id_def len numbers_structs chunks_concat)
  next
    case (Some c)
    then show ?thesis
      using assms(2,3) token_edits_apply [of "token_data c" data]
      by (simp add: semantic_tokens_full_delta_def assms(1) next_semantic_tokens_result_id_def len numbers_structs chunks_concat)
  qed
qed


theorem semantic_tokens_delta_roundtrip_witness:
  "\<forall>pf resolver_of. \<exists>response be'.
     semantic_tokens_full_delta pf resolver_of (\<lambda>_. True) ''a'' ''0'' comment_server = Returns (Inr (Some response), be') \<and>
     snd (client_tokens [0, 0, 1, 10, 0] response) = [0, 0, 2, 8, 0]"
proof (intro allI)
  fix pf resolver_of
  have cache: "semantic_tokens_cache comment_server = [(''a'', \<lparr>result_id = ''0'', token_data = [0, 0, 1, 10, 0]\<rparr>)]"
    by (simp add: comment_server_def Let_def)
  obtain response be' rid where
    r: "semantic_tokens_full_delta pf resolver_of (\<lambda>_. True) ''a'' ''0'' comment_server = Returns (Inr (Some response), be')"
    "client_tokens [0, 0, 1, 10, 0] response = (Some rid, [0, 0, 2, 8, 0])"
    by (rule exE [OF semantic_tokens_delta_roundtrip [OF comment_tokens, of "''0''" "[0, 0, 1, 10, 0]" pf resolver_of]])
      (auto simp: cache)
  then show "\<exists>response be'.
     semantic_tokens_full_delta pf resolver_of (\<lambda>_. True) ''a'' ''0'' comment_server = Returns (Inr (Some response), be') \<and>
     snd (client_tokens [0, 0, 1, 10, 0] response) = [0, 0, 2, 8, 0]"
    by (intro exI conjI) (rule r(1), simp add: r(2))
qed

end
